(* ===== verification/Agp_Prelude.thy ===== *)
theory Agp_Prelude
  imports Main "HOL-Library.AList" "HOL-Library.Sublist"
begin

text \<open>
  Shared vocabulary of the development: the errors the code throws, results and actions
  (a state transformer that may throw), JavaScript objects and \<open>Map\<close>s as association
  lists in insertion order, and the string functions of the language the code calls.
  Strings are lists of bytes holding UTF-8 text.
\<close>

section \<open>Errors and results\<close>

text \<open>
  One constructor per error class of the source; \<open>Error\<close> is the built-in class.
  \<open>ZodError\<close> and \<open>SyntaxError\<close> are thrown by schema validation and by
  \<open>JSON.parse\<close>; they carry the text the library puts into the message.
\<close>

datatype js_error =
    Error string
  | FencedError string
  | SessionContendedError string
  | SecretExfiltrationError string
  | GatewayProtocolError string
  | ZodError string
  | SyntaxError string

fun err_message :: "js_error \<Rightarrow> string" where
  "err_message (Error m) = m"
| "err_message (FencedError sid) =
     ''session lease fenced (superseded by a newer owner): '' @ sid"
| "err_message (SessionContendedError sid) = ''session is owned by a live lease: '' @ sid"
| "err_message (SecretExfiltrationError b) =
     ''secret-value exfiltration blocked at boundary: '' @ b"
| "err_message (GatewayProtocolError m) = m"
| "err_message (ZodError m) = m"
| "err_message (SyntaxError m) = m"

type_synonym 'a result = "js_error + 'a"

named_theorems result_simps "rewriting of results"

fun res_bind :: "'a result \<Rightarrow> ('a \<Rightarrow> 'b result) \<Rightarrow> 'b result" where
  "res_bind (Inl e) f = Inl e"
| "res_bind (Inr x) f = f x"

lemma res_bind_Inr [result_simps]:
  "res_bind m f = Inr y \<longleftrightarrow> (\<exists>x. m = Inr x \<and> f x = Inr y)"
  by (cases m) auto

lemma res_bind_Inl [result_simps]:
  "res_bind m f = Inl e \<longleftrightarrow> m = Inl e \<or> (\<exists>x. m = Inr x \<and> f x = Inl e)"
  by (cases m) auto

fun of_option :: "js_error \<Rightarrow> 'a option \<Rightarrow> 'a result" where
  "of_option e None = Inl e"
| "of_option e (Some x) = Inr x"

lemma of_option_Inr [result_simps]: "of_option e x = Inr y \<longleftrightarrow> x = Some y"
  by (cases x) auto

section \<open>Actions: state passing with exceptions\<close>

text \<open>
  An action maps a state to a result and the state afterwards; a thrown error keeps the
  effects made before it, as the code does.
\<close>

type_synonym ('w, 'a) act = "'w \<Rightarrow> 'a result \<times> 'w"

definition act_ret :: "'a \<Rightarrow> ('w, 'a) act" where
  "act_ret x = (\<lambda>w. (Inr x, w))"

definition act_throw :: "js_error \<Rightarrow> ('w, 'a) act" where
  "act_throw e = (\<lambda>w. (Inl e, w))"

definition act_lift :: "'a result \<Rightarrow> ('w, 'a) act" where
  "act_lift r = (\<lambda>w. (r, w))"

definition act_bind :: "('w, 'a) act \<Rightarrow> ('a \<Rightarrow> ('w, 'b) act) \<Rightarrow> ('w, 'b) act" where
  "act_bind m f = (\<lambda>w. case m w of (Inl e, w') \<Rightarrow> (Inl e, w') | (Inr x, w') \<Rightarrow> f x w')"

definition act_seq :: "('w, 'a) act \<Rightarrow> ('w, 'b) act \<Rightarrow> ('w, 'b) act" where
  "act_seq m k = act_bind m (\<lambda>_. k)"

definition act_catch :: "('w, 'a) act \<Rightarrow> (js_error \<Rightarrow> ('w, 'a) act) \<Rightarrow> ('w, 'a) act" where
  "act_catch m h = (\<lambda>w. case m w of (Inl e, w') \<Rightarrow> h e w' | (Inr x, w') \<Rightarrow> (Inr x, w'))"

text \<open>\<open>try m finally k\<close>: an error of \<open>k\<close> replaces the outcome of \<open>m\<close>.\<close>

definition act_finally :: "('w, 'a) act \<Rightarrow> ('w, unit) act \<Rightarrow> ('w, 'a) act" where
  "act_finally m k = (\<lambda>w. case m w of (r, w') \<Rightarrow>
     (case k w' of (Inl e, w'') \<Rightarrow> (Inl e, w'') | (Inr _, w'') \<Rightarrow> (r, w'')))"

definition act_get :: "('w \<Rightarrow> 'a) \<Rightarrow> ('w, 'a) act" where
  "act_get f = (\<lambda>w. (Inr (f w), w))"

definition act_modify :: "('w \<Rightarrow> 'w) \<Rightarrow> ('w, unit) act" where
  "act_modify f = (\<lambda>w. (Inr (), f w))"

named_theorems act_defs "definitions of the action combinators"

declare act_ret_def [act_defs] act_throw_def [act_defs] act_lift_def [act_defs]
  act_bind_def [act_defs] act_seq_def [act_defs] act_catch_def [act_defs]
  act_finally_def [act_defs] act_get_def [act_defs] act_modify_def [act_defs]

lemma act_bind_eq_Inr:
  "act_bind m f w = (Inr y, w'') \<longleftrightarrow> (\<exists>x w'. m w = (Inr x, w') \<and> f x w' = (Inr y, w''))"
  by (auto simp: act_bind_def split: prod.splits sum.splits)

lemma act_bind_run:
  "m w = (Inr x, w') \<Longrightarrow> act_bind m f w = f x w'"
  "m w = (Inl e, w') \<Longrightarrow> act_bind m f w = (Inl e, w')"
  by (simp_all add: act_bind_def)

lemma act_bind_lift:
  "act_bind (act_lift (Inr x)) f w = f x w"
  "act_bind (act_lift (Inl e)) f w = (Inl e, w)"
  by (simp_all add: act_bind_def act_lift_def)

lemma act_seq_lift:
  "act_seq (act_lift (Inr x)) k w = k w"
  "act_seq (act_lift (Inl e)) k w = (Inl e, w)"
  by (simp_all add: act_seq_def act_bind_lift)

lemma act_seq_run:
  "m w = (Inr x, w') \<Longrightarrow> act_seq m k w = k w'"
  "m w = (Inl e, w') \<Longrightarrow> act_seq m k w = (Inl e, w')"
  by (simp_all add: act_seq_def act_bind_def)

text \<open>
  What an action may do to the state, as a reflexive and transitive relation: every
  combinator keeps inside it, so a component proves the relation for its own operations
  and every composition of them has it.
\<close>

definition act_within :: "('w \<Rightarrow> 'w \<Rightarrow> bool) \<Rightarrow> ('w, 'a) act \<Rightarrow> bool" where
  "act_within R m \<longleftrightarrow> (\<forall>w. R w (snd (m w)))"

lemma act_withinD: "act_within R m \<Longrightarrow> m w = (r, w') \<Longrightarrow> R w w'"
  by (metis act_within_def snd_conv)

lemma act_withinI: "(\<And>w r w'. m w = (r, w') \<Longrightarrow> R w w') \<Longrightarrow> act_within R m"
  by (metis act_within_def prod.collapse)

locale effect_order =
  fixes R :: "'w \<Rightarrow> 'w \<Rightarrow> bool"
  assumes R_refl: "R w w"
    and R_trans: "R w w' \<Longrightarrow> R w' w'' \<Longrightarrow> R w w''"
begin

lemma within_ret: "act_within R (act_ret x)"
  by (simp add: act_within_def act_ret_def R_refl)

lemma within_throw: "act_within R (act_throw e)"
  by (simp add: act_within_def act_throw_def R_refl)

lemma within_lift: "act_within R (act_lift r)"
  by (simp add: act_within_def act_lift_def R_refl)

lemma within_get: "act_within R (act_get f)"
  by (simp add: act_within_def act_get_def R_refl)

lemma within_modify: "(\<And>w. R w (f w)) \<Longrightarrow> act_within R (act_modify f)"
  by (simp add: act_within_def act_modify_def)

lemma within_bind:
  "act_within R m \<Longrightarrow> (\<And>x. act_within R (f x)) \<Longrightarrow> act_within R (act_bind m f)"
  by (rule act_withinI)
    (auto simp: act_bind_def split: prod.splits sum.splits
      dest: act_withinD intro: R_trans)

lemma within_seq: "act_within R m \<Longrightarrow> act_within R k \<Longrightarrow> act_within R (act_seq m k)"
  unfolding act_seq_def by (rule within_bind)

lemma within_catch:
  "act_within R m \<Longrightarrow> (\<And>e. act_within R (h e)) \<Longrightarrow> act_within R (act_catch m h)"
  by (rule act_withinI)
    (auto simp: act_catch_def split: prod.splits sum.splits
      dest: act_withinD intro: R_trans)

lemma within_finally: "act_within R m \<Longrightarrow> act_within R k \<Longrightarrow> act_within R (act_finally m k)"
  by (rule act_withinI)
    (auto simp: act_finally_def split: prod.splits sum.splits
      dest: act_withinD intro: R_trans)

lemmas within_intros =
  within_ret within_throw within_lift within_get within_bind within_seq within_catch
  within_finally

end

section \<open>Objects and maps\<close>

text \<open>
  A JavaScript object used as a record, and a \<open>Map\<close>, is an association list in insertion
  order with distinct keys: a lookup is \<open>map_of\<close>, an assignment is \<open>AList.update\<close> (a new
  key goes last, an existing one keeps its place), \<open>Object.values\<close> is \<open>map snd\<close>.
\<close>

type_synonym 'v obj = "(string \<times> 'v) list"

abbreviation obj_ok :: "('k \<times> 'v) list \<Rightarrow> bool" where
  "obj_ok xs \<equiv> distinct (map fst xs)"

lemma map_of_update [simp]:
  "map_of (AList.update k v xs) k' = (if k' = k then Some v else map_of xs k')"
  by (simp add: update_conv')

lemma obj_ok_update [intro, simp]: "obj_ok xs \<Longrightarrow> obj_ok (AList.update k v xs)"
  by (rule distinct_update)

lemma map_of_delete_if [simp]:
  "map_of (AList.delete k xs) k' = (if k' = k then None else map_of xs k')"
  by (simp add: delete_conv')

lemma set_delete: "set (AList.delete i xs) = {p \<in> set xs. fst p \<noteq> i}"
  by (auto simp: AList.delete_eq)

lemma update_fresh: "k \<notin> fst ` set xs \<Longrightarrow> AList.update k v xs = xs @ [(k, v)]"
  by (induction xs) auto

lemma update_in_place:
  "map_of xs k = Some u \<Longrightarrow> map fst (AList.update k v xs) = map fst xs"
  by (induction xs) (auto split: if_splits)

lemma set_update_subset: "set (AList.update k v xs) \<subseteq> insert (k, v) (set xs)"
  by (induction xs) auto

lemma values_update_ball:
  "(\<forall>x \<in> snd ` set xs. P x) \<Longrightarrow> P v \<Longrightarrow> (\<forall>x \<in> snd ` set (AList.update k v xs). P x)"
  using set_update_subset [of k v xs] by fastforce

lemma entries_update_ball:
  "(\<forall>(k', x) \<in> set xs. P k' x) \<Longrightarrow> P k v \<Longrightarrow> (\<forall>(k', x) \<in> set (AList.update k v xs). P k' x)"
  using set_update_subset [of k v xs] by fastforce

lemma map_of_ballD: "(\<forall>(k, x) \<in> set xs. P k x) \<Longrightarrow> map_of xs k = Some v \<Longrightarrow> P k v"
  by (auto dest: map_of_SomeD)

section \<open>Lists\<close>

text \<open>The first occurrences of a list, in order: a \<open>Set\<close> filled by insertion.\<close>

fun first_seen :: "'a list \<Rightarrow> 'a list \<Rightarrow> 'a list" where
  "first_seen seen [] = []"
| "first_seen seen (x # xs) =
     (if x \<in> set seen then first_seen seen xs else x # first_seen (x # seen) xs)"

lemma first_seen_cong: "set a = set b \<Longrightarrow> first_seen a xs = first_seen b xs"
proof (induction xs arbitrary: a b)
  case (Cons x xs)
  show ?case using Cons.prems Cons.IH [of a b] Cons.IH [of "x # a" "x # b"] by simp
qed simp

lemma set_first_seen: "set (first_seen seen xs) = set xs - set seen"
  by (induction xs arbitrary: seen) auto

lemma distinct_first_seen: "distinct (first_seen seen xs)"
  by (induction xs arbitrary: seen) (auto simp: set_first_seen)

lemma subseq_first_seen: "subseq (first_seen seen xs) xs"
  by (induction xs arbitrary: seen) (auto intro: list_emb_Cons)

text \<open>Mapping a function that may throw, left to right.\<close>

fun res_map :: "('a \<Rightarrow> 'b result) \<Rightarrow> 'a list \<Rightarrow> 'b list result" where
  "res_map f [] = Inr []"
| "res_map f (x # xs) = res_bind (f x) (\<lambda>y. res_bind (res_map f xs) (\<lambda>ys. Inr (y # ys)))"

lemma res_map_cong [fundef_cong]:
  "xs = ys \<Longrightarrow> (\<And>x. x \<in> set ys \<Longrightarrow> f x = g x) \<Longrightarrow> res_map f xs = res_map g ys"
  by (induction ys arbitrary: xs) auto

lemma res_map_Inr: "res_map f xs = Inr ys \<longleftrightarrow> list_all2 (\<lambda>x y. f x = Inr y) xs ys"
  by (induction xs arbitrary: ys) (auto simp: result_simps list_all2_Cons1)

lemma res_map_Inl: "res_map f xs = Inl e \<Longrightarrow> \<exists>x \<in> set xs. f x = Inl e"
  by (induction xs) (auto simp: result_simps)

lemma res_map_ok: "(\<exists>ys. res_map f xs = Inr ys) \<longleftrightarrow> (\<forall>x \<in> set xs. \<exists>y. f x = Inr y)"
  by (induction xs) (auto simp: result_simps)

end
