(* ===== verification/Js_Strings.thy ===== *)
theory Js_Strings
  imports Agp_Prelude
begin

text \<open>
  The string operations of the language that the code calls: decimal rendering of numbers
  (\<open>String(n)\<close> and template literals), \<open>trim\<close>, \<open>split\<close>, \<open>join\<close>, \<open>includes\<close>
  (\<open>sublist\<close> of the library), \<open>startsWith\<close> (\<open>prefix\<close>), \<open>toLowerCase\<close>,
  \<open>lastIndexOf\<close>. White space is the ASCII white space; the wider Unicode blanks that
  \<open>trim\<close> also strips are not modelled.
\<close>

section \<open>Characters\<close>

abbreviation code :: "char \<Rightarrow> nat" where
  "code c \<equiv> of_char c"

definition is_digit :: "char \<Rightarrow> bool" where
  "is_digit c \<longleftrightarrow> 48 \<le> code c \<and> code c \<le> 57"

definition is_ws :: "char \<Rightarrow> bool" where
  "is_ws c \<longleftrightarrow> code c = 32 \<or> (9 \<le> code c \<and> code c \<le> 13)"

definition is_alnum :: "char \<Rightarrow> bool" where
  "is_alnum c \<longleftrightarrow> is_digit c \<or> (65 \<le> code c \<and> code c \<le> 90) \<or> (97 \<le> code c \<and> code c \<le> 122)"

definition is_hex_lower :: "char \<Rightarrow> bool" where
  "is_hex_lower c \<longleftrightarrow> is_digit c \<or> (97 \<le> code c \<and> code c \<le> 102)"

abbreviation newline :: char where
  "newline \<equiv> CHR 0x0A"

definition to_lower :: "string \<Rightarrow> string" where
  "to_lower = map (\<lambda>c. if 65 \<le> code c \<and> code c \<le> 90 then char_of (code c + 32) else c)"

section \<open>Decimal numbers\<close>

definition digit_char :: "nat \<Rightarrow> char" where
  "digit_char d = char_of (48 + d)"

fun show_nat :: "nat \<Rightarrow> string" where
  "show_nat n = (if n < 10 then [digit_char n] else show_nat (n div 10) @ [digit_char (n mod 10)])"

declare show_nat.simps [simp del]

definition show_int :: "int \<Rightarrow> string" where
  "show_int i = (if i < 0 then CHR ''-'' # show_nat (nat (- i)) else show_nat (nat i))"

definition nat_of_digits :: "string \<Rightarrow> nat" where
  "nat_of_digits = foldl (\<lambda>a c. 10 * a + (code c - 48)) 0"

lemma code_digit_char [simp]: "d < 10 \<Longrightarrow> code (digit_char d) = 48 + d"
  by (simp add: digit_char_def)

lemma show_nat_digits: "\<forall>c \<in> set (show_nat n). is_digit c"
proof (induction n rule: show_nat.induct)
  case (1 n)
  then show ?case
    by (subst show_nat.simps) (auto simp: is_digit_def)
qed

lemma show_nat_nonempty [simp]: "show_nat n \<noteq> []"
  by (subst show_nat.simps) simp

lemma nat_of_digits_show [simp]: "nat_of_digits (show_nat n) = n"
proof (induction n rule: show_nat.induct)
  case (1 n)
  then show ?case
    by (subst show_nat.simps) (auto simp: nat_of_digits_def)
qed

lemma show_nat_inject [simp]: "show_nat m = show_nat n \<longleftrightarrow> m = n"
  by (metis nat_of_digits_show)

lemma show_nat_pos_hd: "0 < n \<Longrightarrow> hd (show_nat n) \<noteq> CHR ''0''"
proof (induction n rule: show_nat.induct)
  case (1 n)
  show ?case
  proof (cases "n < 10")
    case True
    have "code (digit_char n) \<noteq> code (CHR ''0'')"
      unfolding code_digit_char [OF True] using "1.prems" by simp
    then have "digit_char n \<noteq> CHR ''0''" by metis
    then show ?thesis using True by (subst show_nat.simps) simp
  next
    case False
    then have "0 < n div 10" by auto
    with "1.IH" False show ?thesis by (subst show_nat.simps) simp
  qed
qed

lemma show_nat_0: "show_nat 0 = ''0''"
proof -
  have "digit_char 0 = CHR ''0''" by code_simp
  then show ?thesis by (subst show_nat.simps) simp
qed

section \<open>Trim, join, split\<close>

definition str_trim :: "string \<Rightarrow> string" where
  "str_trim s = rev (dropWhile is_ws (rev (dropWhile is_ws s)))"

lemma str_trim_Nil_iff: "str_trim s = [] \<longleftrightarrow> (\<forall>c \<in> set s. is_ws c)"
proof -
  have "str_trim s = [] \<longleftrightarrow> (\<forall>c \<in> set (dropWhile is_ws s). is_ws c)"
    by (auto simp: str_trim_def dropWhile_eq_Nil_conv)
  also have "\<dots> \<longleftrightarrow> (\<forall>c \<in> set s. is_ws c)"
  proof
    assume "\<forall>c \<in> set (dropWhile is_ws s). is_ws c"
    then have "dropWhile is_ws s = []"
      by (metis dropWhile_eq_Nil_conv dropWhile_idem)
    then show "\<forall>c \<in> set s. is_ws c" by (simp add: dropWhile_eq_Nil_conv)
  next
    assume "\<forall>c \<in> set s. is_ws c"
    then show "\<forall>c \<in> set (dropWhile is_ws s). is_ws c" by (meson set_dropWhileD)
  qed
  finally show ?thesis .
qed

fun str_join :: "string \<Rightarrow> string list \<Rightarrow> string" where
  "str_join sep [] = []"
| "str_join sep [x] = x"
| "str_join sep (x # y # ys) = x @ sep @ str_join sep (y # ys)"

text \<open>\<open>cut sep s\<close>: what stands before and after the leftmost occurrence of \<open>sep\<close>.\<close>

fun cut :: "string \<Rightarrow> string \<Rightarrow> (string \<times> string) option" where
  "cut sep [] = (if sep = [] then Some ([], []) else None)"
| "cut sep (c # s) =
     (if prefix sep (c # s) then Some ([], drop (length sep) (c # s))
      else map_option (\<lambda>(a, b). (c # a, b)) (cut sep s))"

lemma cut_Some: "cut sep s = Some (a, b) \<Longrightarrow> s = a @ sep @ b"
proof (induction sep s arbitrary: a b rule: cut.induct)
  case (1 sep)
  then show ?case by (auto split: if_splits)
next
  case (2 sep c s)
  then show ?case by (auto split: if_splits elim!: prefixE)
qed

lemma cut_None: "cut sep s = None \<longleftrightarrow> \<not> sublist sep s"
  by (induction sep s rule: cut.induct) (auto simp: sublist_Cons_right)

lemma cut_before: "sep \<noteq> [] \<Longrightarrow> cut sep s = Some (a, b) \<Longrightarrow> \<not> sublist sep a"
proof (induction sep s arbitrary: a b rule: cut.induct)
  case (1 sep)
  then show ?case by simp
next
  case (2 sep c s)
  show ?case
  proof (cases "prefix sep (c # s)")
    case True
    with 2 show ?thesis by simp
  next
    case False
    with "2.prems" obtain a' where a: "a = c # a'" and cut: "cut sep s = Some (a', b)"
      by auto
    then have "\<not> sublist sep a'" using 2 False by simp
    moreover have "\<not> prefix sep (c # a')"
      using False cut_Some [OF cut] by (metis append_Cons prefix_append)
    ultimately show ?thesis by (simp add: a sublist_Cons_right)
  qed
qed

text \<open>\<open>s.split(sep)\<close> for a nonempty separator.\<close>

function str_split :: "string \<Rightarrow> string \<Rightarrow> string list" where
  "str_split sep s =
     (case cut sep s of
        None \<Rightarrow> [s]
      | Some (a, b) \<Rightarrow> if sep = [] then [s] else a # str_split sep b)"
  by pat_completeness auto
termination
proof (relation "measure (\<lambda>(sep, s). length s)", goal_cases)
  case 1
  show ?case by simp
next
  case (2 sep s x a b)
  then have "s = a @ sep @ b" by (simp add: cut_Some)
  with 2 show ?case by simp
qed

declare str_split.simps [simp del]

lemma str_split_None: "cut sep s = None \<Longrightarrow> str_split sep s = [s]"
  by (subst str_split.simps) simp

lemma str_split_Some:
  "cut sep s = Some (a, b) \<Longrightarrow> sep \<noteq> [] \<Longrightarrow> str_split sep s = a # str_split sep b"
  by (subst str_split.simps) simp

lemma str_split_empty_sep: "str_split [] s = [s]"
  by (subst str_split.simps) (simp split: option.split)

lemma str_split_induct [case_names stop step]:
  assumes stop: "\<And>s. sep = [] \<or> cut sep s = None \<Longrightarrow> P s [s]"
    and step: "\<And>s a b. sep \<noteq> [] \<Longrightarrow> cut sep s = Some (a, b) \<Longrightarrow> P b (str_split sep b) \<Longrightarrow>
      P s (a # str_split sep b)"
  shows "P s (str_split sep s)"
proof (induction s rule: length_induct)
  case (1 s)
  show ?case
  proof (cases "sep = [] \<or> cut sep s = None")
    case True
    then have "str_split sep s = [s]" by (auto simp: str_split_None str_split_empty_sep)
    with stop True show ?thesis by simp
  next
    case False
    then obtain a b where c: "cut sep s = Some (a, b)" and n: "sep \<noteq> []" by auto
    have "length b < length s" using cut_Some [OF c] n by simp
    then have "P b (str_split sep b)" using 1 by blast
    with step n c show ?thesis by (simp add: str_split_Some)
  qed
qed

lemma str_split_nonempty [simp]: "str_split sep s \<noteq> []"
  by (subst str_split.simps) (auto split: option.split)

lemma str_join_Cons: "xs \<noteq> [] \<Longrightarrow> str_join sep (x # xs) = x @ sep @ str_join sep xs"
  by (cases xs) auto

lemma str_split_join: "str_join sep (str_split sep s) = s"
  by (induction s rule: str_split_induct [where sep = sep])
    (auto simp: str_join_Cons dest: cut_Some)

lemma str_split_pieces: "sep \<noteq> [] \<Longrightarrow> \<forall>x \<in> set (str_split sep s). \<not> sublist sep x"
  by (induction s rule: str_split_induct [where sep = sep])
    (auto simp: cut_None cut_before)

lemma sublist_str_split: "\<forall>x \<in> set (str_split sep s). sublist x s"
  by (induction s rule: str_split_induct [where sep = sep])
    (auto dest!: cut_Some simp: sublist_append)

lemma cut_char: "c \<notin> set x \<Longrightarrow> cut [c] (x @ c # y) = Some (x, y)"
  by (induction x) auto

lemma cut_char_None: "c \<notin> set x \<Longrightarrow> cut [c] x = None"
  by (induction x) auto

lemma str_split_char: "c \<notin> set x \<Longrightarrow> str_split [c] (x @ c # y) = x # str_split [c] y"
  by (subst str_split.simps) (simp add: cut_char)

lemma str_split_char_none: "c \<notin> set x \<Longrightarrow> str_split [c] x = [x]"
  by (subst str_split.simps) (simp add: cut_char_None)

text \<open>\<open>s.lastIndexOf(c)\<close> for one character: \<open>-1\<close> when it does not occur.\<close>

fun index_of_char :: "char \<Rightarrow> string \<Rightarrow> int" where
  "index_of_char c [] = -1"
| "index_of_char c (x # xs) =
     (if x = c then 0 else let i = index_of_char c xs in if i < 0 then -1 else i + 1)"

definition last_index_of :: "char \<Rightarrow> string \<Rightarrow> int" where
  "last_index_of c s =
     (let i = index_of_char c (rev s) in if i < 0 then -1 else int (length s) - 1 - i)"

lemma str_split_append_char: "str_split [c] (x @ c # y) = str_split [c] x @ str_split [c] y"
proof (induction x rule: length_induct)
  case (1 x)
  show ?case
  proof (cases "c \<in> set x")
    case True
    then obtain x1 x2 where x: "x = x1 @ c # x2" "c \<notin> set x1" by (metis split_list_first)
    then have "length x2 < length x" by simp
    then have "str_split [c] (x2 @ c # y) = str_split [c] x2 @ str_split [c] y" using 1 by blast
    then show ?thesis using x by (simp add: str_split_char)
  qed (simp add: str_split_char str_split_char_none)
qed

lemma index_of_char_first: "c \<notin> set a \<Longrightarrow> index_of_char c (a @ c # b) = int (length a)"
  by (induction a) (auto simp: Let_def)

lemma index_of_char_none: "index_of_char c s < 0 \<longleftrightarrow> c \<notin> set s"
  by (induction s) (auto simp: Let_def)

text \<open>The nonblank lines of a text, as the readers of line-based files take them.\<close>

definition nonblank_lines :: "string \<Rightarrow> string list" where
  "nonblank_lines s = filter (\<lambda>l. str_trim l \<noteq> []) (str_split [newline] s)"

definition lines_closed :: "string \<Rightarrow> bool" where
  "lines_closed s \<longleftrightarrow> s = [] \<or> last s = newline"

lemma nonblank_lines_Nil [simp]: "nonblank_lines [] = []"
  by (simp add: nonblank_lines_def str_split_char_none str_trim_def)

lemma nonblank_lines_append:
  assumes "lines_closed s" "newline \<notin> set l" "str_trim l \<noteq> []"
  shows "nonblank_lines (s @ l @ [newline]) = nonblank_lines s @ [l]"
proof -
  have one: "nonblank_lines (l @ [newline]) = [l]"
    using assms(2,3) by (simp add: nonblank_lines_def str_split_char str_split_char_none str_trim_def)
  show ?thesis
  proof (cases "s = []")
    case False
    then obtain t where t: "s = t @ [newline]"
      using assms(1) by (metis append_butlast_last_id lines_closed_def)
    have blank: "nonblank_lines (u @ [newline]) = nonblank_lines u" for u
      by (simp add: nonblank_lines_def str_split_append_char str_split_char_none str_trim_def)
    have "nonblank_lines (t @ newline # (l @ [newline])) = nonblank_lines t @ nonblank_lines (l @ [newline])"
      unfolding nonblank_lines_def by (subst str_split_append_char) simp
    then show ?thesis using one blank t by simp
  qed (use one in simp)
qed

lemma lines_closed_append [simp]: "lines_closed (s @ l @ [newline])"
  by (simp add: lines_closed_def)

end
