(* ===== verification/Json.thy ===== *)
theory Json
  imports Js_Strings "HOL-Library.List_Lexorder" "HOL-Library.Char_ord" "HOL-Library.Multiset"
begin

text \<open>
  JSON values, \<open>JSON.stringify\<close> (compact and with the two-space indentation the file
  stores use), \<open>JSON.parse\<close>, and the canonical form of \<open>src/runtime/crypto.ts\<close>
  (\<open>sortDeep\<close>, \<open>canonicalJson\<close>). The main facts are that parsing inverts printing on
  every well-formed value, that printed text has no control character (so one line holds
  one value), and that canonical text determines the value up to the order of keys.
  Numbers are integers: the code puts no other number into what it writes. A JSON text
  with a fraction or an exponent is refused by the parser of the model.
\<close>

section \<open>Values\<close>

datatype json =
    JNull
  | JBool bool
  | JNum int
  | JStr string
  | JArr "json list"
  | JObj "(string \<times> json) list"

text \<open>An object of the language has each key once.\<close>

fun json_ok :: "json \<Rightarrow> bool" where
  "json_ok (JArr vs) = list_all json_ok vs"
| "json_ok (JObj kvs) = (obj_ok kvs \<and> list_all (\<lambda>p. json_ok (snd p)) kvs)"
| "json_ok _ = True"

section \<open>JSON.stringify\<close>

definition hex_digit :: "nat \<Rightarrow> char" where
  "hex_digit d = (if d < 10 then char_of (48 + d) else char_of (87 + d))"

abbreviation quote_c :: char where
  "quote_c \<equiv> CHR 0x22"

abbreviation backslash_c :: char where
  "backslash_c \<equiv> CHR 0x5C"

definition esc_char :: "char \<Rightarrow> string" where
  "esc_char c =
     (if c = quote_c then [backslash_c, quote_c]
      else if c = backslash_c then [backslash_c, backslash_c]
      else if code c = 8 then [backslash_c, CHR ''b'']
      else if code c = 9 then [backslash_c, CHR ''t'']
      else if code c = 10 then [backslash_c, CHR ''n'']
      else if code c = 12 then [backslash_c, CHR ''f'']
      else if code c = 13 then [backslash_c, CHR ''r'']
      else if code c < 32 then
        [backslash_c, CHR ''u'', CHR ''0'', CHR ''0'',
         hex_digit (code c div 16), hex_digit (code c mod 16)]
      else [c])"

definition json_quote :: "string \<Rightarrow> string" where
  "json_quote s = quote_c # concat (map esc_char s) @ [quote_c]"

definition gap :: "bool \<Rightarrow> nat \<Rightarrow> string" where
  "gap pretty n = (if pretty then newline # replicate (2 * n) (CHR '' '') else [])"

definition colon :: "bool \<Rightarrow> string" where
  "colon pretty = (if pretty then '': '' else '':'')"

fun print_json :: "bool \<Rightarrow> nat \<Rightarrow> json \<Rightarrow> string" where
  "print_json pretty n JNull = ''null''"
| "print_json pretty n (JBool b) = (if b then ''true'' else ''false'')"
| "print_json pretty n (JNum i) = show_int i"
| "print_json pretty n (JStr s) = json_quote s"
| "print_json pretty n (JArr vs) =
     (if vs = [] then ''[]''
      else ''['' @ gap pretty (n + 1)
         @ str_join (CHR '','' # gap pretty (n + 1)) (map (print_json pretty (n + 1)) vs)
         @ gap pretty n @ '']'')"
| "print_json pretty n (JObj kvs) =
     (if kvs = [] then ''{}''
      else ''{'' @ gap pretty (n + 1)
         @ str_join (CHR '','' # gap pretty (n + 1))
             (map (\<lambda>p. json_quote (fst p) @ colon pretty @ print_json pretty (n + 1) (snd p)) kvs)
         @ gap pretty n @ ''}'')"

definition json_stringify :: "json \<Rightarrow> string" where
  "json_stringify v = print_json False 0 v"

definition json_stringify_indent :: "json \<Rightarrow> string" where
  "json_stringify_indent v = print_json True 0 v"

section \<open>JSON.parse\<close>

definition is_json_ws :: "char \<Rightarrow> bool" where
  "is_json_ws c \<longleftrightarrow> code c = 32 \<or> code c = 9 \<or> code c = 10 \<or> code c = 13"

definition skip_ws :: "string \<Rightarrow> string" where
  "skip_ws = dropWhile is_json_ws"

definition strip_prefix :: "string \<Rightarrow> string \<Rightarrow> string option" where
  "strip_prefix p s = (if prefix p s then Some (drop (length p) s) else None)"

definition hex_value :: "char \<Rightarrow> nat option" where
  "hex_value c =
     (if is_digit c then Some (code c - 48)
      else if 97 \<le> code c \<and> code c \<le> 102 then Some (code c - 87)
      else if 65 \<le> code c \<and> code c \<le> 70 then Some (code c - 55)
      else None)"

definition hex4 :: "char \<Rightarrow> char \<Rightarrow> char \<Rightarrow> char \<Rightarrow> nat option" where
  "hex4 a b c d =
     (case (hex_value a, hex_value b, hex_value c, hex_value d) of
        (Some w, Some x, Some y, Some z) \<Rightarrow> Some (((w * 16 + x) * 16 + y) * 16 + z)
      | _ \<Rightarrow> None)"

text \<open>The bytes of a code point below \<open>2\<^sup>1\<^sup>6\<close>.\<close>

definition utf8 :: "nat \<Rightarrow> string" where
  "utf8 n =
     (if n < 128 then [char_of n]
      else if n < 2048 then [char_of (192 + n div 64), char_of (128 + n mod 64)]
      else [char_of (224 + n div 4096), char_of (128 + n div 64 mod 64), char_of (128 + n mod 64)])"

definition unescape :: "char \<Rightarrow> char option" where
  "unescape e =
     (if e = quote_c \<or> e = backslash_c \<or> e = CHR ''/'' then Some e
      else if e = CHR ''b'' then Some (char_of (8::nat))
      else if e = CHR ''t'' then Some (char_of (9::nat))
      else if e = CHR ''n'' then Some (char_of (10::nat))
      else if e = CHR ''f'' then Some (char_of (12::nat))
      else if e = CHR ''r'' then Some (char_of (13::nat))
      else None)"

text \<open>The rest of a string literal, after its opening quote.\<close>

fun p_str :: "string \<Rightarrow> (string \<times> string) option" where
  "p_str [] = None"
| "p_str (c # r) =
     (if c = quote_c then Some ([], r)
      else if c = backslash_c then
        (case r of
           [] \<Rightarrow> None
         | e # r' \<Rightarrow>
             (if e = CHR ''u'' then
                (case r' of
                   h1 # h2 # h3 # h4 # r'' \<Rightarrow>
                     (case hex4 h1 h2 h3 h4 of
                        None \<Rightarrow> None
                      | Some n \<Rightarrow> map_option (\<lambda>(s, t). (utf8 n @ s, t)) (p_str r''))
                 | _ \<Rightarrow> None)
              else
                (case unescape e of
                   None \<Rightarrow> None
                 | Some d \<Rightarrow> map_option (\<lambda>(s, t). (d # s, t)) (p_str r'))))
      else if code c < 32 then None
      else map_option (\<lambda>(s, t). (c # s, t)) (p_str r))"

definition p_num :: "string \<Rightarrow> (json \<times> string) option" where
  "p_num s =
     (let neg = (s \<noteq> [] \<and> hd s = CHR ''-'');
          s1 = (if neg then tl s else s);
          ds = takeWhile is_digit s1;
          r = dropWhile is_digit s1
      in if ds = [] \<or> (hd ds = CHR ''0'' \<and> tl ds \<noteq> [])
            \<or> (r \<noteq> [] \<and> (hd r = CHR ''.'' \<or> hd r = CHR ''e'' \<or> hd r = CHR ''E''))
         then None
         else Some (JNum (if neg then - int (nat_of_digits ds) else int (nat_of_digits ds)), r))"

text \<open>
  Values, the elements of an array and the members of an object. The fuel counts calls; a
  value or an element consumes at least one character, so twice the length of the text is
  enough (\<open>p_val_fuel\<close> below).
\<close>

fun p_val :: "nat \<Rightarrow> string \<Rightarrow> (json \<times> string) option"
  and p_elems :: "nat \<Rightarrow> string \<Rightarrow> (json list \<times> string) option"
  and p_members :: "nat \<Rightarrow> string \<Rightarrow> ((string \<times> json) list \<times> string) option"
where
  "p_val 0 s = None"
| "p_val (Suc f) s =
     (case skip_ws s of
        [] \<Rightarrow> None
      | c # r \<Rightarrow>
          (if c = quote_c then map_option (\<lambda>(x, t). (JStr x, t)) (p_str r)
           else if c = CHR ''['' then
             (case skip_ws r of
                [] \<Rightarrow> None
              | d # r' \<Rightarrow>
                  (if d = CHR '']'' then Some (JArr [], r')
                   else map_option (\<lambda>(vs, t). (JArr vs, t)) (p_elems f r)))
           else if c = CHR ''{'' then
             (case skip_ws r of
                [] \<Rightarrow> None
              | d # r' \<Rightarrow>
                  (if d = CHR ''}'' then Some (JObj [], r')
                   else map_option (\<lambda>(kvs, t).
                          (JObj (foldl (\<lambda>o' (k, v). AList.update k v o') [] kvs), t)) (p_members f r)))
           else if c = CHR ''n'' then map_option (\<lambda>t. (JNull, t)) (strip_prefix ''null'' (c # r))
           else if c = CHR ''t'' then map_option (\<lambda>t. (JBool True, t)) (strip_prefix ''true'' (c # r))
           else if c = CHR ''f'' then map_option (\<lambda>t. (JBool False, t)) (strip_prefix ''false'' (c # r))
           else p_num (c # r)))"
| "p_elems 0 s = None"
| "p_elems (Suc f) s =
     (case p_val f s of
        None \<Rightarrow> None
      | Some (v, t) \<Rightarrow>
          (case skip_ws t of
             [] \<Rightarrow> None
           | d # t' \<Rightarrow>
               (if d = CHR '','' then map_option (\<lambda>(vs, u). (v # vs, u)) (p_elems f t')
                else if d = CHR '']'' then Some ([v], t')
                else None)))"
| "p_members 0 s = None"
| "p_members (Suc f) s =
     (case skip_ws s of
        [] \<Rightarrow> None
      | c # r \<Rightarrow>
          (if c \<noteq> quote_c then None
           else
             (case p_str r of
                None \<Rightarrow> None
              | Some (k, t) \<Rightarrow>
                  (case skip_ws t of
                     [] \<Rightarrow> None
                   | d # t' \<Rightarrow>
                       (if d \<noteq> CHR '':'' then None
                        else
                          (case p_val f t' of
                             None \<Rightarrow> None
                           | Some (v, u) \<Rightarrow>
                               (case skip_ws u of
                                  [] \<Rightarrow> None
                                | e # u' \<Rightarrow>
                                    (if e = CHR '','' then
                                       map_option (\<lambda>(kvs, w). ((k, v) # kvs, w)) (p_members f u')
                                     else if e = CHR ''}'' then Some ([(k, v)], u')
                                     else None))))))))"

definition json_parse :: "string \<Rightarrow> json option" where
  "json_parse s =
     (case p_val (2 * length s + 2) s of
        None \<Rightarrow> None
      | Some (v, rest) \<Rightarrow> if skip_ws rest = [] then Some v else None)"

section \<open>Parsing inverts printing\<close>


lemma hex_value_hex_digit: "d < 16 \<Longrightarrow> hex_value (hex_digit d) = Some d"
  by (auto simp: hex_value_def hex_digit_def is_digit_def)

lemma hex_value_0: "hex_value (CHR ''0'') = Some 0"
  by (simp add: hex_value_def is_digit_def)

lemma utf8_low: "n < 128 \<Longrightarrow> utf8 n = [char_of n]"
  by (simp add: utf8_def)

lemma hex4_control:
  "code c < 32 \<Longrightarrow>
   hex4 (CHR ''0'') (CHR ''0'') (hex_digit (code c div 16)) (hex_digit (code c mod 16)) = Some (code c)"
  by (simp add: hex4_def hex_value_0 hex_value_hex_digit)

lemma p_str_esc_char: "p_str (esc_char c @ t) = map_option (\<lambda>(s, u). (c # s, u)) (p_str t)"
proof -
  have ctl: "char_of (8::nat) = c" if "code c = 8" using that by (metis char_of_char)
  have ctl2: "char_of (9::nat) = c" if "code c = 9" using that by (metis char_of_char)
  have ctl3: "char_of (10::nat) = c" if "code c = 10" using that by (metis char_of_char)
  have ctl4: "char_of (12::nat) = c" if "code c = 12" using that by (metis char_of_char)
  have ctl5: "char_of (13::nat) = c" if "code c = 13" using that by (metis char_of_char)
  have u: "utf8 (code c) = [c]" if "code c < 32" using that by (simp add: utf8_low)
  show ?thesis
    by (auto simp: esc_char_def unescape_def ctl ctl2 ctl3 ctl4 ctl5 u hex4_control)
qed

lemma p_str_quoted: "p_str (concat (map esc_char s) @ quote_c # rest) = Some (s, rest)"
  by (induction s) (simp_all add: p_str_esc_char)

definition num_end :: "string \<Rightarrow> bool" where
  "num_end r \<longleftrightarrow> r = [] \<or> \<not> (is_digit (hd r) \<or> hd r = CHR ''.'' \<or> hd r = CHR ''e'' \<or> hd r = CHR ''E'')"

lemma takeWhile_show_nat:
  assumes "num_end r"
  shows "takeWhile is_digit (show_nat n @ r) = show_nat n" "dropWhile is_digit (show_nat n @ r) = r"
  using assms show_nat_digits [of n]
  by (cases r; simp add: num_end_def takeWhile_append2 dropWhile_append2)+

lemma show_nat_no_lead_zero: "hd (show_nat n) = CHR ''0'' \<Longrightarrow> show_nat n = ''0''"
  using show_nat_pos_hd [of n] show_nat_0 by (cases "n = 0") auto

lemma show_nat_not_minus: "hd (show_nat n @ r) \<noteq> CHR ''-''"
proof -
  have "is_digit (hd (show_nat n))" using show_nat_digits [of n] by simp
  then have "hd (show_nat n) \<noteq> CHR ''-''" by (auto simp: is_digit_def)
  then show ?thesis by simp
qed

lemma p_num_show_nat_aux:
  assumes "num_end r"
  shows "\<not> (show_nat n = [] \<or> (hd (show_nat n) = CHR ''0'' \<and> tl (show_nat n) \<noteq> [])
            \<or> (r \<noteq> [] \<and> (hd r = CHR ''.'' \<or> hd r = CHR ''e'' \<or> hd r = CHR ''E'')))"
  using assms show_nat_no_lead_zero [of n] by (auto simp: num_end_def)

lemma p_num_show_int:
  assumes "num_end r"
  shows "p_num (show_int i @ r) = Some (JNum i, r)"
proof (cases "i < 0")
  case True
  then show ?thesis using p_num_show_nat_aux [OF assms]
    unfolding p_num_def Let_def show_int_def by (simp add: takeWhile_show_nat [OF assms])
next
  case False
  then show ?thesis using p_num_show_nat_aux [OF assms] show_nat_not_minus
    unfolding p_num_def Let_def show_int_def by (simp add: takeWhile_show_nat [OF assms])
qed

definition all_ws :: "string \<Rightarrow> bool" where
  "all_ws w \<longleftrightarrow> (\<forall>c \<in> set w. is_json_ws c)"

lemma all_ws_Nil [simp]: "all_ws []"
  by (simp add: all_ws_def)

lemma all_ws_gap [simp]: "all_ws (gap b n)"
  by (auto simp: all_ws_def is_json_ws_def gap_def)

lemma all_ws_colon: "all_ws (tl (colon b))" "hd (colon b) = CHR '':''" "colon b \<noteq> []"
  by (simp_all add: all_ws_def colon_def is_json_ws_def)

lemma skip_ws_append:
  "all_ws w \<Longrightarrow> s = [] \<or> \<not> is_json_ws (hd s) \<Longrightarrow> skip_ws (w @ s) = s"
  unfolding all_ws_def skip_ws_def by (induction w) (cases s; auto)+

lemma skip_ws_stop: "\<not> is_json_ws c \<Longrightarrow> skip_ws (c # s) = c # s"
  by (simp add: skip_ws_def)

lemma skip_ws_gap: "\<not> is_json_ws c \<Longrightarrow> skip_ws (gap b n @ c # s) = c # s"
  by (rule skip_ws_append) simp_all

lemma not_ws [simp]:
  "\<not> is_json_ws quote_c" "\<not> is_json_ws (CHR ''['')" "\<not> is_json_ws (CHR '']'')"
  "\<not> is_json_ws (CHR ''{'')" "\<not> is_json_ws (CHR ''}'')" "\<not> is_json_ws (CHR '','')"
  "\<not> is_json_ws (CHR '':'')" "\<not> is_json_ws (CHR ''n'')" "\<not> is_json_ws (CHR ''t'')"
  "\<not> is_json_ws (CHR ''f'')" "\<not> is_json_ws (CHR ''-'')"
  by (simp_all add: is_json_ws_def)

lemma show_int_Cons:
  obtains c r where "show_int i = c # r" "c = CHR ''-'' \<or> is_digit c"
proof (cases "i < 0")
  case True
  then show thesis using that by (simp add: show_int_def)
next
  case False
  obtain c r where cr: "show_nat (nat i) = c # r" by (cases "show_nat (nat i)") auto
  then have "is_digit c" using show_nat_digits [of "nat i"] by simp
  with cr False show thesis using that by (simp add: show_int_def)
qed

lemma digit_not_special:
  "is_digit c \<Longrightarrow> \<not> is_json_ws c \<and> c \<noteq> quote_c \<and> c \<noteq> CHR ''['' \<and> c \<noteq> CHR ''{''
     \<and> c \<noteq> CHR ''n'' \<and> c \<noteq> CHR ''t'' \<and> c \<noteq> CHR ''f''"
  by (auto simp: is_digit_def is_json_ws_def)

lemma p_val_num:
  assumes "all_ws w" "num_end r"
  shows "p_val (Suc f) (w @ show_int i @ r) = Some (JNum i, r)"
proof -
  obtain c t where ct: "show_int i = c # t" and c: "c = CHR ''-'' \<or> is_digit c"
    by (rule show_int_Cons)
  have "skip_ws (w @ show_int i @ r) = c # t @ r"
    using c digit_not_special [of c] ct assms(1) by (auto intro!: skip_ws_append)
  moreover have "p_num (c # t @ r) = Some (JNum i, r)"
    using p_num_show_int [OF assms(2), of i] ct by simp
  ultimately show ?thesis using c digit_not_special [of c] by auto
qed

definition parses :: "bool \<Rightarrow> json \<Rightarrow> bool" where
  "parses b v \<longleftrightarrow> (\<forall>n f w r. all_ws w \<longrightarrow> num_end r \<longrightarrow> 2 * length (print_json b n v) + 1 \<le> f \<longrightarrow>
     p_val f (w @ print_json b n v @ r) = Some (v, r))"

lemma parsesD:
  "parses b v \<Longrightarrow> all_ws w \<Longrightarrow> num_end r \<Longrightarrow> 2 * length (print_json b n v) + 1 \<le> f \<Longrightarrow>
   p_val f (w @ print_json b n v @ r) = Some (v, r)"
  by (auto simp: parses_def)

lemma num_end_intros [simp]:
  "num_end []" "num_end (CHR '','' # r)" "num_end (CHR '']'' # r)" "num_end (CHR ''}'' # r)"
  "num_end (gap b n @ CHR '']'' # r)" "num_end (gap b n @ CHR ''}'' # r)"
  by (simp_all add: num_end_def is_digit_def gap_def)

lemma print_length_pos: "0 < length (print_json b n v)"
  by (cases v) (auto simp: json_quote_def show_int_def)

lemma p_elems_print:
  assumes "\<forall>v \<in> set vs. parses b v" "vs \<noteq> []" "all_ws w"
    and "2 * length (str_join (CHR '','' # gap b n) (map (print_json b n) vs)) + 2 \<le> f"
  shows "p_elems f (w @ str_join (CHR '','' # gap b n) (map (print_json b n) vs) @ gap b m @ CHR '']'' # r)
     = Some (vs, r)"
  using assms
proof (induction vs arbitrary: f w)
  case Nil
  then show ?case by simp
next
  case (Cons v vs)
  obtain f' where f: "f = Suc f'" using Cons.prems(4) by (cases f) auto
  have v: "parses b v" using Cons.prems by simp
  show ?case
  proof (cases vs)
    case Nil
    have "p_val f' (w @ print_json b n v @ gap b m @ CHR '']'' # r) = Some (v, gap b m @ CHR '']'' # r)"
      using Cons.prems f Nil by (intro parsesD [OF v]) simp_all
    then show ?thesis using Nil f by (simp add: skip_ws_gap)
  next
    case (Cons v' vs')
    let ?tail = "str_join (CHR '','' # gap b n) (map (print_json b n) vs)"
    have len: "2 * length (print_json b n v) + 1 \<le> f'" "2 * length ?tail + 2 \<le> f'"
      using Cons.prems(4) f Cons print_length_pos [of b n v] by simp_all
    have head: "p_val f' (w @ print_json b n v @ CHR '','' # gap b n @ ?tail @ gap b m @ CHR '']'' # r)
        = Some (v, CHR '','' # gap b n @ ?tail @ gap b m @ CHR '']'' # r)"
      using Cons.prems(3) len by (intro parsesD [OF v]) simp_all
    have tail: "p_elems f' (gap b n @ ?tail @ gap b m @ CHR '']'' # r) = Some (vs, r)"
      using Cons.prems len Cons by (intro Cons.IH) simp_all
    show ?thesis using head tail f Cons by (simp add: skip_ws_stop)
  qed
qed

definition print_member :: "bool \<Rightarrow> nat \<Rightarrow> string \<times> json \<Rightarrow> string" where
  "print_member b n p = json_quote (fst p) @ colon b @ print_json b n (snd p)"

lemma colon_split: "colon b = CHR '':'' # tl (colon b)"
  by (simp add: colon_def)

lemma member_len: "length (print_json b n v) < length (print_member b n (k, v))"
  by (simp add: print_member_def json_quote_def)

lemma p_members_print:
  assumes "\<forall>p \<in> set kvs. parses b (snd p)" "kvs \<noteq> []" "all_ws w"
    and "2 * length (str_join (CHR '','' # gap b n) (map (print_member b n) kvs)) + 2 \<le> f"
  shows "p_members f (w @ str_join (CHR '','' # gap b n) (map (print_member b n) kvs) @ gap b m @ CHR ''}'' # r)
     = Some (kvs, r)"
  using assms
proof (induction kvs arbitrary: f w)
  case Nil
  then show ?case by simp
next
  case (Cons p kvs)
  obtain f' where f: "f = Suc f'" using Cons.prems(4) by (cases f) auto
  obtain k v where p: "p = (k, v)" by (cases p)
  have v: "parses b v" using Cons.prems p by simp
  have key: "skip_ws (w @ print_member b n (k, v) @ s)
      = quote_c # concat (map esc_char k) @ quote_c # colon b @ print_json b n v @ s" for s
    using Cons.prems(3) by (auto simp: print_member_def json_quote_def intro!: skip_ws_append)
  have sep: "skip_ws (colon b @ s) = CHR '':'' # tl (colon b) @ s" for s
    by (subst colon_split) (simp add: skip_ws_stop)
  show ?case
  proof (cases kvs)
    case Nil
    have "p_val f' (tl (colon b) @ print_json b n v @ gap b m @ CHR ''}'' # r)
        = Some (v, gap b m @ CHR ''}'' # r)"
      using Cons.prems f Nil
      by (intro parsesD [OF v]) (simp_all add: all_ws_colon print_member_def p)
    then show ?thesis
      using Nil f by (simp add: key p_str_quoted sep skip_ws_gap p)
  next
    case (Cons p' kvs')
    let ?tail = "str_join (CHR '','' # gap b n) (map (print_member b n) kvs)"
    have len: "2 * length (print_json b n v) + 1 \<le> f'" "2 * length ?tail + 2 \<le> f'"
      using Cons.prems(4) f Cons p member_len [of b n v k] by simp_all
    have head: "p_val f' (tl (colon b) @ print_json b n v @ CHR '','' # gap b n @ ?tail @ gap b m @ CHR ''}'' # r)
        = Some (v, CHR '','' # gap b n @ ?tail @ gap b m @ CHR ''}'' # r)"
      using len by (intro parsesD [OF v]) (simp_all add: all_ws_colon)
    have tail: "p_members f' (gap b n @ ?tail @ gap b m @ CHR ''}'' # r) = Some (kvs, r)"
      using Cons.prems len Cons by (intro Cons.IH) simp_all
    show ?thesis
      using head tail f Cons by (simp add: key p_str_quoted sep skip_ws_stop p)
  qed
qed

lemma fold_update_fresh:
  "distinct (map fst kvs) \<Longrightarrow> fst ` set kvs \<inter> fst ` set acc = {} \<Longrightarrow>
   foldl (\<lambda>o' (k, v). AList.update k v o') acc kvs = acc @ kvs"
proof (induction kvs arbitrary: acc)
  case (Cons p kvs)
  obtain k v where p: "p = (k, v)" by (cases p)
  have "AList.update k v acc = acc @ [(k, v)]"
    using Cons.prems p by (intro update_fresh) auto
  then show ?case using Cons p by auto
qed simp

lemma str_join_hd: "xs \<noteq> [] \<Longrightarrow> hd xs \<noteq> [] \<Longrightarrow> hd (str_join sep xs @ s) = hd (hd xs)"
  by (cases "(sep, xs)" rule: str_join.cases) auto

lemma print_hd: "\<not> is_json_ws (hd (print_json b n v)) \<and> hd (print_json b n v) \<noteq> CHR '']''"
proof (cases v)
  case (JNum i)
  obtain c r where "show_int i = c # r" "c = CHR ''-'' \<or> is_digit c" by (rule show_int_Cons)
  then show ?thesis using JNum digit_not_special [of c] by (auto simp: is_digit_def)
qed (auto simp: json_quote_def)

lemma parsesI:
  "(\<And>n f w r. all_ws w \<Longrightarrow> num_end r \<Longrightarrow> 2 * length (print_json b n v) \<le> f \<Longrightarrow>
     p_val (Suc f) (w @ print_json b n v @ r) = Some (v, r)) \<Longrightarrow> parses b v"
  unfolding parses_def by (metis Suc_eq_plus1 Suc_le_D Suc_le_mono)

theorem print_parses: "json_ok v \<Longrightarrow> parses b v"
proof (induction v)
  case (JNum i)
  show ?case by (rule parsesI) (simp add: p_val_num del: p_val.simps(2))
next
  case (JArr vs)
  then have IH: "\<forall>v \<in> set vs. parses b v" by (simp add: list_all_iff)
  show ?case
  proof (rule parsesI)
    fix n f w r
    assume w: "all_ws w" and "num_end r" and len: "2 * length (print_json b n (JArr vs)) \<le> f"
    show "p_val (Suc f) (w @ print_json b n (JArr vs) @ r) = Some (JArr vs, r)"
    proof (cases "vs = []")
      case True
      then show ?thesis using w by (simp add: skip_ws_append skip_ws_stop)
    next
      case False
      let ?body = "str_join (CHR '','' # gap b (n + 1)) (map (print_json b (n + 1)) vs)"
      have hd: "hd (?body @ s) = hd (print_json b (n + 1) (hd vs))" for s
        using False print_length_pos by (subst str_join_hd) (auto simp: hd_map)
      have ne: "?body \<noteq> []"
        using False print_length_pos [of b "n + 1"] by (cases vs; cases "tl vs") auto
      have skip: "skip_ws (gap b (n + 1) @ ?body @ s) = ?body @ s" for s
        using hd [of s] print_hd by (intro skip_ws_append) auto
      obtain d t where dt: "?body @ gap b n @ CHR '']'' # r = d # t" "d \<noteq> CHR '']''"
        using hd [of "gap b n @ CHR '']'' # r"] ne print_hd
        by (metis append_is_Nil_conv list.collapse)
      have "p_elems f (gap b (n + 1) @ ?body @ gap b n @ CHR '']'' # r) = Some (vs, r)"
        using IH False len by (intro p_elems_print) simp_all
      then show ?thesis
        using w False dt skip [of "gap b n @ CHR '']'' # r"]
        by (simp add: skip_ws_append)
    qed
  qed
next
  case (JObj kvs)
  then have IH: "\<forall>p \<in> set kvs. parses b (snd p)"
    by (auto simp: list_all_iff)
  show ?case
  proof (rule parsesI)
    fix n f w r
    assume w: "all_ws w" and "num_end r" and len: "2 * length (print_json b n (JObj kvs)) \<le> f"
    show "p_val (Suc f) (w @ print_json b n (JObj kvs) @ r) = Some (JObj kvs, r)"
    proof (cases "kvs = []")
      case True
      then show ?thesis using w by (simp add: skip_ws_append skip_ws_stop)
    next
      case False
      let ?body = "str_join (CHR '','' # gap b (n + 1)) (map (print_member b (n + 1)) kvs)"
      have eq: "print_json b n (JObj kvs) = CHR ''{'' # gap b (n + 1) @ ?body @ gap b n @ ''}''"
        using False by (simp add: print_member_def [abs_def])
      obtain p kvs' where kvs: "kvs = p # kvs'" using False by (cases kvs) auto
      obtain t where t: "?body = quote_c # t"
        by (cases kvs') (simp_all add: kvs print_member_def json_quote_def)
      have skip: "skip_ws (gap b (n + 1) @ ?body @ s) = quote_c # t @ s" for s
        unfolding t by (simp add: skip_ws_gap)
      have "p_members f (gap b (n + 1) @ ?body @ gap b n @ CHR ''}'' # r) = Some (kvs, r)"
        using IH False len unfolding eq by (intro p_members_print) simp_all
      moreover have "foldl (\<lambda>o' (k, v). AList.update k v o') [] kvs = kvs"
        using JObj.prems by (simp add: fold_update_fresh)
      ultimately show ?thesis
        using w skip [of "gap b n @ CHR ''}'' # r"] unfolding eq
        by (simp add: skip_ws_append)
    qed
  qed
qed (rule parsesI; simp add: json_quote_def p_str_quoted skip_ws_append strip_prefix_def)+

theorem json_parse_print: "json_ok v \<Longrightarrow> json_parse (print_json b n v) = Some v"
proof -
  assume "json_ok v"
  then have "p_val (2 * length (print_json b n v) + 2) ([] @ print_json b n v @ []) = Some (v, [])"
    by (intro parsesD print_parses) simp_all
  then show ?thesis by (simp add: json_parse_def skip_ws_def)
qed

lemma json_parse_stringify: "json_ok v \<Longrightarrow> json_parse (json_stringify v) = Some v"
  unfolding json_stringify_def by (rule json_parse_print)

lemma json_parse_stringify_indent: "json_ok v \<Longrightarrow> json_parse (json_stringify_indent v) = Some v"
  unfolding json_stringify_indent_def by (rule json_parse_print)

lemma json_stringify_inject:
  "json_ok v \<Longrightarrow> json_ok w \<Longrightarrow> json_stringify v = json_stringify w \<longleftrightarrow> v = w"
  by (metis json_parse_stringify option.inject)

text \<open>Compact text has no control character, so no line break.\<close>

definition no_control :: "string \<Rightarrow> bool" where
  "no_control s \<longleftrightarrow> (\<forall>c \<in> set s. 32 \<le> code c)"

lemma no_control_simps [simp]:
  "no_control []"
  "no_control (c # s) \<longleftrightarrow> 32 \<le> code c \<and> no_control s"
  "no_control (s @ t) \<longleftrightarrow> no_control s \<and> no_control t"
  by (auto simp: no_control_def)

lemma no_control_join: "no_control sep \<Longrightarrow> \<forall>x \<in> set xs. no_control x \<Longrightarrow> no_control (str_join sep xs)"
  by (induction sep xs rule: str_join.induct) auto

lemma no_control_esc: "no_control (esc_char c)"
proof -
  have "32 \<le> code (hex_digit d)" if "d < 16" for d using that by (auto simp: hex_digit_def)
  then show ?thesis by (auto simp: esc_char_def)
qed

lemma no_control_quote: "no_control (json_quote s)"
proof -
  have "no_control (concat (map esc_char s))" by (induction s) (auto simp: no_control_esc)
  then show ?thesis by (simp add: json_quote_def)
qed

lemma no_control_show_int: "no_control (show_int i)"
  using show_nat_digits by (force simp: no_control_def show_int_def is_digit_def)

lemma no_control_print: "no_control (print_json False n v)"
proof (induction v arbitrary: n)
  case (JArr vs)
  then show ?case by (auto simp: gap_def intro!: no_control_join)
next
  case (JObj kvs)
  then have "no_control (print_json False k (snd p))" if "p \<in> set kvs" for p k
    using that by (cases p) auto
  then show ?case by (auto simp: gap_def colon_def no_control_quote intro!: no_control_join)
qed (simp_all add: no_control_quote no_control_show_int)

lemma no_newline_stringify: "newline \<notin> set (json_stringify v)"
  using no_control_print [of 0 v] by (auto simp: json_stringify_def no_control_def)

lemma stringify_not_blank: "str_trim (json_stringify v) \<noteq> []"
proof -
  obtain c s where cs: "print_json False 0 v = c # s"
    using print_length_pos [of False 0 v] by (cases "print_json False 0 v") auto
  have "\<not> is_json_ws c" "32 \<le> code c"
    using print_hd [of False 0 v] no_control_print [of 0 v] cs by simp_all
  then have "\<not> is_ws c" by (auto simp: is_ws_def is_json_ws_def)
  then show ?thesis using cs by (auto simp: str_trim_Nil_iff json_stringify_def)
qed

section \<open>Canonical form\<close>

fun sortDeep :: "json \<Rightarrow> json" where
  "sortDeep (JArr vs) = JArr (map sortDeep vs)"
| "sortDeep (JObj kvs) = JObj (sort_key fst (map (\<lambda>p. (fst p, sortDeep (snd p))) kvs))"
| "sortDeep v = v"

definition canonicalJson :: "json \<Rightarrow> string" where
  "canonicalJson v = json_stringify (sortDeep v)"

lemma obj_ok_sort_key: "obj_ok (sort_key fst xs) \<longleftrightarrow> obj_ok xs"
proof -
  have "mset (map fst (sort_key fst xs)) = mset (map fst xs)" by (simp only: mset_map mset_sort)
  then show ?thesis by (rule mset_eq_imp_distinct_iff)
qed

lemma json_ok_sortDeep: "json_ok v \<Longrightarrow> json_ok (sortDeep v)"
proof (induction v)
  case (JObj kvs)
  have "json_ok (sortDeep (snd p))" if "p \<in> set kvs" for p
    using JObj that by (cases p) (auto simp: list_all_iff)
  then show ?case using JObj.prems by (auto simp: obj_ok_sort_key list_all_iff comp_def)
qed (auto simp: list_all_iff)

lemma sortDeep_idem: "json_ok v \<Longrightarrow> sortDeep (sortDeep v) = sortDeep v"
proof (induction v)
  case (JObj kvs)
  have "sortDeep (sortDeep (snd p)) = sortDeep (snd p)" if "p \<in> set kvs" for p
    using JObj that by (cases p) (auto simp: list_all_iff)
  then have "map (\<lambda>p. (fst p, sortDeep (snd p))) (sort_key fst (map (\<lambda>p. (fst p, sortDeep (snd p))) kvs))
      = sort_key fst (map (\<lambda>p. (fst p, sortDeep (snd p))) kvs)"
    by (intro map_idI) auto
  then show ?case by (simp add: sort_key_id_if_sorted)
qed (auto simp: list_all_iff)

text \<open>The canonical text of two objects with the same entries is the same.\<close>

lemma sortDeep_perm:
  assumes "obj_ok kvs" "mset kvs = mset kvs'"
  shows "sortDeep (JObj kvs) = sortDeep (JObj kvs')"
proof -
  let ?f = "\<lambda>p. (fst p, sortDeep (snd p))"
  have eq: "mset (map ?f kvs) = mset (map ?f kvs')" using assms(2) by (metis mset_map)
  have "inj_on fst (set (map ?f kvs))"
    using assms(1) by (auto simp: inj_on_def distinct_map comp_def)
  then have "sort_key fst (map ?f kvs) = sort_key fst (map ?f kvs')"
    using eq by (intro sort_key_inj_key_eq) simp_all
  then show ?thesis by simp
qed

theorem canonicalJson_eq_iff:
  "json_ok v \<Longrightarrow> json_ok w \<Longrightarrow> canonicalJson v = canonicalJson w \<longleftrightarrow> sortDeep v = sortDeep w"
  unfolding canonicalJson_def by (rule json_stringify_inject) (auto intro: json_ok_sortDeep)

section \<open>The fuel of the parser is enough\<close>

lemma skip_ws_le: "length (skip_ws s) \<le> length s"
  by (simp add: skip_ws_def length_dropWhile_le)

lemma skip_ws_Cons: "skip_ws s = c # r \<Longrightarrow> length r < length s"
  using skip_ws_le [of s] by simp

lemma p_str_consumes: "p_str s = Some (x, t) \<Longrightarrow> length t < length s"
proof (induction s arbitrary: x t rule: p_str.induct)
  case (2 c r)
  then show ?case by (force split: if_splits list.splits option.splits)
qed simp

lemma p_num_consumes: "p_num s = Some (x, t) \<Longrightarrow> length t < length s"
proof -
  assume a: "p_num s = Some (x, t)"
  have d: "length (dropWhile is_digit u) < length u" if "takeWhile is_digit u \<noteq> []" for u
    using that by (cases u) (auto simp: less_Suc_eq_le length_dropWhile_le split: if_splits)
  show ?thesis
    using a d [of s] d [of "tl s"]
    by (cases s) (auto simp: p_num_def Let_def split: if_splits)
qed

lemma strip_prefix_consumes: "strip_prefix p s = Some t \<Longrightarrow> p \<noteq> [] \<Longrightarrow> length t < length s"
  by (cases s) (auto simp: strip_prefix_def split: if_splits)

lemma p_val_Some:
  assumes "p_val (Suc f) s = Some (v, t)" "skip_ws s = c # r"
  shows "length t < length (c # r) \<or> (\<exists>vs. p_elems f r = Some (vs, t)) \<or> (\<exists>kvs. p_members f r = Some (kvs, t))"
  using assms by (auto split: if_splits list.splits dest!: p_str_consumes p_num_consumes strip_prefix_consumes skip_ws_Cons)


lemma p_elems_Some:
  assumes "p_elems (Suc f) s = Some (vs, t)"
  obtains v u c u' where "p_val f s = Some (v, u)" "skip_ws u = c # u'"
    "t = u' \<or> (\<exists>vs'. p_elems f u' = Some (vs', t))"
  using assms by (auto split: if_splits list.splits option.splits)

lemma p_members_Some:
  assumes "p_members (Suc f) s = Some (kvs, t)"
  obtains c r k u d u' v w e w' where "skip_ws s = c # r" "p_str r = Some (k, u)" "skip_ws u = d # u'"
    "p_val f u' = Some (v, w)" "skip_ws w = e # w'"
    "t = w' \<or> (\<exists>kvs'. p_members f w' = Some (kvs', t))"
  using assms by (auto split: if_splits list.splits option.splits)

lemma p_consumes:
  "(\<forall>s v t. p_val f s = Some (v, t) \<longrightarrow> length t < length s)
   \<and> (\<forall>s vs t. p_elems f s = Some (vs, t) \<longrightarrow> length t < length s)
   \<and> (\<forall>s kvs t. p_members f s = Some (kvs, t) \<longrightarrow> length t < length s)"
proof (induction f)
  case 0
  show ?case by simp
next
  case (Suc f)
  have val: "length t < length s" if a: "p_val (Suc f) s = Some (v, t)" for s v t
  proof -
    obtain c r where s: "skip_ws s = c # r"
      using a by (cases "skip_ws s") auto
    have "length (c # r) \<le> length s" using skip_ws_le [of s] s by simp
    then show ?thesis using p_val_Some [OF a s] Suc.IH by fastforce
  qed
  have elems: "length t < length s" if "p_elems (Suc f) s = Some (vs, t)" for s vs t
    using that by (elim p_elems_Some) (use Suc.IH in \<open>fastforce dest!: skip_ws_Cons\<close>)
  have members: "length t < length s" if "p_members (Suc f) s = Some (kvs, t)" for s kvs t
    using that by (elim p_members_Some)
      (use Suc.IH in \<open>fastforce dest!: skip_ws_Cons dest: p_str_consumes\<close>)
  show ?case by (intro conjI allI impI) (erule val elems members)+
qed

lemma p_fuel:
  "(\<forall>s. 2 * length s + 1 \<le> f \<longrightarrow> p_val (Suc f) s = p_val f s)
   \<and> (\<forall>s. 2 * length s + 2 \<le> f \<longrightarrow> p_elems (Suc f) s = p_elems f s)
   \<and> (\<forall>s. 2 * length s + 2 \<le> f \<longrightarrow> p_members (Suc f) s = p_members f s)"
proof (induction f)
  case 0
  show ?case by simp
next
  case (Suc f)
  have val: "p_val (Suc (Suc f)) s = p_val (Suc f) s" if "2 * length s + 1 \<le> Suc f" for s
  proof (cases "skip_ws s")
    case (Cons c r)
    then have "2 * length r + 2 \<le> f" using that skip_ws_Cons [OF Cons] by simp
    then have "p_elems (Suc f) r = p_elems f r" "p_members (Suc f) r = p_members f r"
      using Suc.IH by blast+
    then show ?thesis using Cons by (simp del: p_elems.simps p_members.simps split: list.split)
  qed simp
  have elems: "p_elems (Suc (Suc f)) s = p_elems (Suc f) s" if len: "2 * length s + 2 \<le> Suc f" for s
  proof -
    have v: "p_val (Suc f) s = p_val f s" using Suc.IH len by simp
    show ?thesis
    proof (cases "p_val f s")
      case (Some vt)
      obtain x t where vt: "vt = (x, t)" by (cases vt)
      show ?thesis
      proof (cases "skip_ws t")
        case (Cons d t')
        have "length t < length s" using p_consumes Some vt by blast
        then have "2 * length t' + 2 \<le> f" using skip_ws_Cons [OF Cons] len by simp
        then have "p_elems (Suc f) t' = p_elems f t'" using Suc.IH by blast
        then show ?thesis using Some v vt Cons by (simp del: p_val.simps)
      qed (use Some v vt in \<open>simp del: p_val.simps\<close>)
    qed (use v in \<open>simp del: p_val.simps\<close>)
  qed
  have members: "p_members (Suc (Suc f)) s = p_members (Suc f) s" if len: "2 * length s + 2 \<le> Suc f" for s
  proof -
    have v: "p_val (Suc f) u' = p_val f u'"
      if "skip_ws s = c # r" "p_str r = Some (k, u)" "skip_ws u = d # u'" for c r k u d u'
      using skip_ws_Cons [OF that(1)] p_str_consumes [OF that(2)] skip_ws_Cons [OF that(3)] len Suc.IH
      by simp
    have m: "p_members (Suc f) w' = p_members f w'"
      if "skip_ws s = c # r" "p_str r = Some (k, u)" "skip_ws u = d # u'"
        "p_val f u' = Some (x, w)" "skip_ws w = e # w'" for c r k u d u' x w e w'
    proof -
      have "length w < length u'" using p_consumes that(4) by blast
      then show ?thesis
        using skip_ws_Cons [OF that(1)] p_str_consumes [OF that(2)] skip_ws_Cons [OF that(3)]
          skip_ws_Cons [OF that(5)] len Suc.IH by simp
    qed
    show ?thesis
      using v m by (auto simp del: p_val.simps p_members.simps(2)
        simp: p_members.simps(2) [of "Suc f"] p_members.simps(2) [of f]
        split: list.splits option.splits)
  qed
  show ?case using val elems members by blast
qed

lemma p_val_fuel: "2 * length s + 1 \<le> f \<Longrightarrow> p_val f s = p_val (2 * length s + 2) s"
proof (induction f rule: dec_induct)
  case base
  show ?case using p_fuel [of "2 * length s + 1"] by simp
next
  case (step f)
  then show ?case using p_fuel [of f] by simp
qed

section \<open>Parsed values are well formed\<close>

lemma obj_ok_fold_update:
  "obj_ok acc \<Longrightarrow> obj_ok (foldl (\<lambda>o' (k, v). AList.update k v o') acc kvs)"
  by (induction kvs arbitrary: acc) (auto simp: case_prod_beta')

lemma json_ok_fold_update:
  "\<forall>p \<in> set acc. json_ok (snd p) \<Longrightarrow> \<forall>p \<in> set kvs. json_ok (snd p) \<Longrightarrow>
   \<forall>p \<in> set (foldl (\<lambda>o' (k, v). AList.update k v o') acc kvs). json_ok (snd p)"
proof (induction kvs arbitrary: acc)
  case (Cons q kvs)
  then show ?case
    using set_update_subset [of "fst q" "snd q" acc] by (fastforce simp: case_prod_beta')
qed simp

lemma p_val_shape:
  assumes "p_val (Suc f) s = Some (v, t)" "skip_ws s = c # r"
  shows "json_ok v \<or> (\<exists>vs. p_elems f r = Some (vs, t) \<and> v = JArr vs)
    \<or> (\<exists>kvs. p_members f r = Some (kvs, t) \<and> v = JObj (foldl (\<lambda>o' (k, v). AList.update k v o') [] kvs))"
  using assms by (auto simp: p_num_def Let_def split: if_splits list.splits)

lemma p_json_ok:
  "(\<forall>s v t. p_val f s = Some (v, t) \<longrightarrow> json_ok v)
   \<and> (\<forall>s vs t. p_elems f s = Some (vs, t) \<longrightarrow> (\<forall>v \<in> set vs. json_ok v))
   \<and> (\<forall>s kvs t. p_members f s = Some (kvs, t) \<longrightarrow> (\<forall>p \<in> set kvs. json_ok (snd p)))"
proof (induction f)
  case 0
  show ?case by simp
next
  case (Suc f)
  have val: "json_ok v" if a: "p_val (Suc f) s = Some (v, t)" for s v t
  proof -
    obtain c r where s: "skip_ws s = c # r"
      using a by (cases "skip_ws s") auto
    have obj: "json_ok (JObj (foldl (\<lambda>o' (k, v). AList.update k v o') [] kvs))"
      if "p_members f r = Some (kvs, t)" for kvs
    proof -
      have "\<forall>p \<in> set kvs. json_ok (snd p)" using Suc.IH that by blast
      then show ?thesis using json_ok_fold_update [of "[]" kvs] obj_ok_fold_update [of "[]" kvs]
        by (simp add: list_all_iff)
    qed
    have arr: "json_ok (JArr vs)" if "p_elems f r = Some (vs, t)" for vs
    proof -
      have "\<forall>v \<in> set vs. json_ok v" using Suc.IH that by blast
      then show ?thesis by (simp add: list_all_iff)
    qed
    show ?thesis using p_val_shape [OF a s] obj arr by auto
  qed
  have elems: "\<forall>v \<in> set vs. json_ok v" if a: "p_elems (Suc f) s = Some (vs, t)" for s vs t
  proof -
    obtain v u c u' where "p_val f s = Some (v, u)" "skip_ws u = c # u'"
      "vs = [v] \<or> (\<exists>vs'. p_elems f u' = Some (vs', t) \<and> vs = v # vs')"
      using a by (auto split: if_splits list.splits option.splits)
    then show ?thesis using Suc.IH by fastforce
  qed
  have members: "\<forall>p \<in> set kvs. json_ok (snd p)" if a: "p_members (Suc f) s = Some (kvs, t)" for s kvs t
  proof -
    have "\<exists>k u' v w. p_val f u' = Some (v, w) \<and>
      (kvs = [(k, v)] \<or> (\<exists>w' kvs'. p_members f w' = Some (kvs', t) \<and> kvs = (k, v) # kvs'))"
      using a by (auto split: if_splits list.splits option.splits) blast+
    then show ?thesis using Suc.IH by fastforce
  qed
  show ?case by (intro conjI allI impI) (erule val elems members)+
qed

lemma json_parse_ok: "json_parse s = Some v \<Longrightarrow> json_ok v"
proof -
  assume "json_parse s = Some v"
  then obtain t where "p_val (2 * length s + 2) s = Some (v, t)"
    unfolding json_parse_def by (auto simp del: p_val.simps split: option.splits prod.splits if_splits)
  then show "json_ok v" using p_json_ok by blast
qed

text \<open>A line break after the text changes nothing.\<close>

lemma json_parse_print_newline: "json_ok v \<Longrightarrow> json_parse (print_json b n v @ [newline]) = Some v"
proof -
  assume ok: "json_ok v"
  let ?t = "print_json b n v"
  have ws: "num_end [newline]" by (simp add: num_end_def is_digit_def)
  have "p_val (2 * length (?t @ [newline]) + 2) ([] @ ?t @ [newline]) = Some (v, [newline])"
    by (intro parsesD print_parses ok ws) simp_all
  then show ?thesis by (simp add: json_parse_def skip_ws_def is_json_ws_def del: p_val.simps)
qed

section \<open>Property access and text\<close>

text \<open>A property of a value that is not an object is \<open>undefined\<close>.\<close>

fun property :: "json \<Rightarrow> string \<Rightarrow> json option" where
  "property (JObj kvs) k = map_of kvs k"
| "property _ k = None"

text \<open>The text of a value in a template literal.\<close>

fun json_text :: "json \<Rightarrow> string" where
  "json_text JNull = ''null''"
| "json_text (JBool b) = (if b then ''true'' else ''false'')"
| "json_text (JNum i) = show_int i"
| "json_text (JStr s) = s"
| "json_text (JArr vs) = str_join '','' (map (\<lambda>v. if v = JNull then [] else json_text v) vs)"
| "json_text (JObj _) = ''[object Object]''"

fun js_text :: "json option \<Rightarrow> string" where
  "js_text None = ''undefined''"
| "js_text (Some j) = json_text j"

end
