(* ===== verification/Zod.thy ===== *)
theory Zod
  imports Json
begin

text \<open>
  The schema vocabulary of the contracts: a schema reads the value found under a key
  (\<open>None\<close> is \<open>undefined\<close>, an absent key) and yields the typed value, or \<open>None\<close> when
  validation fails. One definition per schema constructor the contracts use: strings with a
  minimum length or a pattern, integers with bounds, booleans, literals, enums, nullable,
  optional and defaulted members, records of unknown values, arrays, and object schemas that
  strip or (\<open>strict\<close>) refuse unknown keys.
\<close>

type_synonym 'a schema = "json option \<Rightarrow> 'a option"

named_theorems schema_defs "the schema constructors"

definition z_unknown :: "json option schema" where
  "z_unknown x = Some x"

definition z_string :: "string schema" where
  "z_string x = (case x of Some (JStr s) \<Rightarrow> Some s | _ \<Rightarrow> None)"

definition z_refine :: "('a \<Rightarrow> bool) \<Rightarrow> 'a schema \<Rightarrow> 'a schema" where
  "z_refine P s x = (case s x of Some v \<Rightarrow> if P v then Some v else None | None \<Rightarrow> None)"

definition z_min1 :: "string schema" where
  "z_min1 = z_refine (\<lambda>s. s \<noteq> []) z_string"

definition z_int :: "int schema" where
  "z_int x = (case x of Some (JNum i) \<Rightarrow> Some i | _ \<Rightarrow> None)"

definition z_positive :: "nat schema" where
  "z_positive x = map_option nat (z_refine (\<lambda>i. 0 < i) z_int x)"

definition z_nonnegative :: "nat schema" where
  "z_nonnegative x = map_option nat (z_refine (\<lambda>i. 0 \<le> i) z_int x)"

definition z_boolean :: "bool schema" where
  "z_boolean x = (case x of Some (JBool b) \<Rightarrow> Some b | _ \<Rightarrow> None)"

definition z_literal :: "string \<Rightarrow> unit schema" where
  "z_literal t x = (if x = Some (JStr t) then Some () else None)"

definition z_enum :: "(string \<times> 'a) list \<Rightarrow> 'a schema" where
  "z_enum tbl x = (case z_string x of Some s \<Rightarrow> map_of tbl s | None \<Rightarrow> None)"

definition z_nullable :: "'a schema \<Rightarrow> 'a option schema" where
  "z_nullable s x = (if x = Some JNull then Some None else map_option Some (s x))"

definition z_optional :: "'a schema \<Rightarrow> 'a option schema" where
  "z_optional s x = (if x = None then Some None else map_option Some (s x))"

definition z_default :: "'a \<Rightarrow> 'a schema \<Rightarrow> 'a schema" where
  "z_default d s x = (if x = None then Some d else s x)"

definition z_record :: "json obj schema" where
  "z_record x = (case x of Some (JObj kvs) \<Rightarrow> Some kvs | _ \<Rightarrow> None)"

definition z_object :: "(json obj \<Rightarrow> 'a option) \<Rightarrow> 'a schema" where
  "z_object f x = (case x of Some (JObj kvs) \<Rightarrow> f kvs | _ \<Rightarrow> None)"

definition z_strict :: "string list \<Rightarrow> (json obj \<Rightarrow> 'a option) \<Rightarrow> 'a schema" where
  "z_strict keys f = z_object (\<lambda>kvs. if list_all (\<lambda>p. fst p \<in> set keys) kvs then f kvs else None)"

fun all_some :: "'a option list \<Rightarrow> 'a list option" where
  "all_some [] = Some []"
| "all_some (None # xs) = None"
| "all_some (Some x # xs) = map_option ((#) x) (all_some xs)"

definition z_array :: "'a schema \<Rightarrow> 'a list schema" where
  "z_array s x = (case x of Some (JArr vs) \<Rightarrow> all_some (map (\<lambda>v. s (Some v)) vs) | _ \<Rightarrow> None)"

declare z_unknown_def [schema_defs] z_string_def [schema_defs] z_refine_def [schema_defs]
  z_min1_def [schema_defs] z_int_def [schema_defs] z_positive_def [schema_defs]
  z_nonnegative_def [schema_defs] z_boolean_def [schema_defs] z_literal_def [schema_defs]
  z_enum_def [schema_defs] z_nullable_def [schema_defs] z_optional_def [schema_defs]
  z_default_def [schema_defs] z_record_def [schema_defs] z_object_def [schema_defs]
  z_strict_def [schema_defs] z_array_def [schema_defs]

text \<open>A schema reads back what was written for it.\<close>

named_theorems schema_reads "schemas on printed values"

lemma z_string_reads [schema_reads]: "z_string (Some (JStr s)) = Some s"
  by (simp add: z_string_def)

lemma z_min1_reads [schema_reads]: "z_min1 (Some (JStr s)) = (if s = [] then None else Some s)"
  by (simp add: z_min1_def z_refine_def z_string_def)

lemma z_positive_reads [schema_reads]: "0 < n \<Longrightarrow> z_positive (Some (JNum (int n))) = Some n"
  by (simp add: z_positive_def z_refine_def z_int_def)

lemma z_nonnegative_reads [schema_reads]: "z_nonnegative (Some (JNum (int n))) = Some n"
  by (simp add: z_nonnegative_def z_refine_def z_int_def)

lemma z_int_reads [schema_reads]: "z_int (Some (JNum i)) = Some i"
  by (simp add: z_int_def)

lemma z_boolean_reads [schema_reads]: "z_boolean (Some (JBool b)) = Some b"
  by (simp add: z_boolean_def)

lemma z_enum_reads [schema_reads]: "z_enum tbl (Some (JStr s)) = map_of tbl s"
  by (simp add: z_enum_def z_string_def)

lemma z_record_reads [schema_reads]: "z_record (Some (JObj kvs)) = Some kvs"
  by (simp add: z_record_def)

lemma z_refine_reads [schema_reads]: "s x = Some v \<Longrightarrow> P v \<Longrightarrow> z_refine P s x = Some v"
  by (simp add: z_refine_def)

definition json_opt :: "('a \<Rightarrow> json) \<Rightarrow> 'a option \<Rightarrow> json" where
  "json_opt f x = (case x of None \<Rightarrow> JNull | Some v \<Rightarrow> f v)"

lemma z_nullable_reads [schema_reads]:
  "(\<And>v. x = Some v \<Longrightarrow> s (Some (f v)) = Some v \<and> f v \<noteq> JNull) \<Longrightarrow> z_nullable s (Some (json_opt f x)) = Some x"
  by (cases x) (auto simp: z_nullable_def json_opt_def)

lemma z_default_present [schema_reads]: "z_default d s (Some x) = s (Some x)"
  by (simp add: z_default_def)

lemma z_optional_present [schema_reads]: "z_optional s (Some x) = map_option Some (s (Some x))"
  by (simp add: z_optional_def)

lemma all_some_map:
  "(\<And>x. x \<in> set xs \<Longrightarrow> f x = Some (g x)) \<Longrightarrow> all_some (map f xs) = Some (map g xs)"
  by (induction xs) auto

lemma all_some_Some: "all_some xs = Some ys \<longleftrightarrow> xs = map Some ys"
  by (induction xs arbitrary: ys rule: all_some.induct) (auto simp: Cons_eq_map_conv)

lemma z_array_reads:
  "(\<And>v. v \<in> set xs \<Longrightarrow> s (Some (f v)) = Some v) \<Longrightarrow> z_array s (Some (JArr (map f xs))) = Some xs"
  using all_some_map [of xs "\<lambda>v. s (Some (f v))" id] by (simp add: z_array_def comp_def)

lemma json_ok_opt: "(\<And>v. x = Some v \<Longrightarrow> json_ok (f v)) \<Longrightarrow> json_ok (json_opt f x)"
  by (cases x) (auto simp: json_opt_def)

text \<open>What a schema that accepts guarantees.\<close>

lemma z_refineD: "z_refine P s x = Some v \<Longrightarrow> P v \<and> s x = Some v"
  by (auto simp: z_refine_def split: option.splits if_splits)

lemma z_nullable_refineD: "z_nullable (z_refine P s) x = Some v \<Longrightarrow> pred_option P v"
  by (auto simp: z_nullable_def split: if_splits dest: z_refineD)

lemma z_positiveD: "z_positive x = Some n \<Longrightarrow> 0 < n"
  by (auto simp: z_positive_def dest: z_refineD)

lemma z_defaultD: "z_default d s x = Some v \<Longrightarrow> v = d \<or> s x = Some v"
  by (auto simp: z_default_def split: if_splits)

lemma z_objectE:
  assumes "z_object f x = Some v"
  obtains kvs where "x = Some (JObj kvs)" "f kvs = Some v"
  using assms by (auto simp: z_object_def split: option.splits json.splits)

lemma case_Some_iff:
  "(case x of None \<Rightarrow> None | Some y \<Rightarrow> f y) = Some z \<longleftrightarrow> (\<exists>y. x = Some y \<and> f y = Some z)"
  by (cases x) auto

lemma z_min1D: "z_min1 x = Some v \<Longrightarrow> v \<noteq> []"
  by (auto simp: z_min1_def dest: z_refineD)

end
