(* ===== verification/Crypto.thy ===== *)
theory Crypto
  imports Json
begin

text \<open>
  \<open>src/runtime/crypto.ts\<close>. The primitives of \<open>node:crypto\<close> (SHA-256, Ed25519, the key
  formats) and the timestamp check of the schema library are parameters, collected in the
  record \<open>crypto_lib\<close>; \<open>crypto_ok\<close> and \<open>collision_free\<close> name what the code relies on.
  The shapes of a digest and of a signature (\<open>src/contracts/_common.ts\<close>) are here too.
\<close>

record ('sk, 'pk) crypto_lib =
  lib_sha256 :: "string \<Rightarrow> string"
  lib_sign :: "'sk \<Rightarrow> string \<Rightarrow> string"
  lib_verify :: "'pk \<Rightarrow> string \<Rightarrow> string \<Rightarrow> bool option"
  lib_public :: "'sk \<Rightarrow> 'pk"
  lib_export_public :: "'pk \<Rightarrow> string"
  lib_pem_public :: "string \<Rightarrow> 'pk option"
  lib_pem_private :: "string \<Rightarrow> 'sk option"
  lib_datetime :: "string \<Rightarrow> bool"

definition sha256Hex :: "('sk, 'pk) crypto_lib \<Rightarrow> string \<Rightarrow> string" where
  "sha256Hex L input = lib_sha256 L input"

definition signEd25519 :: "('sk, 'pk) crypto_lib \<Rightarrow> string \<Rightarrow> 'sk \<Rightarrow> string" where
  "signEd25519 L message privateKey = lib_sign L privateKey message"

text \<open>A call of the primitive that throws is \<open>None\<close>; the wrapper turns it into \<open>False\<close>.\<close>

definition verifyEd25519 :: "('sk, 'pk) crypto_lib \<Rightarrow> string \<Rightarrow> string \<Rightarrow> 'pk \<Rightarrow> bool" where
  "verifyEd25519 L message signatureB64 publicKey =
     (case lib_verify L publicKey message signatureB64 of Some b \<Rightarrow> b | None \<Rightarrow> False)"

definition publicKeyFromPrivate :: "('sk, 'pk) crypto_lib \<Rightarrow> 'sk \<Rightarrow> 'pk" where
  "publicKeyFromPrivate L privateKey = lib_public L privateKey"

definition loadPublicKey :: "('sk, 'pk) crypto_lib \<Rightarrow> string \<Rightarrow> 'pk result" where
  "loadPublicKey L pem = of_option (Error ''invalid key'') (lib_pem_public L pem)"

definition loadPrivateKey :: "('sk, 'pk) crypto_lib \<Rightarrow> string \<Rightarrow> 'sk result" where
  "loadPrivateKey L pem = of_option (Error ''invalid key'') (lib_pem_private L pem)"

section \<open>Shapes\<close>

definition Sha256Hex :: "string \<Rightarrow> bool" where
  "Sha256Hex s \<longleftrightarrow> length s = 64 \<and> list_all is_hex_lower s"

definition is_b64_char :: "char \<Rightarrow> bool" where
  "is_b64_char c \<longleftrightarrow> is_alnum c \<or> c = CHR ''+'' \<or> c = CHR ''/''"

definition Ed25519SignatureB64 :: "string \<Rightarrow> bool" where
  "Ed25519SignatureB64 s \<longleftrightarrow> length s = 88 \<and> list_all is_b64_char (take 86 s) \<and> drop 86 s = ''==''"

text \<open>
  \<open>Buffer.from(s, "base64").length\<close>: decoding stops at the first \<open>=\<close>, skips characters
  outside the alphabet (the URL-safe letters belong to it), and drops incomplete bytes.
\<close>

definition base64_length :: "string \<Rightarrow> nat" where
  "base64_length s =
     length (filter (\<lambda>c. is_b64_char c \<or> c = CHR ''-'' \<or> c = CHR ''_'')
       (takeWhile (\<lambda>c. c \<noteq> CHR ''='') s)) * 3 div 4"

lemma signature_length: "Ed25519SignatureB64 s \<Longrightarrow> base64_length s = 64"
proof -
  assume s: "Ed25519SignatureB64 s"
  then have tail: "drop 86 s = ''==''" and len: "length s = 88"
    and ok: "\<forall>c \<in> set (take 86 s). is_b64_char c"
    by (simp_all add: Ed25519SignatureB64_def list_all_iff)
  have eq: "s = take 86 s @ CHR ''='' # ''=''"
    using tail append_take_drop_id [of 86 s] by simp
  have ne: "is_b64_char c \<Longrightarrow> c \<noteq> CHR ''=''" for c
    by (auto simp: is_b64_char_def is_alnum_def is_digit_def)
  have "takeWhile (\<lambda>c. c \<noteq> CHR ''='') (take 86 s @ CHR ''='' # ''='') = take 86 s"
    using ok ne by (subst takeWhile_append2) auto
  then have "takeWhile (\<lambda>c. c \<noteq> CHR ''='') s = take 86 s" using eq by simp
  then show "base64_length s = 64"
    using ok len by (simp add: base64_length_def)
qed

section \<open>What the code relies on\<close>

definition crypto_ok :: "('sk, 'pk) crypto_lib \<Rightarrow> 'sk \<Rightarrow> bool" where
  "crypto_ok L sk \<longleftrightarrow>
     (\<forall>m. lib_verify L (lib_public L sk) m (lib_sign L sk m) = Some True) \<and>
     (\<forall>m. Ed25519SignatureB64 (lib_sign L sk m)) \<and>
     (\<forall>m. Sha256Hex (lib_sha256 L m))"

definition collision_free :: "('sk, 'pk) crypto_lib \<Rightarrow> string set \<Rightarrow> bool" where
  "collision_free L S \<longleftrightarrow> inj_on (lib_sha256 L) S"

lemma crypto_okD:
  assumes "crypto_ok L sk"
  shows "verifyEd25519 L m (signEd25519 L m sk) (publicKeyFromPrivate L sk)"
    "Ed25519SignatureB64 (signEd25519 L m sk)" "Sha256Hex (sha256Hex L m)"
  using assms
  by (simp_all add: crypto_ok_def verifyEd25519_def signEd25519_def publicKeyFromPrivate_def sha256Hex_def)

lemma collision_freeD:
  "collision_free L S \<Longrightarrow> a \<in> S \<Longrightarrow> b \<in> S \<Longrightarrow> sha256Hex L a = sha256Hex L b \<longleftrightarrow> a = b"
  by (auto simp: collision_free_def sha256Hex_def inj_on_def)

text \<open>
  A concrete library for the examples: constant digests and signatures of the right shape.
\<close>

definition toy_sig :: string where
  "toy_sig = replicate 86 (CHR ''A'') @ ''==''"

definition toy_crypto :: "(unit, unit) crypto_lib" where
  "toy_crypto = \<lparr>lib_sha256 = (\<lambda>_. replicate 64 (CHR ''a'')), lib_sign = (\<lambda>_ _. toy_sig),
     lib_verify = (\<lambda>_ _ s. Some (s = toy_sig)), lib_public = (\<lambda>_. ()), lib_export_public = (\<lambda>_. ''PEM''),
     lib_pem_public = (\<lambda>_. Some ()), lib_pem_private = (\<lambda>_. Some ()), lib_datetime = (\<lambda>s. s \<noteq> [])\<rparr>"

lemma toy_crypto_ok: "crypto_ok toy_crypto ()"
  by (simp add: crypto_ok_def toy_crypto_def toy_sig_def Ed25519SignatureB64_def is_b64_char_def
      is_alnum_def Sha256Hex_def is_hex_lower_def list_all_iff)

lemma toy_datetime: "lib_datetime toy_crypto ts \<longleftrightarrow> ts \<noteq> []"
  by (simp add: toy_crypto_def)

end
