(* ===== verification/Contracts.thy ===== *)
theory Contracts
  imports Zod Crypto
begin

text \<open>
  \<open>src/contracts\<close>: the data the parts exchange, each with the schema that reads it from
  JSON and the JSON the code writes for it. Every schema reads back what is written.
\<close>

section \<open>Actors and verdicts\<close>

datatype actor = session_owner | claude_process

definition Actor :: "actor schema" where
  "Actor = z_enum [(''session_owner'', session_owner), (''claude_process'', claude_process)]"

fun actor_name :: "actor \<Rightarrow> string" where
  "actor_name session_owner = ''session_owner''"
| "actor_name claude_process = ''claude_process''"

datatype policy_tier = tier_default | tier_workspace | tier_user | tier_admin

definition PolicyTier :: "policy_tier schema" where
  "PolicyTier = z_enum [(''default'', tier_default), (''workspace'', tier_workspace),
     (''user'', tier_user), (''admin'', tier_admin)]"

fun tier_name :: "policy_tier \<Rightarrow> string" where
  "tier_name tier_default = ''default''"
| "tier_name tier_workspace = ''workspace''"
| "tier_name tier_user = ''user''"
| "tier_name tier_admin = ''admin''"

datatype policy_decision = allow | deny | require

definition PolicyDecision :: "policy_decision schema" where
  "PolicyDecision = z_enum [(''allow'', allow), (''deny'', deny), (''require'', require)]"

fun decision_name :: "policy_decision \<Rightarrow> string" where
  "decision_name allow = ''allow''"
| "decision_name deny = ''deny''"
| "decision_name require = ''require''"

lemma enum_reads [schema_reads]:
  "Actor (Some (JStr (actor_name a))) = Some a"
  "PolicyTier (Some (JStr (tier_name t))) = Some t"
  "PolicyDecision (Some (JStr (decision_name d))) = Some d"
proof -
  show "Actor (Some (JStr (actor_name a))) = Some a"
    by (cases a) (simp_all add: Actor_def schema_reads)
  show "PolicyTier (Some (JStr (tier_name t))) = Some t"
    by (cases t) (simp_all add: PolicyTier_def schema_reads)
  show "PolicyDecision (Some (JStr (decision_name d))) = Some d"
    by (cases d) (simp_all add: PolicyDecision_def schema_reads)
qed

record policy_verdict =
  pv_decision :: policy_decision
  pv_reason :: string
  pv_ruleId :: "string option"
  pv_tier :: "policy_tier option"

text \<open>The refinement of the schema: a \<open>require\<close> names its rule.\<close>

definition verdict_ok :: "policy_verdict \<Rightarrow> bool" where
  "verdict_ok v \<longleftrightarrow> pv_reason v \<noteq> [] \<and> \<not> (pv_decision v = require \<and> pv_ruleId v = None)"

definition PolicyVerdict :: "policy_verdict schema" where
  "PolicyVerdict = z_refine verdict_ok (z_object (\<lambda>kvs.
     case (PolicyDecision (map_of kvs ''decision''), z_min1 (map_of kvs ''reason''),
           z_default None (z_nullable z_string) (map_of kvs ''ruleId''),
           z_default None (z_nullable PolicyTier) (map_of kvs ''tier'')) of
       (Some d, Some r, Some i, Some t) \<Rightarrow>
         Some \<lparr>pv_decision = d, pv_reason = r, pv_ruleId = i, pv_tier = t\<rparr>
     | _ \<Rightarrow> None))"

text \<open>\<open>PolicyVerdict.parse\<close> on a value built in memory: only the refinements can fail.\<close>

definition PolicyVerdict_parse :: "policy_verdict \<Rightarrow> policy_verdict result" where
  "PolicyVerdict_parse v = (if verdict_ok v then Inr v else Inl (ZodError ''PolicyVerdict''))"

definition verdict_json :: "policy_verdict \<Rightarrow> json" where
  "verdict_json v = JObj [
     (''decision'', JStr (decision_name (pv_decision v))),
     (''reason'', JStr (pv_reason v)),
     (''ruleId'', json_opt JStr (pv_ruleId v)),
     (''tier'', json_opt (\<lambda>t. JStr (tier_name t)) (pv_tier v))]"

lemma PolicyVerdict_reads: "verdict_ok v \<Longrightarrow> PolicyVerdict (Some (verdict_json v)) = Some v"
  by (simp add: PolicyVerdict_def verdict_json_def z_object_def schema_reads z_refine_def verdict_ok_def)

lemma json_ok_verdict: "json_ok (verdict_json v)"
  by (auto simp: verdict_json_def intro!: json_ok_opt)

section \<open>Journal events\<close>

record journal_event =
  ev_seq :: nat
  ev_ts :: string
  ev_prevHash :: "string option"
  ev_hash :: string
  ev_kind :: string
  ev_actor :: actor
  ev_payload :: "json obj"
  ev_signature :: string
  ev_tenant_id :: "string option"
  ev_signing_key_id :: "string option"
  ev_approval_binding_type :: "string option"
  ev_intendant_identity_uri :: "string option"
  ev_on_behalf_of :: "string option"
  ev_correlation_id :: "string option"
  ev_gsb_receipt_tip_hash :: "string option"

definition journal_keys :: "string list" where
  "journal_keys = [''v'', ''seq'', ''ts'', ''prevHash'', ''hash'', ''kind'', ''actor'', ''payload'',
     ''signature'', ''tenant_id'', ''signing_key_id'', ''approval_binding_type'',
     ''intendant_identity_uri'', ''on_behalf_of'', ''correlation_id'', ''gsb_receipt_tip_hash'']"

definition z_reserved :: "string option schema" where
  "z_reserved = z_default None (z_nullable z_string)"

text \<open>The literal \<open>2\<close> of the version.\<close>

definition JournalEventVersion :: "unit schema" where
  "JournalEventVersion x = (if x = Some (JNum 2) then Some () else None)"

definition JournalEvent :: "('sk, 'pk) crypto_lib \<Rightarrow> journal_event schema" where
  "JournalEvent L = z_strict journal_keys (\<lambda>kvs.
     case ((JournalEventVersion (map_of kvs ''v''),
            z_positive (map_of kvs ''seq''),
            z_refine (lib_datetime L) z_string (map_of kvs ''ts''),
            z_nullable (z_refine Sha256Hex z_string) (map_of kvs ''prevHash''),
            z_refine Sha256Hex z_string (map_of kvs ''hash''),
            z_min1 (map_of kvs ''kind''),
            Actor (map_of kvs ''actor''),
            z_record (map_of kvs ''payload''),
            z_refine Ed25519SignatureB64 z_string (map_of kvs ''signature'')),
           (z_reserved (map_of kvs ''tenant_id''),
            z_reserved (map_of kvs ''signing_key_id''),
            z_reserved (map_of kvs ''approval_binding_type''),
            z_reserved (map_of kvs ''intendant_identity_uri''),
            z_reserved (map_of kvs ''on_behalf_of''),
            z_default None (z_nullable z_min1) (map_of kvs ''correlation_id''),
            z_default None (z_nullable (z_refine Sha256Hex z_string))
              (map_of kvs ''gsb_receipt_tip_hash''))) of
       ((Some _, Some sq, Some ts, Some ph, Some h, Some kd, Some ac, Some pl, Some sg),
        (Some ti, Some sk, Some ab, Some iu, Some ob, Some ci, Some gt)) \<Rightarrow>
         Some \<lparr>ev_seq = sq, ev_ts = ts, ev_prevHash = ph, ev_hash = h, ev_kind = kd,
           ev_actor = ac, ev_payload = pl, ev_signature = sg, ev_tenant_id = ti,
           ev_signing_key_id = sk, ev_approval_binding_type = ab,
           ev_intendant_identity_uri = iu, ev_on_behalf_of = ob,
           ev_correlation_id = ci, ev_gsb_receipt_tip_hash = gt\<rparr>
     | _ \<Rightarrow> None)"

text \<open>What the schema demands of a typed event.\<close>

definition event_ok :: "('sk, 'pk) crypto_lib \<Rightarrow> journal_event \<Rightarrow> bool" where
  "event_ok L e \<longleftrightarrow> 0 < ev_seq e \<and> lib_datetime L (ev_ts e)
     \<and> pred_option Sha256Hex (ev_prevHash e) \<and> Sha256Hex (ev_hash e) \<and> ev_kind e \<noteq> []
     \<and> Ed25519SignatureB64 (ev_signature e) \<and> ev_correlation_id e \<noteq> Some []
     \<and> pred_option Sha256Hex (ev_gsb_receipt_tip_hash e)"

text \<open>\<open>JSON.stringify\<close> of a parsed event writes the keys in the order of the schema.\<close>

definition event_obj :: "journal_event \<Rightarrow> json obj" where
  "event_obj e = [
     (''v'', JNum 2),
     (''seq'', JNum (int (ev_seq e))),
     (''ts'', JStr (ev_ts e)),
     (''prevHash'', json_opt JStr (ev_prevHash e)),
     (''hash'', JStr (ev_hash e)),
     (''kind'', JStr (ev_kind e)),
     (''actor'', JStr (actor_name (ev_actor e))),
     (''payload'', JObj (ev_payload e)),
     (''signature'', JStr (ev_signature e)),
     (''tenant_id'', json_opt JStr (ev_tenant_id e)),
     (''signing_key_id'', json_opt JStr (ev_signing_key_id e)),
     (''approval_binding_type'', json_opt JStr (ev_approval_binding_type e)),
     (''intendant_identity_uri'', json_opt JStr (ev_intendant_identity_uri e)),
     (''on_behalf_of'', json_opt JStr (ev_on_behalf_of e)),
     (''correlation_id'', json_opt JStr (ev_correlation_id e)),
     (''gsb_receipt_tip_hash'', json_opt JStr (ev_gsb_receipt_tip_hash e))]"

definition event_json :: "journal_event \<Rightarrow> json" where
  "event_json e = JObj (event_obj e)"

definition payload_ok :: "json obj \<Rightarrow> bool" where
  "payload_ok p \<longleftrightarrow> json_ok (JObj p)"

lemma z_nullable_refine_reads:
  "pred_option P x \<Longrightarrow> z_nullable (z_refine P z_string) (Some (json_opt JStr x)) = Some x"
  by (rule z_nullable_reads) (auto simp: schema_reads)

lemma JournalEvent_reads: "event_ok L e \<Longrightarrow> JournalEvent L (Some (event_json e)) = Some e"
proof -
  assume e: "event_ok L e"
  have strict: "list_all (\<lambda>p. fst p \<in> set journal_keys) (event_obj e)"
    by (simp add: event_obj_def journal_keys_def)
  have res: "z_reserved (Some (json_opt JStr x)) = Some x" for x
    by (simp add: z_reserved_def schema_reads)
  have cor: "z_nullable z_min1 (Some (json_opt JStr (ev_correlation_id e)))
      = Some (ev_correlation_id e)"
    using e by (intro z_nullable_reads) (auto simp: event_ok_def schema_reads)
  have v: "JournalEventVersion (Some (JNum 2)) = Some ()" by (simp add: JournalEventVersion_def)
  show ?thesis
    using e strict unfolding JournalEvent_def event_json_def z_strict_def z_object_def
    by (simp add: event_ok_def) (simp add: event_obj_def schema_reads z_nullable_refine_reads res cor v)
qed

lemma json_ok_event: "payload_ok (ev_payload e) \<Longrightarrow> json_ok (event_json e)"
  by (auto simp: event_json_def event_obj_def payload_ok_def intro!: json_ok_opt)

section \<open>Gateway messages\<close>

record tool_call_request =
  tcr_id :: string
  tcr_sessionId :: string
  tcr_tool :: string
  tcr_args :: "json obj"
  tcr_actor :: actor

datatype gateway_message =
    ToolCallRequest tool_call_request
  | VerdictMessage string string policy_verdict
  | ToolCallResult string string bool "json option"
  | GatewayError string string string

fun message_id :: "gateway_message \<Rightarrow> string" where
  "message_id (ToolCallRequest r) = tcr_id r"
| "message_id (VerdictMessage i _ _) = i"
| "message_id (ToolCallResult i _ _ _) = i"
| "message_id (GatewayError i _ _) = i"

definition ToolCallRequest_schema :: "tool_call_request schema" where
  "ToolCallRequest_schema = z_object (\<lambda>kvs.
     case (z_min1 (map_of kvs ''id''), z_min1 (map_of kvs ''sessionId''),
           z_literal ''tool_call_request'' (map_of kvs ''kind''), z_min1 (map_of kvs ''tool''),
           z_record (map_of kvs ''args''), Actor (map_of kvs ''actor'')) of
       (Some i, Some s, Some _, Some t, Some a, Some c) \<Rightarrow>
         Some \<lparr>tcr_id = i, tcr_sessionId = s, tcr_tool = t, tcr_args = a, tcr_actor = c\<rparr>
     | _ \<Rightarrow> None)"

definition VerdictMessage_schema :: "gateway_message schema" where
  "VerdictMessage_schema = z_object (\<lambda>kvs.
     case (z_min1 (map_of kvs ''id''), z_min1 (map_of kvs ''sessionId''),
           z_literal ''policy_verdict'' (map_of kvs ''kind''), PolicyVerdict (map_of kvs ''verdict'')) of
       (Some i, Some s, Some _, Some v) \<Rightarrow> Some (VerdictMessage i s v)
     | _ \<Rightarrow> None)"

definition ToolCallResult_schema :: "gateway_message schema" where
  "ToolCallResult_schema = z_object (\<lambda>kvs.
     case (z_min1 (map_of kvs ''id''), z_min1 (map_of kvs ''sessionId''),
           z_literal ''tool_call_result'' (map_of kvs ''kind''), z_boolean (map_of kvs ''ok''),
           z_unknown (map_of kvs ''output'')) of
       (Some i, Some s, Some _, Some b, Some out) \<Rightarrow> Some (ToolCallResult i s b out)
     | _ \<Rightarrow> None)"

definition GatewayError_schema :: "gateway_message schema" where
  "GatewayError_schema = z_object (\<lambda>kvs.
     case (z_min1 (map_of kvs ''id''), z_min1 (map_of kvs ''sessionId''),
           z_literal ''error'' (map_of kvs ''kind''), z_min1 (map_of kvs ''message'')) of
       (Some i, Some s, Some _, Some m) \<Rightarrow> Some (GatewayError i s m)
     | _ \<Rightarrow> None)"

text \<open>The discriminated union picks the member schema by \<open>kind\<close>.\<close>

definition GatewayMessage :: "gateway_message schema" where
  "GatewayMessage = z_object (\<lambda>kvs.
     let x = Some (JObj kvs); k = map_of kvs ''kind'' in
     if k = Some (JStr ''tool_call_request'') then map_option ToolCallRequest (ToolCallRequest_schema x)
     else if k = Some (JStr ''policy_verdict'') then VerdictMessage_schema x
     else if k = Some (JStr ''tool_call_result'') then ToolCallResult_schema x
     else if k = Some (JStr ''error'') then GatewayError_schema x
     else None)"

fun message_json :: "gateway_message \<Rightarrow> json" where
  "message_json (ToolCallRequest r) = JObj [
     (''id'', JStr (tcr_id r)), (''sessionId'', JStr (tcr_sessionId r)),
     (''kind'', JStr ''tool_call_request''), (''tool'', JStr (tcr_tool r)),
     (''args'', JObj (tcr_args r)), (''actor'', JStr (actor_name (tcr_actor r)))]"
| "message_json (VerdictMessage i s v) = JObj [
     (''id'', JStr i), (''sessionId'', JStr s), (''kind'', JStr ''policy_verdict''),
     (''verdict'', verdict_json v)]"
| "message_json (ToolCallResult i s b out) = JObj ([
     (''id'', JStr i), (''sessionId'', JStr s), (''kind'', JStr ''tool_call_result''),
     (''ok'', JBool b)] @ (case out of None \<Rightarrow> [] | Some v \<Rightarrow> [(''output'', v)]))"
| "message_json (GatewayError i s m) = JObj [
     (''id'', JStr i), (''sessionId'', JStr s), (''kind'', JStr ''error''), (''message'', JStr m)]"

fun message_ok :: "gateway_message \<Rightarrow> bool" where
  "message_ok (ToolCallRequest r) \<longleftrightarrow>
     tcr_id r \<noteq> [] \<and> tcr_sessionId r \<noteq> [] \<and> tcr_tool r \<noteq> [] \<and> json_ok (JObj (tcr_args r))"
| "message_ok (VerdictMessage i s v) \<longleftrightarrow> i \<noteq> [] \<and> s \<noteq> [] \<and> verdict_ok v"
| "message_ok (ToolCallResult i s b out) \<longleftrightarrow> i \<noteq> [] \<and> s \<noteq> [] \<and> pred_option json_ok out"
| "message_ok (GatewayError i s m) \<longleftrightarrow> i \<noteq> [] \<and> s \<noteq> [] \<and> m \<noteq> []"

lemma GatewayMessage_reads: "message_ok m \<Longrightarrow> GatewayMessage (Some (message_json m)) = Some m"
  by (cases m)
    (auto simp: GatewayMessage_def z_object_def ToolCallRequest_schema_def VerdictMessage_schema_def
      ToolCallResult_schema_def GatewayError_schema_def z_literal_def z_unknown_def schema_reads
      PolicyVerdict_reads split: option.splits)

lemma json_ok_message: "message_ok m \<Longrightarrow> json_ok (message_json m)"
  by (cases m) (auto simp: json_ok_verdict split: option.splits)

section \<open>Approvals\<close>

record approval_request =
  ar_messageId :: string
  ar_sessionId :: string
  ar_tool :: string
  ar_verdict :: policy_verdict

record approval_decision =
  ad_messageId :: string
  ad_approved :: bool
  ad_decidedBy :: string

definition approval_request_ok :: "approval_request \<Rightarrow> bool" where
  "approval_request_ok r \<longleftrightarrow> ar_messageId r \<noteq> [] \<and> ar_sessionId r \<noteq> [] \<and> ar_tool r \<noteq> []
     \<and> verdict_ok (ar_verdict r) \<and> pv_decision (ar_verdict r) = require"

definition ApprovalRequest :: "approval_request schema" where
  "ApprovalRequest = z_refine (\<lambda>r. pv_decision (ar_verdict r) = require) (z_object (\<lambda>kvs.
     case (z_min1 (map_of kvs ''messageId''), z_min1 (map_of kvs ''sessionId''),
           z_min1 (map_of kvs ''tool''), PolicyVerdict (map_of kvs ''verdict'')) of
       (Some m, Some s, Some t, Some v) \<Rightarrow>
         Some \<lparr>ar_messageId = m, ar_sessionId = s, ar_tool = t, ar_verdict = v\<rparr>
     | _ \<Rightarrow> None))"

definition approval_request_json :: "approval_request \<Rightarrow> json" where
  "approval_request_json r = JObj [(''messageId'', JStr (ar_messageId r)),
     (''sessionId'', JStr (ar_sessionId r)), (''tool'', JStr (ar_tool r)),
     (''verdict'', verdict_json (ar_verdict r))]"

lemma ApprovalRequest_reads:
  "approval_request_ok r \<Longrightarrow> ApprovalRequest (Some (approval_request_json r)) = Some r"
  by (simp add: ApprovalRequest_def approval_request_json_def z_object_def z_refine_def schema_reads
      approval_request_ok_def PolicyVerdict_reads)

definition ApprovalDecision :: "approval_decision schema" where
  "ApprovalDecision = z_object (\<lambda>kvs.
     case (z_min1 (map_of kvs ''messageId''), z_boolean (map_of kvs ''approved''),
           z_min1 (map_of kvs ''decidedBy'')) of
       (Some m, Some a, Some d) \<Rightarrow> Some \<lparr>ad_messageId = m, ad_approved = a, ad_decidedBy = d\<rparr>
     | _ \<Rightarrow> None)"

section \<open>Leases, deliveries, manifests, sandboxes\<close>

datatype lease_status = active | released | reaped

fun lease_status_name :: "lease_status \<Rightarrow> string" where
  "lease_status_name active = ''active''"
| "lease_status_name released = ''released''"
| "lease_status_name reaped = ''reaped''"

definition SessionLeaseStatus :: "lease_status schema" where
  "SessionLeaseStatus = z_enum [(''active'', active), (''released'', released), (''reaped'', reaped)]"

record session_lease =
  sl_sessionId :: string
  sl_ownerInstanceId :: string
  sl_fencingToken :: nat
  sl_heartbeatAt :: string
  sl_expiresAt :: string
  sl_status :: lease_status

definition lease_ok :: "session_lease \<Rightarrow> bool" where
  "lease_ok l \<longleftrightarrow> sl_sessionId l \<noteq> [] \<and> sl_ownerInstanceId l \<noteq> [] \<and> 0 < sl_fencingToken l
     \<and> sl_heartbeatAt l \<noteq> [] \<and> sl_expiresAt l \<noteq> []"

definition SessionLease :: "session_lease schema" where
  "SessionLease = z_object (\<lambda>kvs.
     case (z_min1 (map_of kvs ''sessionId''), z_min1 (map_of kvs ''ownerInstanceId''),
           z_positive (map_of kvs ''fencingToken''), z_min1 (map_of kvs ''heartbeatAt''),
           z_min1 (map_of kvs ''expiresAt''), z_default active SessionLeaseStatus (map_of kvs ''status'')) of
       (Some s, Some ow, Some t, Some h, Some e, Some st) \<Rightarrow>
         Some \<lparr>sl_sessionId = s, sl_ownerInstanceId = ow, sl_fencingToken = t,
           sl_heartbeatAt = h, sl_expiresAt = e, sl_status = st\<rparr>
     | _ \<Rightarrow> None)"

definition lease_json :: "session_lease \<Rightarrow> json" where
  "lease_json l = JObj [(''sessionId'', JStr (sl_sessionId l)),
     (''ownerInstanceId'', JStr (sl_ownerInstanceId l)),
     (''fencingToken'', JNum (int (sl_fencingToken l))),
     (''heartbeatAt'', JStr (sl_heartbeatAt l)), (''expiresAt'', JStr (sl_expiresAt l)),
     (''status'', JStr (lease_status_name (sl_status l)))]"

lemma SessionLease_reads: "lease_ok l \<Longrightarrow> SessionLease (Some (lease_json l)) = Some l"
  by (cases "sl_status l")
    (simp_all add: SessionLease_def lease_json_def z_object_def schema_reads lease_ok_def
      SessionLeaseStatus_def)

lemma json_ok_lease: "json_ok (lease_json l)"
  by (simp add: lease_json_def)

datatype outbox_status = pending | delivered

fun outbox_status_name :: "outbox_status \<Rightarrow> string" where
  "outbox_status_name pending = ''pending''"
| "outbox_status_name delivered = ''delivered''"

definition OutboxStatus :: "outbox_status schema" where
  "OutboxStatus = z_enum [(''pending'', pending), (''delivered'', delivered)]"

record outbox_delivery =
  od_id :: string
  od_eventKind :: string
  od_summary :: string
  od_status :: outbox_status
  od_attempts :: nat
  od_enqueuedAt :: string
  od_deliveredAt :: "string option"

definition delivery_ok :: "outbox_delivery \<Rightarrow> bool" where
  "delivery_ok d \<longleftrightarrow> od_id d \<noteq> [] \<and> od_eventKind d \<noteq> [] \<and> od_summary d \<noteq> [] \<and> od_enqueuedAt d \<noteq> []"

definition OutboxDelivery :: "outbox_delivery schema" where
  "OutboxDelivery = z_object (\<lambda>kvs.
     case (z_min1 (map_of kvs ''id''), z_min1 (map_of kvs ''eventKind''),
           z_min1 (map_of kvs ''summary''), z_default pending OutboxStatus (map_of kvs ''status''),
           z_default 0 z_nonnegative (map_of kvs ''attempts''), z_min1 (map_of kvs ''enqueuedAt''),
           z_default None (z_nullable z_string) (map_of kvs ''deliveredAt'')) of
       (Some i, Some k, Some s, Some st, Some a, Some e, Some d) \<Rightarrow>
         Some \<lparr>od_id = i, od_eventKind = k, od_summary = s, od_status = st, od_attempts = a,
           od_enqueuedAt = e, od_deliveredAt = d\<rparr>
     | _ \<Rightarrow> None)"

text \<open>\<open>OutboxDelivery.parse\<close> on a value built in memory.\<close>

definition OutboxDelivery_parse :: "outbox_delivery \<Rightarrow> outbox_delivery result" where
  "OutboxDelivery_parse d = (if delivery_ok d then Inr d else Inl (ZodError ''OutboxDelivery''))"

definition delivery_json :: "outbox_delivery \<Rightarrow> json" where
  "delivery_json d = JObj [(''id'', JStr (od_id d)), (''eventKind'', JStr (od_eventKind d)),
     (''summary'', JStr (od_summary d)), (''status'', JStr (outbox_status_name (od_status d))),
     (''attempts'', JNum (int (od_attempts d))), (''enqueuedAt'', JStr (od_enqueuedAt d)),
     (''deliveredAt'', json_opt JStr (od_deliveredAt d))]"

lemma OutboxDelivery_reads: "delivery_ok d \<Longrightarrow> OutboxDelivery (Some (delivery_json d)) = Some d"
  by (cases "od_status d")
    (simp_all add: OutboxDelivery_def delivery_json_def z_object_def schema_reads delivery_ok_def
      OutboxStatus_def)

lemma json_ok_delivery: "json_ok (delivery_json d)"
  by (auto simp: delivery_json_def intro!: json_ok_opt)

record intendant_manifest =
  im_name :: string
  im_version :: string

definition manifest_ok :: "intendant_manifest \<Rightarrow> bool" where
  "manifest_ok m \<longleftrightarrow> im_name m \<noteq> [] \<and> im_version m \<noteq> []"

definition manifest_json :: "intendant_manifest \<Rightarrow> json" where
  "manifest_json m = JObj [(''name'', JStr (im_name m)), (''version'', JStr (im_version m))]"

record intendant_identity =
  ii_name :: string
  ii_version :: string
  ii_uri :: "string option"

record sandbox_spec =
  sp_image :: string
  sp_sessionId :: string
  sp_networkEnabled :: bool

record exec_result =
  er_exitCode :: int
  er_stdout :: string
  er_stderr :: string

definition exec_json :: "exec_result \<Rightarrow> json" where
  "exec_json r = JObj [(''exitCode'', JNum (er_exitCode r)), (''stdout'', JStr (er_stdout r)),
     (''stderr'', JStr (er_stderr r))]"

record isolation_guarantees =
  ig_kind :: string
  ig_boundary :: string
  ig_vmGrade :: bool

record sandbox_handle =
  sh_id :: string
  sh_sessionId :: string

end
