(* ===== verification/Policy.thy ===== *)
theory Policy
  imports Contracts
begin

text \<open>
  \<open>src/policy\<close>: the rules, the evaluator (the strictest matching effect wins, ties go to
  the higher priority and then to the earlier rule, no match is a denial), the loader of the
  policy file and the lint of permissive rules. The specification of the evaluator is the
  maximum of the matching effects in the order allow < require < deny.
\<close>

section \<open>Rules\<close>

record policy_rule =
  pr_id :: string
  pr_effect :: policy_decision
  pr_tool :: string
  pr_actor :: "actor option"
  pr_tier :: "policy_tier option"
  pr_priority :: "int option"
  pr_reason :: "string option"

record tool_call =
  tc_tool :: string
  tc_actor :: actor

definition PolicyRule :: "policy_rule schema" where
  "PolicyRule = z_object (\<lambda>kvs.
     case (z_min1 (map_of kvs ''id''), PolicyDecision (map_of kvs ''effect''),
           z_default ''*'' z_string (map_of kvs ''tool''), z_optional Actor (map_of kvs ''actor''),
           z_optional PolicyTier (map_of kvs ''tier''), z_optional z_int (map_of kvs ''priority''),
           z_optional z_string (map_of kvs ''reason'')) of
       (Some i, Some e, Some t, Some a, Some ti, Some p, Some r) \<Rightarrow>
         Some \<lparr>pr_id = i, pr_effect = e, pr_tool = t, pr_actor = a, pr_tier = ti,
           pr_priority = p, pr_reason = r\<rparr>
     | _ \<Rightarrow> None)"

definition PolicyFile :: "policy_rule list schema" where
  "PolicyFile = z_strict [''rules''] (\<lambda>kvs. z_array PolicyRule (map_of kvs ''rules''))"

fun RESTRICTIVENESS :: "policy_decision \<Rightarrow> nat" where
  "RESTRICTIVENESS deny = 3"
| "RESTRICTIVENESS require = 2"
| "RESTRICTIVENESS allow = 1"

instantiation policy_decision :: linorder
begin

definition less_eq_policy_decision :: "policy_decision \<Rightarrow> policy_decision \<Rightarrow> bool" where
  "less_eq_policy_decision a b \<longleftrightarrow> RESTRICTIVENESS a \<le> RESTRICTIVENESS b"

definition less_policy_decision :: "policy_decision \<Rightarrow> policy_decision \<Rightarrow> bool" where
  "less_policy_decision a b \<longleftrightarrow> RESTRICTIVENESS a < RESTRICTIVENESS b"

instance
proof
  fix a b c :: policy_decision
  show "a < b \<longleftrightarrow> a \<le> b \<and> \<not> b \<le> a"
    by (auto simp: less_eq_policy_decision_def less_policy_decision_def)
  show "a \<le> a" "a \<le> b \<Longrightarrow> b \<le> c \<Longrightarrow> a \<le> c" "a \<le> b \<or> b \<le> a"
    by (auto simp: less_eq_policy_decision_def)
  show "a \<le> b \<Longrightarrow> b \<le> a \<Longrightarrow> a = b"
    by (cases a; cases b) (auto simp: less_eq_policy_decision_def)
qed

end

lemma decision_order [simp]: "allow \<le> d" "d \<le> deny"
  by (cases d; simp add: less_eq_policy_decision_def)+

lemma RESTRICTIVENESS_le: "RESTRICTIVENESS a \<le> RESTRICTIVENESS b \<longleftrightarrow> a \<le> b"
  by (simp add: less_eq_policy_decision_def)

lemma RESTRICTIVENESS_eq: "RESTRICTIVENESS a = RESTRICTIVENESS b \<longleftrightarrow> a = b"
  by (cases a; cases b) auto

lemma RESTRICTIVENESS_pos: "0 < RESTRICTIVENESS a"
  by (cases a) auto

section \<open>The evaluator\<close>

definition matches :: "policy_rule \<Rightarrow> tool_call \<Rightarrow> bool" where
  "matches rule call \<longleftrightarrow>
     (pr_tool rule = ''*'' \<or> pr_tool rule = tc_tool call) \<and>
     (pr_actor rule = None \<or> pr_actor rule = Some (tc_actor call))"

definition priority_of :: "policy_rule \<Rightarrow> int" where
  "priority_of r = (case pr_priority r of Some p \<Rightarrow> p | None \<Rightarrow> 0)"

text \<open>\<open>Math.max\<close> of a nonempty list of ranks.\<close>

definition max_rank :: "policy_rule list \<Rightarrow> nat" where
  "max_rank ms = foldl max 0 (map (\<lambda>r. RESTRICTIVENESS (pr_effect r)) ms)"

text \<open>The filter by rank, the stable sort by descending priority, and its first element.\<close>

definition winner :: "policy_rule list \<Rightarrow> policy_rule" where
  "winner ms = hd (sort_key (\<lambda>r. - priority_of r)
     (filter (\<lambda>r. RESTRICTIVENESS (pr_effect r) = max_rank ms) ms))"

definition arrow :: string where
  "arrow = [CHR '' '', CHR 0xE2, CHR 0x86, CHR 0x92, CHR '' '']"

definition default_reason :: "string \<Rightarrow> string" where
  "default_reason tool = ''no matching rule for tool '' @ [CHR 0x27] @ tool @ [CHR 0x27] @ '' (default-deny)''"

definition rule_reason :: "policy_rule \<Rightarrow> string" where
  "rule_reason w = (case pr_reason w of Some r \<Rightarrow> r
     | None \<Rightarrow> ''rule '' @ [CHR 0x27] @ pr_id w @ [CHR 0x27] @ arrow @ decision_name (pr_effect w))"

definition evaluate :: "policy_rule list \<Rightarrow> tool_call \<Rightarrow> policy_verdict result" where
  "evaluate rules call =
     (let matching = filter (\<lambda>r. matches r call) rules in
      if matching = [] then
        PolicyVerdict_parse \<lparr>pv_decision = deny, pv_reason = default_reason (tc_tool call),
          pv_ruleId = None, pv_tier = None\<rparr>
      else
        let w = winner matching in
        PolicyVerdict_parse \<lparr>pv_decision = pr_effect w, pv_reason = rule_reason w,
          pv_ruleId = Some (pr_id w), pv_tier = pr_tier w\<rparr>)"

text \<open>The specification: the strictest matching effect, a denial when nothing matches.\<close>

definition effects_of :: "policy_rule list \<Rightarrow> tool_call \<Rightarrow> policy_decision set" where
  "effects_of rules call = pr_effect ` {r \<in> set rules. matches r call}"

definition strictest :: "policy_decision set \<Rightarrow> policy_decision" where
  "strictest E = (if E = {} then deny else Max E)"

text \<open>A rule whose reason is the empty string passes the schema of the file.\<close>

definition reasons_given :: "policy_rule list \<Rightarrow> bool" where
  "reasons_given rules \<longleftrightarrow> list_all (\<lambda>r. pr_reason r \<noteq> Some []) rules"

lemma foldl_max: "foldl max (a::nat) xs = Max (insert a (set xs))"
proof (induction xs arbitrary: a)
  case (Cons x xs)
  have "insert a (set (x # xs)) = insert a (insert x (set xs))" by auto
  then show ?case using Cons by (cases "xs = []") (simp_all add: max.assoc)
qed simp

lemma max_rank_strictest:
  assumes "ms \<noteq> []"
  shows "max_rank ms = RESTRICTIVENESS (Max (pr_effect ` set ms))"
proof -
  let ?R = "(\<lambda>r. RESTRICTIVENESS (pr_effect r)) ` set ms"
  have mono: "mono RESTRICTIVENESS" by (simp add: mono_def RESTRICTIVENESS_le)
  have "max_rank ms = Max (insert 0 ?R)" by (simp add: max_rank_def foldl_max)
  also have "\<dots> = Max ?R" using assms by simp
  also have "\<dots> = RESTRICTIVENESS (Max (pr_effect ` set ms))"
    using assms by (simp add: mono_Max_commute [OF mono] image_image)
  finally show ?thesis .
qed

lemma hd_sort_key_min:
  assumes "xs \<noteq> []"
  shows "hd (sort_key f xs) \<in> set xs" "\<forall>x \<in> set xs. f (hd (sort_key f xs)) \<le> f x"
proof -
  have ne: "sort_key f xs \<noteq> []" using assms by (metis set_empty set_sort)
  then show "hd (sort_key f xs) \<in> set xs" by (metis hd_in_set set_sort)
  obtain y ys where yy: "sort_key f xs = y # ys" using ne by (cases "sort_key f xs") auto
  have "sorted (map f (sort_key f xs))" by simp
  then have "\<forall>x \<in> set (sort_key f xs). f (hd (sort_key f xs)) \<le> f x"
    unfolding yy by auto
  then show "\<forall>x \<in> set xs. f (hd (sort_key f xs)) \<le> f x" by simp
qed

lemma filter_strictest_nonempty:
  "ms \<noteq> [] \<Longrightarrow> filter (\<lambda>r. RESTRICTIVENESS (pr_effect r) = max_rank ms) ms \<noteq> []"
proof -
  assume ms: "ms \<noteq> []"
  then have "Max (pr_effect ` set ms) \<in> pr_effect ` set ms" by simp
  then obtain r where "r \<in> set ms" "pr_effect r = Max (pr_effect ` set ms)" by auto
  then show ?thesis using max_rank_strictest [OF ms] by (metis (mono_tags, lifting) filter_empty_conv)
qed

lemma winner_props:
  assumes "ms \<noteq> []"
  shows "winner ms \<in> set ms" "pr_effect (winner ms) = Max (pr_effect ` set ms)"
    "\<forall>r \<in> set ms. pr_effect r = pr_effect (winner ms) \<longrightarrow> priority_of r \<le> priority_of (winner ms)"
proof -
  let ?c = "filter (\<lambda>r. RESTRICTIVENESS (pr_effect r) = max_rank ms) ms"
  note m = hd_sort_key_min [OF filter_strictest_nonempty [OF assms], of "\<lambda>r. - priority_of r"]
  show "winner ms \<in> set ms" using m(1) by (simp add: winner_def)
  show e: "pr_effect (winner ms) = Max (pr_effect ` set ms)"
    using m(1) max_rank_strictest [OF assms] by (simp add: winner_def RESTRICTIVENESS_eq)
  show "\<forall>r \<in> set ms. pr_effect r = pr_effect (winner ms) \<longrightarrow> priority_of r \<le> priority_of (winner ms)"
    using m(2) e max_rank_strictest [OF assms] by (auto simp: winner_def)
qed

text \<open>The earliest of the candidates of equal rank: the sort is stable.\<close>

lemma winner_first:
  assumes "ms \<noteq> []"
  shows "winner ms = hd (filter (\<lambda>r. pr_effect r = pr_effect (winner ms)
     \<and> priority_of r = priority_of (winner ms)) ms)"
proof -
  let ?c = "filter (\<lambda>r. RESTRICTIVENESS (pr_effect r) = max_rank ms) ms"
  let ?s = "sort_key (\<lambda>r. - priority_of r) ?c"
  have ne: "?s \<noteq> []" using filter_strictest_nonempty [OF assms] by (metis set_empty set_sort)
  have "filter (\<lambda>r. - priority_of r = - priority_of (winner ms)) ?s
      = filter (\<lambda>r. - priority_of r = - priority_of (winner ms)) ?c"
    by (rule sort_key_stable)
  moreover have "filter (\<lambda>r. - priority_of r = - priority_of (winner ms)) ?s = winner ms # tl (filter (\<lambda>r. - priority_of r = - priority_of (winner ms)) ?s)"
    using ne unfolding winner_def by (cases ?s) auto
  ultimately have "winner ms = hd (filter (\<lambda>r. - priority_of r = - priority_of (winner ms)) ?c)"
    by (metis list.sel(1))
  moreover have "filter (\<lambda>r. - priority_of r = - priority_of (winner ms)) ?c
      = filter (\<lambda>r. pr_effect r = pr_effect (winner ms) \<and> priority_of r = priority_of (winner ms)) ms"
    using max_rank_strictest [OF assms] winner_props(2) [OF assms]
    by (simp add: RESTRICTIVENESS_eq conj_commute)
  ultimately show ?thesis by simp
qed

section \<open>What the evaluator decides\<close>

lemma effects_of_matching:
  "effects_of rules call = pr_effect ` set (filter (\<lambda>r. matches r call) rules)"
  by (simp add: effects_of_def)

lemma effects_of_empty: "effects_of rules call = {} \<longleftrightarrow> filter (\<lambda>r. matches r call) rules = []"
  by (auto simp: effects_of_matching filter_empty_conv)

lemma effects_of_append: "effects_of (xs @ ys) call = effects_of xs call \<union> effects_of ys call"
  by (auto simp: effects_of_def)

lemma finite_effects [simp]: "finite (effects_of rules call)"
  by (simp add: effects_of_def)

lemma default_verdict_ok [simp]:
  "verdict_ok \<lparr>pv_decision = deny, pv_reason = default_reason t, pv_ruleId = None, pv_tier = None\<rparr>"
  by (simp add: verdict_ok_def default_reason_def)

lemma rule_reason_nonempty: "pr_reason r \<noteq> Some [] \<Longrightarrow> rule_reason r \<noteq> []"
  by (auto simp: rule_reason_def split: option.splits)

lemma evaluate_default: "effects_of rules call = {} \<Longrightarrow> evaluate rules call =
    Inr \<lparr>pv_decision = deny, pv_reason = default_reason (tc_tool call), pv_ruleId = None, pv_tier = None\<rparr>"
  by (simp add: effects_of_empty evaluate_def PolicyVerdict_parse_def)

lemma evaluate_winner:
  assumes "effects_of rules call \<noteq> {}"
  defines "w \<equiv> winner (filter (\<lambda>r. matches r call) rules)"
  shows "evaluate rules call = PolicyVerdict_parse \<lparr>pv_decision = pr_effect w, pv_reason = rule_reason w,
          pv_ruleId = Some (pr_id w), pv_tier = pr_tier w\<rparr>"
    "w \<in> set rules" "matches w call" "pr_effect w = strictest (effects_of rules call)"
proof -
  have ms: "filter (\<lambda>r. matches r call) rules \<noteq> []" using assms(1) by (simp add: effects_of_empty)
  show "evaluate rules call = PolicyVerdict_parse \<lparr>pv_decision = pr_effect w, pv_reason = rule_reason w,
          pv_ruleId = Some (pr_id w), pv_tier = pr_tier w\<rparr>"
    using ms by (simp add: evaluate_def w_def Let_def)
  show "w \<in> set rules" "matches w call" using winner_props(1) [OF ms] by (auto simp: w_def)
  show "pr_effect w = strictest (effects_of rules call)"
    unfolding w_def winner_props(2) [OF ms] strictest_def if_not_P [OF assms(1)]
    by (simp only: effects_of_matching)
qed

lemma evaluate_decides:
  assumes "reasons_given rules"
  shows "map_sum (\<lambda>_. ()) pv_decision (evaluate rules call) = Inr (strictest (effects_of rules call))"
proof (cases "effects_of rules call = {}")
  case True
  then show ?thesis by (simp add: evaluate_default strictest_def)
next
  case False
  note w = evaluate_winner [OF False]
  have "rule_reason (winner (filter (\<lambda>r. matches r call) rules)) \<noteq> []"
    using assms w(2) by (intro rule_reason_nonempty) (auto simp: reasons_given_def list_all_iff)
  then show ?thesis using w(1,4) by (simp add: PolicyVerdict_parse_def verdict_ok_def)
qed

lemma map_sum_Inr: "map_sum f g x = Inr y \<longleftrightarrow> (\<exists>z. x = Inr z \<and> g z = y)"
  by (cases x) auto

lemma Max_allow: "finite E \<Longrightarrow> E \<noteq> {} \<Longrightarrow> Max E = allow \<longleftrightarrow> E = {allow}"
proof
  assume E: "finite E" "E \<noteq> {}" and m: "Max E = allow"
  have "e = allow" if "e \<in> E" for e using Max_ge [OF E(1) that] m decision_order(1) [of e] by simp
  then show "E = {allow}" using E(2) by auto
qed simp

text \<open>
  C25: the evaluator decides the strictest effect among all the rules that match the call,
  whatever their order, and denies when none matches; it returns a verdict on every rule set
  whose reasons are not empty strings.
\<close>

theorem evaluate_strictest:
  assumes "reasons_given rules"
  shows "\<exists>v. evaluate rules call = Inr v \<and> pv_decision v = strictest (effects_of rules call)"
  using evaluate_decides [OF assms] by (simp add: map_sum_Inr)

abbreviation rule_of :: "string \<Rightarrow> policy_decision \<Rightarrow> string \<Rightarrow> policy_rule" where
  "rule_of i e t \<equiv> \<lparr>pr_id = i, pr_effect = e, pr_tool = t, pr_actor = None, pr_tier = None,
     pr_priority = None, pr_reason = None\<rparr>"

theorem evaluate_strictest_witness:
  "\<exists>v. evaluate [rule_of ''r1'' allow ''*'', rule_of ''r2'' deny ''Bash'']
      \<lparr>tc_tool = ''Bash'', tc_actor = claude_process\<rparr> = Inr v
    \<and> pv_decision v = strictest (effects_of [rule_of ''r1'' allow ''*'', rule_of ''r2'' deny ''Bash'']
        \<lparr>tc_tool = ''Bash'', tc_actor = claude_process\<rparr>)"
  by (rule evaluate_strictest) (simp add: reasons_given_def)

text \<open>
  A call is allowed exactly when some rule matches it and every rule that matches it
  allows it; one matching deny or require rule anywhere in the file is enough to stop it.
\<close>

theorem evaluate_allow_iff:
  assumes "reasons_given rules"
  shows "(\<exists>v. evaluate rules call = Inr v \<and> pv_decision v = allow) \<longleftrightarrow>
     (\<exists>r \<in> set rules. matches r call) \<and> (\<forall>r \<in> set rules. matches r call \<longrightarrow> pr_effect r = allow)"
proof -
  have "(\<exists>v. evaluate rules call = Inr v \<and> pv_decision v = allow) \<longleftrightarrow>
      strictest (effects_of rules call) = allow"
    using evaluate_decides [OF assms, of call] by (auto simp: map_sum_Inr)
  also have "\<dots> \<longleftrightarrow> effects_of rules call = {allow}"
    by (auto simp: strictest_def Max_allow)
  also have "\<dots> \<longleftrightarrow> (\<exists>r \<in> set rules. matches r call) \<and> (\<forall>r \<in> set rules. matches r call \<longrightarrow> pr_effect r = allow)"
    by (auto simp: effects_of_def)
  finally show ?thesis .
qed

theorem evaluate_allow_iff_witness:
  "\<exists>v. evaluate [rule_of ''r1'' allow ''Read'', rule_of ''r2'' deny ''Bash'']
      \<lparr>tc_tool = ''Read'', tc_actor = claude_process\<rparr> = Inr v \<and> pv_decision v = allow"
  by (subst evaluate_allow_iff) (auto simp: reasons_given_def matches_def)

text \<open>
  The verdict of a call that some rule matches names a rule of the file that matches it,
  has the strictest effect, the highest priority among the matching rules of that effect, and
  stands first among those of equal effect and priority; the tier and the reason are its own.
\<close>

theorem evaluate_names_winner:
  assumes "evaluate rules call = Inr v" "effects_of rules call \<noteq> {}"
  shows "\<exists>w \<in> set rules. matches w call \<and> pv_decision v = pr_effect w \<and> pv_ruleId v = Some (pr_id w)
     \<and> pv_tier v = pr_tier w \<and> pv_reason v = rule_reason w
     \<and> (\<forall>r \<in> set rules. matches r call \<longrightarrow> pr_effect r \<le> pr_effect w
          \<and> (pr_effect r = pr_effect w \<longrightarrow> priority_of r \<le> priority_of w))
     \<and> w = hd (filter (\<lambda>r. matches r call \<and> pr_effect r = pr_effect w \<and> priority_of r = priority_of w) rules)"
proof -
  let ?ms = "filter (\<lambda>r. matches r call) rules"
  let ?w = "winner ?ms"
  note w = evaluate_winner [OF assms(2)]
  have ms: "?ms \<noteq> []" using assms(2) by (simp add: effects_of_empty)
  have v: "v = \<lparr>pv_decision = pr_effect ?w, pv_reason = rule_reason ?w,
          pv_ruleId = Some (pr_id ?w), pv_tier = pr_tier ?w\<rparr>"
    using w(1) assms(1) by (simp add: PolicyVerdict_parse_def split: if_splits)
  have le: "pr_effect r \<le> pr_effect ?w" if "r \<in> set rules" "matches r call" for r
    using winner_props(2) [OF ms] that by simp
  have first: "?w = hd (filter (\<lambda>r. matches r call \<and> pr_effect r = pr_effect ?w \<and> priority_of r = priority_of ?w) rules)"
    using winner_first [OF ms] by (simp add: conj_commute conj_left_commute)
  show ?thesis
    using v w(2,3) le first winner_props(3) [OF ms] by (intro bexI [of _ ?w]) auto
qed

theorem evaluate_names_winner_witness:
  "\<exists>v. evaluate [rule_of ''r1'' require ''*''] \<lparr>tc_tool = ''Bash'', tc_actor = claude_process\<rparr> = Inr v
     \<and> (\<exists>w \<in> set [rule_of ''r1'' require ''*'']. pv_ruleId v = Some (pr_id w))"
proof -
  let ?r = "[rule_of ''r1'' require ''*'']" and ?c = "\<lparr>tc_tool = ''Bash'', tc_actor = claude_process\<rparr>"
  have m: "effects_of ?r ?c \<noteq> {}" by (simp add: effects_of_empty matches_def)
  obtain v where "evaluate ?r ?c = Inr v"
    by (simp add: evaluate_def matches_def winner_def max_rank_def PolicyVerdict_parse_def verdict_ok_def
        rule_reason_def)
  from this evaluate_names_winner [OF this m] show ?thesis by blast
qed

text \<open>
  The order of the rules never changes the decision, and a rule added to a file never
  loosens the decision of a call the file already matched.
\<close>

theorem evaluate_add_rules:
  assumes "reasons_given rules" "reasons_given rules'" "set rules \<subseteq> set rules'"
    and "evaluate rules call = Inr v" "effects_of rules call \<noteq> {}"
  shows "\<exists>v'. evaluate rules' call = Inr v' \<and> pv_decision v \<le> pv_decision v'
     \<and> (set rules' = set rules \<longrightarrow> pv_decision v' = pv_decision v)"
proof -
  obtain v' where v': "evaluate rules' call = Inr v'" "pv_decision v' = strictest (effects_of rules' call)"
    using evaluate_decides [OF assms(2)] by (auto simp: map_sum_Inr)
  have v: "pv_decision v = strictest (effects_of rules call)"
    using evaluate_decides [OF assms(1), of call] assms(4) by simp
  have sub: "effects_of rules call \<subseteq> effects_of rules' call"
    using assms(3) by (auto simp: effects_of_def)
  then have "strictest (effects_of rules call) \<le> strictest (effects_of rules' call)"
    using assms(5) by (auto simp: strictest_def intro: Max_mono)
  moreover have "effects_of rules' call = effects_of rules call" if "set rules' = set rules"
    using that by (simp add: effects_of_def)
  ultimately show ?thesis using v v' by auto
qed

theorem evaluate_add_rules_witness:
  "\<exists>v'. evaluate [rule_of ''r2'' deny ''Bash'', rule_of ''r1'' require ''*''] \<lparr>tc_tool = ''Bash'', tc_actor = claude_process\<rparr>
      = Inr v' \<and> require \<le> pv_decision v'"
proof -
  let ?r = "[rule_of ''r1'' require ''*'']" and ?c = "\<lparr>tc_tool = ''Bash'', tc_actor = claude_process\<rparr>"
  have m: "effects_of ?r ?c \<noteq> {}" by (simp add: effects_of_empty matches_def)
  obtain v where v: "evaluate ?r ?c = Inr v" "pv_decision v = require"
    by (simp add: evaluate_def matches_def winner_def max_rank_def PolicyVerdict_parse_def verdict_ok_def
        rule_reason_def)
  show ?thesis
    using evaluate_add_rules [OF _ _ _ v(1) m, of "[rule_of ''r2'' deny ''Bash'', rule_of ''r1'' require ''*'']"] v(2)
    by (auto simp: reasons_given_def)
qed

section \<open>Loading a policy file\<close>

text \<open>
  The file is its text, if it exists; \<open>explain\<close> is the message the engine gives for a text
  that is not JSON. Every failure is an error: no rule set is ever made up.
\<close>

definition quoted :: "string \<Rightarrow> string" where
  "quoted s = [CHR 0x27] @ s @ [CHR 0x27]"

definition loadPolicyFile :: "(string \<Rightarrow> string) \<Rightarrow> string \<Rightarrow> string option \<Rightarrow> policy_rule list result" where
  "loadPolicyFile explain path content =
     (case content of
        None \<Rightarrow> Inl (Error (''policy file not found at '' @ path))
      | Some t \<Rightarrow>
          (case json_parse t of
             None \<Rightarrow> Inl (Error (''policy file is not valid JSON: '' @ explain t))
           | Some raw \<Rightarrow> of_option (ZodError ''PolicyFile'') (PolicyFile (Some raw))))"

definition rule_json :: "policy_rule \<Rightarrow> json" where
  "rule_json r = JObj ([(''id'', JStr (pr_id r)), (''effect'', JStr (decision_name (pr_effect r))),
      (''tool'', JStr (pr_tool r))]
     @ (case pr_actor r of None \<Rightarrow> [] | Some a \<Rightarrow> [(''actor'', JStr (actor_name a))])
     @ (case pr_tier r of None \<Rightarrow> [] | Some t \<Rightarrow> [(''tier'', JStr (tier_name t))])
     @ (case pr_priority r of None \<Rightarrow> [] | Some p \<Rightarrow> [(''priority'', JNum p)])
     @ (case pr_reason r of None \<Rightarrow> [] | Some t \<Rightarrow> [(''reason'', JStr t)]))"

definition policy_json :: "policy_rule list \<Rightarrow> json" where
  "policy_json rules = JObj [(''rules'', JArr (map rule_json rules))]"

lemma PolicyRule_reads: "pr_id r \<noteq> [] \<Longrightarrow> PolicyRule (Some (rule_json r)) = Some r"
  by (cases "pr_actor r"; cases "pr_tier r"; cases "pr_priority r"; cases "pr_reason r")
    (simp_all add: PolicyRule_def rule_json_def z_object_def schema_reads z_optional_def)

lemma PolicyFile_reads:
  "\<forall>r \<in> set rules. pr_id r \<noteq> [] \<Longrightarrow> PolicyFile (Some (policy_json rules)) = Some rules"
  by (simp add: PolicyFile_def policy_json_def z_strict_def z_object_def z_array_reads PolicyRule_reads)

lemma json_ok_policy: "json_ok (policy_json rules)"
proof -
  have "json_ok (rule_json r)" for r
    by (cases "pr_actor r"; cases "pr_tier r"; cases "pr_priority r"; cases "pr_reason r")
      (simp_all add: rule_json_def)
  then show ?thesis by (simp add: policy_json_def list_all_iff)
qed

text \<open>
  A policy written as JSON is loaded as the rules it states, defaults included, with the
  compact and with the indented printer.
\<close>

theorem load_policy_roundtrip:
  assumes "\<forall>r \<in> set rules. pr_id r \<noteq> []"
  shows "loadPolicyFile explain path (Some (json_stringify (policy_json rules))) = Inr rules
    \<and> loadPolicyFile explain path (Some (json_stringify_indent (policy_json rules))) = Inr rules"
  using assms json_ok_policy [of rules]
  by (simp add: loadPolicyFile_def json_parse_stringify json_parse_stringify_indent PolicyFile_reads)

theorem load_policy_roundtrip_witness:
  "loadPolicyFile (\<lambda>_. []) ''p'' (Some (json_stringify (policy_json
     [rule_of ''r1'' deny ''Bash'', (rule_of ''r2'' require ''*'')\<lparr>pr_priority := Some (- 3)\<rparr>])))
   = Inr [rule_of ''r1'' deny ''Bash'', (rule_of ''r2'' require ''*'')\<lparr>pr_priority := Some (- 3)\<rparr>]"
  by (rule conjunct1 [OF load_policy_roundtrip]) simp

section \<open>Permissive rules\<close>

datatype danger_category = shell | "write" | network | secret | vcs

fun category_name :: "danger_category \<Rightarrow> string" where
  "category_name shell = ''shell''"
| "category_name write = ''write''"
| "category_name network = ''network''"
| "category_name secret = ''secret''"
| "category_name vcs = ''vcs''"

definition DANGEROUS_TOOLS :: "danger_category obj" where
  "DANGEROUS_TOOLS = [(''Bash'', shell), (''Shell'', shell), (''Exec'', shell), (''sh'', shell),
     (''Write'', write), (''Edit'', write), (''MultiEdit'', write), (''NotebookEdit'', write),
     (''WebFetch'', network), (''WebSearch'', network), (''Fetch'', network)]"

text \<open>
  The table is an object literal, so a lookup also finds what the literal inherits from
  \<open>Object.prototype\<close>: \<open>inherited\<close> gives, for such a name, the text the inherited value has
  in a template literal (\<open>None\<close> for every other name).
\<close>

datatype category = Own danger_category | Inherited string

definition classifyTool :: "(string \<Rightarrow> string option) \<Rightarrow> string \<Rightarrow> category option" where
  "classifyTool inherited tool =
     (case map_of DANGEROUS_TOOLS tool of
        Some c \<Rightarrow> Some (Own c)
      | None \<Rightarrow> map_option Inherited (inherited tool))"

definition isDangerous :: "(string \<Rightarrow> string option) \<Rightarrow> string \<Rightarrow> bool" where
  "isDangerous inherited tool \<longleftrightarrow> classifyTool inherited tool \<noteq> None"

fun category_text :: "category \<Rightarrow> string" where
  "category_text (Own c) = category_name c"
| "category_text (Inherited t) = t"

definition warning_all :: "policy_rule \<Rightarrow> string" where
  "warning_all r = ''rule '' @ quoted (pr_id r) @ '' auto-approves ALL tools (tool: ''
     @ [CHR 0x22, CHR ''*'', CHR 0x22] @ '') ''
     @ [CHR 0xE2, CHR 0x80, CHR 0x94] @ '' includes shell/write/network''"

definition warning_tool :: "policy_rule \<Rightarrow> category \<Rightarrow> string" where
  "warning_tool r c = ''rule '' @ quoted (pr_id r) @ '' auto-approves dangerous tool ''
     @ quoted (pr_tool r) @ '' ('' @ category_text c @ '')''"

fun detectBroadAutoApprove :: "(string \<Rightarrow> string option) \<Rightarrow> policy_rule list \<Rightarrow> string list" where
  "detectBroadAutoApprove inherited [] = []"
| "detectBroadAutoApprove inherited (r # rs) =
     (if pr_effect r \<noteq> allow then detectBroadAutoApprove inherited rs
      else if pr_tool r = ''*'' then warning_all r # detectBroadAutoApprove inherited rs
      else (case classifyTool inherited (pr_tool r) of
              None \<Rightarrow> detectBroadAutoApprove inherited rs
            | Some c \<Rightarrow> warning_tool r c # detectBroadAutoApprove inherited rs))"

text \<open>The loop over the rules with the set of the ids seen so far.\<close>

fun duplicate_ids :: "string list \<Rightarrow> policy_rule list \<Rightarrow> string list" where
  "duplicate_ids seen [] = []"
| "duplicate_ids seen (r # rs) =
     (if pr_id r \<in> set seen then [''duplicate rule id '' @ quoted (pr_id r)] else [])
     @ duplicate_ids (List.insert (pr_id r) seen) rs"

definition validatePolicy :: "(string \<Rightarrow> string option) \<Rightarrow> policy_rule list \<Rightarrow> string list \<times> string list" where
  "validatePolicy inherited rules = (duplicate_ids [] rules, detectBroadAutoApprove inherited rules)"

lemma duplicate_ids_Nil:
  "duplicate_ids seen rules = [] \<longleftrightarrow>
     distinct (map pr_id rules) \<and> set (map pr_id rules) \<inter> set seen = {}"
  by (induction rules arbitrary: seen) auto

definition broad :: "(string \<Rightarrow> string option) \<Rightarrow> policy_rule \<Rightarrow> bool" where
  "broad inherited r \<longleftrightarrow> pr_effect r = allow \<and> (pr_tool r = ''*'' \<or> isDangerous inherited (pr_tool r))"

lemma detect_length: "length (detectBroadAutoApprove inherited rules) = length (filter (broad inherited) rules)"
  by (induction rules) (auto simp: broad_def isDangerous_def split: option.splits)

text \<open>
  The validation of a policy reports an error exactly when two rules share an id, and one
  warning for every rule that auto-approves all tools or a dangerous tool. A file without a
  warning lets a dangerous tool through for no actor.
\<close>

theorem validate_policy_sound:
  "(fst (validatePolicy inherited rules) = [] \<longleftrightarrow> distinct (map pr_id rules))
   \<and> length (snd (validatePolicy inherited rules)) = length (filter (broad inherited) rules)
   \<and> (snd (validatePolicy inherited rules) = [] \<longrightarrow> isDangerous inherited (tc_tool call) \<longrightarrow>
        evaluate rules call = Inr v \<longrightarrow> pv_decision v \<noteq> allow)"
proof (intro conjI impI)
  show "fst (validatePolicy inherited rules) = [] \<longleftrightarrow> distinct (map pr_id rules)"
    by (simp add: validatePolicy_def duplicate_ids_Nil)
  show "length (snd (validatePolicy inherited rules)) = length (filter (broad inherited) rules)"
    by (simp add: validatePolicy_def detect_length)
  assume none: "snd (validatePolicy inherited rules) = []" and danger: "isDangerous inherited (tc_tool call)"
    and ev: "evaluate rules call = Inr v"
  show "pv_decision v \<noteq> allow"
  proof (cases "effects_of rules call = {}")
    case True
    then show ?thesis using ev by (auto simp: evaluate_default)
  next
    case False
    let ?w = "winner (filter (\<lambda>r. matches r call) rules)"
    note w = evaluate_winner [OF False]
    have "filter (broad inherited) rules = []"
      using none detect_length [of inherited rules] by (simp add: validatePolicy_def)
    then have "\<not> broad inherited ?w" using w(2) by (simp add: filter_empty_conv)
    then have "pr_effect ?w \<noteq> allow" using w(3) danger by (auto simp: broad_def matches_def)
    then show ?thesis using w(1) ev by (auto simp: PolicyVerdict_parse_def split: if_splits)
  qed
qed

theorem validate_policy_sound_witness:
  "evaluate [rule_of ''r1'' allow ''Read''] \<lparr>tc_tool = ''Bash'', tc_actor = claude_process\<rparr>
     = Inr \<lparr>pv_decision = deny, pv_reason = default_reason ''Bash'', pv_ruleId = None, pv_tier = None\<rparr>
   \<and> snd (validatePolicy (\<lambda>_. None) [rule_of ''r1'' allow ''Read'']) = []
   \<and> \<not> (deny = allow)"
proof -
  let ?r = "[rule_of ''r1'' allow ''Read'']" and ?c = "\<lparr>tc_tool = ''Bash'', tc_actor = claude_process\<rparr>"
  have e: "evaluate ?r ?c = Inr \<lparr>pv_decision = deny, pv_reason = default_reason ''Bash'', pv_ruleId = None, pv_tier = None\<rparr>"
    by (simp add: evaluate_def matches_def PolicyVerdict_parse_def)
  have n: "snd (validatePolicy (\<lambda>_. None) ?r) = []"
    by (simp add: validatePolicy_def classifyTool_def DANGEROUS_TOOLS_def)
  have d: "isDangerous (\<lambda>_. None) (tc_tool ?c)"
    by (simp add: isDangerous_def classifyTool_def DANGEROUS_TOOLS_def)
  show ?thesis using validate_policy_sound [of "\<lambda>_. None" ?r ?c] e n d by auto
qed

text \<open>
  A rule with an empty reason passes the schema of the policy file and its validation,
  yet every evaluation it wins throws instead of giving a verdict.
\<close>

theorem empty_reason_throws:
  "\<exists>rules. loadPolicyFile explain path (Some (json_stringify (policy_json rules))) = Inr rules
     \<and> fst (validatePolicy inherited rules) = []
     \<and> (\<forall>call. evaluate rules call = Inl (ZodError ''PolicyVerdict''))"
proof -
  let ?r = "(rule_of ''r1'' allow ''*'')\<lparr>pr_reason := Some []\<rparr>"
  have "loadPolicyFile explain path (Some (json_stringify (policy_json [?r]))) = Inr [?r]"
    using json_ok_policy [of "[?r]"] by (simp add: loadPolicyFile_def json_parse_stringify PolicyFile_reads)
  moreover have "fst (validatePolicy inherited [?r]) = []" by (simp add: validatePolicy_def)
  moreover have "evaluate [?r] call = Inl (ZodError ''PolicyVerdict'')" for call
    by (simp add: evaluate_def matches_def winner_def max_rank_def PolicyVerdict_parse_def verdict_ok_def
        rule_reason_def)
  ultimately show ?thesis by blast
qed

end
