(* ===== verification/Journal.thy ===== *)
theory Journal
  imports Contracts
begin

text \<open>
  \<open>src/journal\<close>: the hash-chained, signed journal (\<open>journal.ts\<close>), its offline verifier
  (\<open>verify.ts\<close>) and the projection of a governed run (\<open>cross-chain.ts\<close>). The state is the
  text of the two files. The specification of a good journal is \<open>chain_ok\<close>; the theorems
  show that appending keeps a journal verifiable and append-only, that a rejected append
  writes nothing, and that the signed head fixes the whole history.
\<close>

section \<open>State and canonical bytes\<close>

record journal_files =
  jf_log :: "string option"
  jf_head :: "string option"

record append_input =
  ai_kind :: string
  ai_actor :: actor
  ai_payload :: "json obj"
  ai_intendant_identity_uri :: "string option"
  ai_tenant_id :: "string option"
  ai_correlation_id :: "string option"
  ai_gsb_receipt_tip_hash :: "string option"

definition headPath :: "string \<Rightarrow> string" where
  "headPath journalPath = journalPath @ ''.head''"

text \<open>The bytes an event's hash and signature cover: the previous hash, then the event.\<close>

definition eventCanonicalBytes :: "json obj \<Rightarrow> string option \<Rightarrow> string" where
  "eventCanonicalBytes rest prevHash =
     (case prevHash of Some h \<Rightarrow> h | None \<Rightarrow> []) @ canonicalJson (JObj rest)"

text \<open>Members of an object literal whose value is \<open>undefined\<close> are not printed.\<close>

definition defined_members :: "(string \<times> json option) list \<Rightarrow> json obj" where
  "defined_members ms = map (\<lambda>p. (fst p, the (snd p))) (filter (\<lambda>p. snd p \<noteq> None) ms)"

definition headCanonicalBytes :: "json option \<Rightarrow> json option \<Rightarrow> string" where
  "headCanonicalBytes seq hash = canonicalJson (JObj (defined_members [(''seq'', seq), (''hash'', hash)]))"

text \<open>The first line that does not parse throws.\<close>

fun read_lines :: "('sk, 'pk) crypto_lib \<Rightarrow> string list \<Rightarrow> journal_event list result" where
  "read_lines L [] = Inr []"
| "read_lines L (line # lines) =
     (case json_parse line of
        None \<Rightarrow> Inl (SyntaxError ''JSON Parse error'')
      | Some j \<Rightarrow>
          (case JournalEvent L (Some j) of
             None \<Rightarrow> Inl (ZodError ''JournalEvent'')
           | Some e \<Rightarrow> res_bind (read_lines L lines) (\<lambda>es. Inr (e # es))))"

definition readEvents :: "('sk, 'pk) crypto_lib \<Rightarrow> string option \<Rightarrow> journal_event list result" where
  "readEvents L log =
     (case log of None \<Rightarrow> Inr [] | Some content \<Rightarrow> read_lines L (nonblank_lines content))"

text \<open>The parsed content of the head file; the code casts it without a check.\<close>

definition readHead :: "string option \<Rightarrow> json option result" where
  "readHead head =
     (case head of
        None \<Rightarrow> Inr None
      | Some content \<Rightarrow>
          (case json_parse content of
             None \<Rightarrow> Inl (SyntaxError ''JSON Parse error'')
           | Some JNull \<Rightarrow> Inr None
           | Some j \<Rightarrow> Inr (Some j)))"

section \<open>Appending\<close>

text \<open>The object sealed by an append, in the order of the literal.\<close>

definition unsealed_obj :: "append_input \<Rightarrow> nat \<Rightarrow> string \<Rightarrow> string option \<Rightarrow> json obj" where
  "unsealed_obj i sq ts prevHash = [
     (''v'', JNum 2),
     (''seq'', JNum (int sq)),
     (''ts'', JStr ts),
     (''prevHash'', json_opt JStr prevHash),
     (''kind'', JStr (ai_kind i)),
     (''actor'', JStr (actor_name (ai_actor i))),
     (''payload'', JObj (ai_payload i)),
     (''tenant_id'', json_opt JStr (ai_tenant_id i)),
     (''signing_key_id'', JNull),
     (''approval_binding_type'', JNull),
     (''intendant_identity_uri'', json_opt JStr (ai_intendant_identity_uri i)),
     (''on_behalf_of'', JNull),
     (''correlation_id'', json_opt JStr (ai_correlation_id i)),
     (''gsb_receipt_tip_hash'', json_opt JStr (ai_gsb_receipt_tip_hash i))]"

definition sealed_event ::
    "('sk, 'pk) crypto_lib \<Rightarrow> 'sk \<Rightarrow> append_input \<Rightarrow> nat \<Rightarrow> string \<Rightarrow> string option \<Rightarrow> journal_event" where
  "sealed_event L sk i sq ts prevHash =
     (let bytes = eventCanonicalBytes (unsealed_obj i sq ts prevHash) prevHash in
      \<lparr>ev_seq = sq, ev_ts = ts, ev_prevHash = prevHash, ev_hash = sha256Hex L bytes,
       ev_kind = ai_kind i, ev_actor = ai_actor i, ev_payload = ai_payload i,
       ev_signature = signEd25519 L bytes sk, ev_tenant_id = ai_tenant_id i,
       ev_signing_key_id = None, ev_approval_binding_type = None,
       ev_intendant_identity_uri = ai_intendant_identity_uri i, ev_on_behalf_of = None,
       ev_correlation_id = ai_correlation_id i,
       ev_gsb_receipt_tip_hash = ai_gsb_receipt_tip_hash i\<rparr>)"

definition head_text :: "('sk, 'pk) crypto_lib \<Rightarrow> 'sk \<Rightarrow> nat \<Rightarrow> string \<Rightarrow> string" where
  "head_text L sk sq hash = json_stringify (JObj [
     (''seq'', JNum (int sq)), (''hash'', JStr hash),
     (''signature'', JStr (signEd25519 L
        (headCanonicalBytes (Some (JNum (int sq))) (Some (JStr hash))) sk))]) @ [newline]"

definition writeHead :: "('sk, 'pk) crypto_lib \<Rightarrow> 'sk \<Rightarrow> nat \<Rightarrow> string \<Rightarrow> journal_files \<Rightarrow> journal_files" where
  "writeHead L sk sq hash J = J\<lparr>jf_head := Some (head_text L sk sq hash)\<rparr>"

definition append_log :: "string \<Rightarrow> journal_files \<Rightarrow> journal_files" where
  "append_log t J = J\<lparr>jf_log := Some ((case jf_log J of None \<Rightarrow> [] | Some c \<Rightarrow> c) @ t)\<rparr>"

text \<open>
  \<open>Journal.append\<close>: \<open>ts\<close> is the reading of the clock and \<open>screen\<close> the guard run on the
  sealed event (it throws to refuse it). \<open>JournalEvent.parse\<close> on the sealed value fails
  exactly when a member breaks its constraint.
\<close>

definition journal_append ::
    "('sk, 'pk) crypto_lib \<Rightarrow> 'sk \<Rightarrow> (journal_event \<Rightarrow> unit result) \<Rightarrow> string \<Rightarrow> append_input \<Rightarrow>
     (journal_files, journal_event) act" where
  "journal_append L sk screen ts i J =
     (case readEvents L (jf_log J) of
        Inl e \<Rightarrow> (Inl e, J)
      | Inr existing \<Rightarrow>
          (let prevHash = (if existing = [] then None else Some (ev_hash (last existing)));
               sq = (if existing = [] then 0 else ev_seq (last existing)) + 1;
               event = sealed_event L sk i sq ts prevHash
           in if \<not> event_ok L event then (Inl (ZodError ''JournalEvent''), J)
              else (case screen event of
                      Inl e \<Rightarrow> (Inl e, J)
                    | Inr _ \<Rightarrow>
                        (Inr event,
                         writeHead L sk sq (ev_hash event)
                           (append_log (json_stringify (event_json event) @ [newline]) J)))))"

section \<open>The offline verifier\<close>

text \<open>\<open>const { hash, signature, ...rest } = ev\<close>\<close>

definition rest_obj :: "journal_event \<Rightarrow> json obj" where
  "rest_obj e = filter (\<lambda>p. fst p \<noteq> ''hash'' \<and> fst p \<noteq> ''signature'') (event_obj e)"

definition event_bytes :: "journal_event \<Rightarrow> string" where
  "event_bytes e = eventCanonicalBytes (rest_obj e) (ev_prevHash e)"

definition seq_msg :: "nat \<Rightarrow> string \<Rightarrow> string" where
  "seq_msg n m = ''seq '' @ show_nat n @ '': '' @ m"

text \<open>The loop of \<open>verifyEvents\<close> over the expected previous hash and sequence number.\<close>

fun verify_from :: "('sk, 'pk) crypto_lib \<Rightarrow> 'pk \<Rightarrow> string option \<Rightarrow> nat \<Rightarrow> journal_event list \<Rightarrow> string list" where
  "verify_from L pk expectedPrev expectedSeq [] = []"
| "verify_from L pk expectedPrev expectedSeq (ev # evs) =
     (if ev_seq ev \<noteq> expectedSeq
      then [seq_msg (ev_seq ev) (''expected '' @ show_nat expectedSeq @ '' (insertion or reorder)'')] else [])
     @ (if ev_prevHash ev \<noteq> expectedPrev
        then [seq_msg (ev_seq ev) ''prevHash does not link to the prior event''] else [])
     @ (if sha256Hex L (event_bytes ev) \<noteq> ev_hash ev
        then [seq_msg (ev_seq ev) ''hash mismatch (edited payload)''] else [])
     @ (if \<not> verifyEd25519 L (event_bytes ev) (ev_signature ev) pk
        then [seq_msg (ev_seq ev) ''signature invalid''] else [])
     @ verify_from L pk (Some (ev_hash ev)) (expectedSeq + 1) evs"

definition verifyEvents :: "('sk, 'pk) crypto_lib \<Rightarrow> journal_event list \<Rightarrow> 'pk \<Rightarrow> string list" where
  "verifyEvents L events pk = verify_from L pk None 1 events"

text \<open>The defensive reading of the lines: what parses, and an error for each line that does not.\<close>

definition line_error :: "nat \<Rightarrow> string \<Rightarrow> string" where
  "line_error i m = ''line '' @ show_nat (i + 1) @ '': '' @ m"

fun parse_lines :: "('sk, 'pk) crypto_lib \<Rightarrow> nat \<Rightarrow> string list \<Rightarrow> journal_event list \<times> string list" where
  "parse_lines L i [] = ([], [])"
| "parse_lines L i (line # lines) =
     (case json_parse line of
        None \<Rightarrow> apsnd ((#) (line_error i ''not valid JSON'')) (parse_lines L (i + 1) lines)
      | Some j \<Rightarrow>
          (case JournalEvent L (Some j) of
             None \<Rightarrow> apsnd ((#) (line_error i
                (''invalid or unsigned event (possible signed'' @ [CHR 0xE2, CHR 0x86, CHR 0x92]
                 @ ''unsigned rollback)''))) (parse_lines L (i + 1) lines)
           | Some e \<Rightarrow> apfst ((#) e) (parse_lines L (i + 1) lines)))"

text \<open>A signature that is not a string makes \<open>Buffer.from\<close> throw, which counts as invalid.\<close>

definition head_signature_ok :: "('sk, 'pk) crypto_lib \<Rightarrow> json \<Rightarrow> 'pk \<Rightarrow> bool" where
  "head_signature_ok L h pk =
     (case property h ''signature'' of
        Some (JStr sg) \<Rightarrow>
          verifyEd25519 L (headCanonicalBytes (property h ''seq'') (property h ''hash'')) sg pk
      | _ \<Rightarrow> False)"

definition head_errors :: "('sk, 'pk) crypto_lib \<Rightarrow> json option \<Rightarrow> journal_event list \<Rightarrow> 'pk \<Rightarrow> string list" where
  "head_errors L head events pk =
     (case head of
        None \<Rightarrow> [''no signed head checkpoint '' @ [CHR 0xE2, CHR 0x80, CHR 0x94]
                 @ '' truncation cannot be ruled out'']
      | Some h \<Rightarrow>
          if \<not> head_signature_ok L h pk then [''head checkpoint signature invalid'']
          else if events = [] then [''signed head exists but journal is empty (truncated)'']
          else if property h ''seq'' \<noteq> Some (JNum (int (ev_seq (last events))))
                  \<or> property h ''hash'' \<noteq> Some (JStr (ev_hash (last events)))
          then [''journal tail (seq '' @ show_nat (ev_seq (last events)) @ '') does not match the signed head (seq ''
                  @ js_text (property h ''seq'') @ '') '' @ [CHR 0xE2, CHR 0x80, CHR 0x94]
                  @ '' truncation or extension'']
          else [])"

record verify_result =
  vr_ok :: bool
  vr_count :: nat
  vr_errors :: "string list"

definition verifyJournalFile ::
    "('sk, 'pk) crypto_lib \<Rightarrow> string \<Rightarrow> journal_files \<Rightarrow> 'pk \<Rightarrow> verify_result result" where
  "verifyJournalFile L journalPath J pk =
     (case jf_log J of
        None \<Rightarrow> Inr \<lparr>vr_ok = False, vr_count = 0, vr_errors = [''journal not found at '' @ journalPath]\<rparr>
      | Some content \<Rightarrow>
          (let p = parse_lines L 0 (nonblank_lines content);
               events = fst p
           in res_bind (readHead (jf_head J)) (\<lambda>head.
                let errors = snd p @ verifyEvents L events pk @ head_errors L head events pk in
                Inr \<lparr>vr_ok = (errors = []), vr_count = length events, vr_errors = errors\<rparr>)))"

section \<open>What a verified journal is\<close>

fun chain_ok :: "('sk, 'pk) crypto_lib \<Rightarrow> 'pk \<Rightarrow> string option \<Rightarrow> nat \<Rightarrow> journal_event list \<Rightarrow> bool" where
  "chain_ok L pk prev n [] = True"
| "chain_ok L pk prev n (ev # evs) \<longleftrightarrow>
     ev_seq ev = n \<and> ev_prevHash ev = prev \<and> ev_hash ev = sha256Hex L (event_bytes ev)
     \<and> verifyEd25519 L (event_bytes ev) (ev_signature ev) pk \<and> chain_ok L pk (Some (ev_hash ev)) (n + 1) evs"

lemma verify_from_Nil: "verify_from L pk prev n evs = [] \<longleftrightarrow> chain_ok L pk prev n evs"
  by (induction evs arbitrary: prev n) auto

lemma chain_ok_snoc:
  "chain_ok L pk prev n (evs @ [ev]) \<longleftrightarrow> chain_ok L pk prev n evs \<and>
     chain_ok L pk (if evs = [] then prev else Some (ev_hash (last evs))) (n + length evs) [ev]"
  by (induction evs arbitrary: prev n) auto

lemma chain_ok_seq: "chain_ok L pk prev n evs \<Longrightarrow> evs \<noteq> [] \<Longrightarrow> ev_seq (last evs) + 1 = n + length evs"
proof (induction evs arbitrary: prev n)
  case (Cons ev evs)
  show ?case
  proof (cases "evs = []")
    case False
    have c: "chain_ok L pk (Some (ev_hash ev)) (n + 1) evs" using Cons.prems(1) unfolding chain_ok.simps by blast
    show ?thesis using Cons.IH [OF c False] False by simp
  qed (use Cons.prems in simp)
qed simp

lemma parse_lines_snoc:
  "parse_lines L i (ls @ [l]) =
     (fst (parse_lines L i ls) @ fst (parse_lines L (i + length ls) [l]),
      snd (parse_lines L i ls) @ snd (parse_lines L (i + length ls) [l]))"
  by (induction ls arbitrary: i) (auto split: option.splits simp: apsnd_def apfst_def map_prod_def case_prod_beta)

text \<open>The strict reader succeeds where the defensive one reports nothing.\<close>

lemma read_lines_parse: "read_lines L ls = Inr evs \<longleftrightarrow> parse_lines L i ls = (evs, [])"
proof (induction ls arbitrary: evs i)
  case (Cons l ls)
  show ?case
    by (cases "parse_lines L (i + 1) ls")
      (auto split: option.splits simp: result_simps Cons.IH [of _ "i + 1"])
qed auto

section \<open>Appending to a good journal\<close>

text \<open>
  A good journal: every line parses, the events form a signed chain, the log ends with a line
  break and the head pins the last event; or neither file exists yet.
\<close>

definition head_pins :: "('sk, 'pk) crypto_lib \<Rightarrow> 'sk \<Rightarrow> string option \<Rightarrow> journal_event list \<Rightarrow> bool" where
  "head_pins L sk head evs \<longleftrightarrow> evs \<noteq> []
     \<and> head = Some (head_text L sk (ev_seq (last evs)) (ev_hash (last evs)))"

definition journal_good :: "('sk, 'pk) crypto_lib \<Rightarrow> 'sk \<Rightarrow> journal_files \<Rightarrow> journal_event list \<Rightarrow> bool" where
  "journal_good L sk J evs \<longleftrightarrow> readEvents L (jf_log J) = Inr evs
     \<and> chain_ok L (publicKeyFromPrivate L sk) None 1 evs
     \<and> pred_option lines_closed (jf_log J)
     \<and> (evs = [] \<longleftrightarrow> jf_log J = None) \<and> (evs \<noteq> [] \<longrightarrow> head_pins L sk (jf_head J) evs)"

text \<open>What the append hashes is what the verifier recomputes, though the keys come in another order.\<close>

lemma sealed_event_bytes:
  assumes "payload_ok (ai_payload i)"
  shows "event_bytes (sealed_event L sk i sq ts prev) = eventCanonicalBytes (unsealed_obj i sq ts prev) prev"
proof -
  let ?e = "sealed_event L sk i sq ts prev"
  have ok: "obj_ok (rest_obj ?e)" by (simp add: rest_obj_def event_obj_def sealed_event_def Let_def)
  have "mset (rest_obj ?e) = mset (unsealed_obj i sq ts prev)"
    by (simp add: rest_obj_def event_obj_def sealed_event_def Let_def unsealed_obj_def json_opt_def)
  then have "sortDeep (JObj (rest_obj ?e)) = sortDeep (JObj (unsealed_obj i sq ts prev))"
    by (intro sortDeep_perm ok)
  then show ?thesis
    by (simp add: event_bytes_def eventCanonicalBytes_def canonicalJson_def sealed_event_def Let_def)
qed

lemma sealed_event_sealed:
  assumes "payload_ok (ai_payload i)" "crypto_ok L sk"
  shows "ev_hash (sealed_event L sk i sq ts prev) = sha256Hex L (event_bytes (sealed_event L sk i sq ts prev))"
    "verifyEd25519 L (event_bytes (sealed_event L sk i sq ts prev))
       (ev_signature (sealed_event L sk i sq ts prev)) (publicKeyFromPrivate L sk)"
  unfolding sealed_event_bytes [OF assms(1)]
  using crypto_okD [OF assms(2)] by (simp_all add: sealed_event_def Let_def)

lemma sealed_event_simps [simp]:
  "ev_seq (sealed_event L sk i sq ts prev) = sq"
  "ev_prevHash (sealed_event L sk i sq ts prev) = prev"
  "ev_payload (sealed_event L sk i sq ts prev) = ai_payload i"
  "ev_kind (sealed_event L sk i sq ts prev) = ai_kind i"
  "ev_actor (sealed_event L sk i sq ts prev) = ai_actor i"
  "ev_ts (sealed_event L sk i sq ts prev) = ts"
  "ev_correlation_id (sealed_event L sk i sq ts prev) = ai_correlation_id i"
  "ev_gsb_receipt_tip_hash (sealed_event L sk i sq ts prev) = ai_gsb_receipt_tip_hash i"
  "ev_intendant_identity_uri (sealed_event L sk i sq ts prev) = ai_intendant_identity_uri i"
  by (simp_all add: sealed_event_def Let_def)

lemma json_parse_newline: "json_ok v \<Longrightarrow> json_parse (json_stringify v @ [newline]) = Some v"
proof -
  assume ok: "json_ok v"
  let ?t = "json_stringify v"
  have ws: "num_end [newline]" by (simp add: num_end_def is_digit_def)
  have "p_val (2 * length (?t @ [newline]) + 2) ([] @ print_json False 0 v @ [newline]) = Some (v, [newline])"
    by (intro parsesD print_parses ok ws) (simp_all add: json_stringify_def)
  then show ?thesis by (simp add: json_parse_def json_stringify_def skip_ws_def is_json_ws_def)
qed

lemma head_text_props:
  assumes "crypto_ok L sk"
  shows "\<exists>h. readHead (Some (head_text L sk n hash)) = Inr (Some h)
     \<and> head_signature_ok L h (publicKeyFromPrivate L sk)
     \<and> property h ''seq'' = Some (JNum (int n)) \<and> property h ''hash'' = Some (JStr hash)"
  using crypto_okD(1) [OF assms]
  by (simp add: readHead_def head_text_def json_parse_newline head_signature_ok_def)

lemma last_line:
  assumes "event_ok L e" "payload_ok (ev_payload e)"
  shows "json_parse (json_stringify (event_json e)) = Some (event_json e)"
    "JournalEvent L (Some (event_json e)) = Some e"
  using assms by (simp_all add: json_parse_stringify json_ok_event JournalEvent_reads)

lemma read_lines_snoc:
  assumes "read_lines L ls = Inr evs" "event_ok L e" "payload_ok (ev_payload e)"
  shows "read_lines L (ls @ [json_stringify (event_json e)]) = Inr (evs @ [e])"
  using assms(1)
proof (induction ls arbitrary: evs)
  case Nil
  then show ?case using last_line [OF assms(2,3)] by simp
next
  case (Cons l ls)
  then show ?case by (auto split: option.splits simp: result_simps)
qed

lemma readEvents_append:
  assumes "readEvents L (jf_log J) = Inr evs" "pred_option lines_closed (jf_log J)"
    "event_ok L e" "payload_ok (ev_payload e)"
  shows "readEvents L (jf_log (append_log (json_stringify (event_json e) @ [newline]) J)) = Inr (evs @ [e])"
proof -
  define c where "c = (case jf_log J of None \<Rightarrow> [] | Some c \<Rightarrow> c)"
  have c: "lines_closed c" "read_lines L (nonblank_lines c) = Inr evs"
    using assms(1,2) by (auto simp: c_def readEvents_def lines_closed_def split: option.splits)
  have "nonblank_lines (c @ json_stringify (event_json e) @ [newline])
      = nonblank_lines c @ [json_stringify (event_json e)]"
    by (intro nonblank_lines_append c no_newline_stringify stringify_not_blank)
  then show ?thesis
    using read_lines_snoc [OF c(2) assms(3,4)]
    by (simp add: readEvents_def append_log_def c_def)
qed

text \<open>A call of \<open>append\<close> that succeeds, taken apart.\<close>

lemma append_Inr:
  assumes "journal_append L sk screen ts i J = (Inr e, J')"
  obtains evs where "readEvents L (jf_log J) = Inr evs"
    "e = sealed_event L sk i ((if evs = [] then 0 else ev_seq (last evs)) + 1) ts
       (if evs = [] then None else Some (ev_hash (last evs)))"
    "event_ok L e" "screen e = Inr ()"
    "J' = writeHead L sk (ev_seq e) (ev_hash e) (append_log (json_stringify (event_json e) @ [newline]) J)"
  using assms that
  by (auto simp: journal_append_def Let_def split: sum.splits if_splits)

lemma append_Inl: "journal_append L sk screen ts i J = (Inl err, J') \<Longrightarrow> J' = J"
  by (auto simp: journal_append_def Let_def split: sum.splits if_splits)

lemma writeHead_log [simp]: "jf_log (writeHead L sk n h J) = jf_log J"
  by (simp add: writeHead_def)

text \<open>The invariant of the journal.\<close>

lemma append_good:
  assumes "journal_good L sk J evs" "crypto_ok L sk" "payload_ok (ai_payload i)"
    "journal_append L sk screen ts i J = (Inr e, J')"
  shows "journal_good L sk J' (evs @ [e])"
proof -
  note good = assms(1) [unfolded journal_good_def]
  obtain evs' where evs': "readEvents L (jf_log J) = Inr evs'"
    "e = sealed_event L sk i ((if evs' = [] then 0 else ev_seq (last evs')) + 1) ts
       (if evs' = [] then None else Some (ev_hash (last evs')))"
    "event_ok L e"
    "J' = writeHead L sk (ev_seq e) (ev_hash e) (append_log (json_stringify (event_json e) @ [newline]) J)"
    using assms(4) by (rule append_Inr)
  have same: "evs' = evs" using evs'(1) good by simp
  note e = evs'(2) [unfolded same]
  have seq: "ev_seq e = 1 + length evs"
    using chain_ok_seq [of L "publicKeyFromPrivate L sk" None 1 evs] good e by auto
  have chain: "chain_ok L (publicKeyFromPrivate L sk) None 1 (evs @ [e])"
    unfolding chain_ok_snoc using good seq sealed_event_sealed [OF assms(3,2)] e by auto
  have read: "readEvents L (jf_log J') = Inr (evs @ [e])"
    using readEvents_append [of L J evs e] good evs'(3,4) assms(3) e by simp
  have "pred_option lines_closed (jf_log J')"
    using evs'(4) by (simp add: append_log_def)
  then show ?thesis
    using chain read evs'(4)
    by (simp add: journal_good_def append_log_def head_pins_def writeHead_def)
qed

text \<open>Where the log reads as a chain, a well-formed event that passes the guard is accepted.\<close>

lemma chain_ok_hashes:
  "chain_ok L pk prev n evs \<Longrightarrow> crypto_ok L sk \<Longrightarrow> e \<in> set evs \<Longrightarrow> Sha256Hex (ev_hash e)"
  by (induction evs arbitrary: prev n) (auto dest: crypto_okD)

lemma append_possible:
  assumes "readEvents L (jf_log J) = Inr evs" "chain_ok L (publicKeyFromPrivate L sk) None 1 evs" "crypto_ok L sk"
    "ai_kind i \<noteq> []" "lib_datetime L ts" "ai_correlation_id i = None" "ai_gsb_receipt_tip_hash i = None"
    "\<And>e. ev_kind e = ai_kind i \<Longrightarrow> screen e = Inr ()"
  shows "\<exists>e J'. journal_append L sk screen ts i J = (Inr e, J')"
proof -
  have "evs \<noteq> [] \<Longrightarrow> Sha256Hex (ev_hash (last evs))" using chain_ok_hashes [OF assms(2,3)] by simp
  then show ?thesis
    using assms(3-8) crypto_okD(2,3) [OF assms(3)] assms(1)
    by (auto simp: journal_append_def Let_def event_ok_def sealed_event_def)
qed

lemma append_succeeds:
  assumes "journal_good L sk J evs" "crypto_ok L sk" "ai_kind i \<noteq> []" "lib_datetime L ts"
    "ai_correlation_id i = None" "ai_gsb_receipt_tip_hash i = None" "\<And>e. screen e = Inr ()"
  shows "\<exists>e J'. journal_append L sk screen ts i J = (Inr e, J')"
  using assms by (intro append_possible) (auto simp: journal_good_def)

lemma journal_good_verifies:
  assumes "journal_good L sk J evs" "crypto_ok L sk" "evs \<noteq> []"
  shows "verifyJournalFile L path J (publicKeyFromPrivate L sk)
     = Inr \<lparr>vr_ok = True, vr_count = length evs, vr_errors = []\<rparr>"
proof -
  note good = assms(1) [unfolded journal_good_def]
  obtain c where c: "jf_log J = Some c" using good assms(3) by auto
  have parse: "parse_lines L 0 (nonblank_lines c) = (evs, [])"
    using good c by (simp add: readEvents_def read_lines_parse [where i = 0])
  have v: "verifyEvents L evs (publicKeyFromPrivate L sk) = []"
    using good by (simp add: verifyEvents_def verify_from_Nil)
  obtain h where h: "readHead (jf_head J) = Inr (Some h)" "head_signature_ok L h (publicKeyFromPrivate L sk)"
    "property h ''seq'' = Some (JNum (int (ev_seq (last evs))))"
    "property h ''hash'' = Some (JStr (ev_hash (last evs)))"
    using head_text_props [OF assms(2)] good assms(3) by (metis head_pins_def)
  show ?thesis using c parse v h assms(3) by (simp add: verifyJournalFile_def Let_def head_errors_def)
qed

section \<open>The head commits to the history\<close>

text \<open>Two events that agree on everything the hash covers, payloads up to the order of keys.\<close>

definition same_content :: "journal_event \<Rightarrow> journal_event \<Rightarrow> bool" where
  "same_content a b \<longleftrightarrow>
     sortDeep (JObj (ev_payload a)) = sortDeep (JObj (ev_payload b))
     \<and> a\<lparr>ev_payload := [], ev_signature := []\<rparr> = b\<lparr>ev_payload := [], ev_signature := []\<rparr>"

lemma json_opt_JStr_inject [simp]: "json_opt JStr a = json_opt JStr b \<longleftrightarrow> a = b"
  by (cases a; cases b) (auto simp: json_opt_def)

lemma actor_name_inject [simp]: "actor_name a = actor_name b \<longleftrightarrow> a = b"
  by (cases a; cases b) auto

lemma sortDeep_opt [simp]: "sortDeep (json_opt JStr a) = json_opt JStr a"
  by (cases a) (auto simp: json_opt_def)

lemma sortDeep_obj_map_of:
  assumes "obj_ok xs" "obj_ok ys" "sortDeep (JObj xs) = sortDeep (JObj ys)"
  shows "map_option sortDeep (map_of xs k) = map_option sortDeep (map_of ys k)"
proof -
  let ?f = "\<lambda>p. (fst p, sortDeep (snd p))"
  have "sort_key fst (map ?f xs) = sort_key fst (map ?f ys)" using assms(3) by simp
  then have "set (sort_key fst (map ?f xs)) = set (sort_key fst (map ?f ys))" by (rule arg_cong)
  then have "set (map ?f xs) = set (map ?f ys)" by (simp only: set_sort)
  moreover have "distinct (map fst (map ?f xs))" "distinct (map fst (map ?f ys))"
    using assms(1,2) by (simp_all add: comp_def)
  ultimately have "map_of (map ?f xs) = map_of (map ?f ys)" by (simp only: map_of_inject_set)
  moreover have "map_of (map ?f zs) k = map_option sortDeep (map_of zs k)" for zs
    by (induction zs) auto
  ultimately show ?thesis by metis
qed

lemma obj_ok_rest: "obj_ok (rest_obj e)"
  by (simp add: rest_obj_def event_obj_def)

lemma json_ok_rest: "payload_ok (ev_payload e) \<Longrightarrow> json_ok (JObj (rest_obj e))"
  using json_ok_event [of e] obj_ok_rest [of e] by (auto simp: event_json_def rest_obj_def list_all_iff)

lemma rest_content:
  assumes "sortDeep (JObj (rest_obj a)) = sortDeep (JObj (rest_obj b))" "ev_hash a = ev_hash b"
  shows "same_content a b"
proof -
  have eq: "map_option sortDeep (map_of (rest_obj a) k) = map_option sortDeep (map_of (rest_obj b) k)" for k
    by (rule sortDeep_obj_map_of [OF obj_ok_rest obj_ok_rest assms(1)])
  show ?thesis
    using eq [of "''seq''"] eq [of "''ts''"] eq [of "''prevHash''"] eq [of "''kind''"]
      eq [of "''actor''"] eq [of "''payload''"] eq [of "''tenant_id''"] eq [of "''signing_key_id''"]
      eq [of "''approval_binding_type''"] eq [of "''intendant_identity_uri''"]
      eq [of "''on_behalf_of''"] eq [of "''correlation_id''"] eq [of "''gsb_receipt_tip_hash''"] assms(2)
    by (simp add: rest_obj_def event_obj_def same_content_def del: sortDeep.simps(2))
qed

lemma canonical_obj_hd: "\<exists>t. canonicalJson (JObj kvs) = CHR ''{'' # t"
  by (simp add: canonicalJson_def json_stringify_def)

lemma Sha256Hex_not_brace: "Sha256Hex h \<Longrightarrow> h @ s \<noteq> CHR ''{'' # t"
  by (cases h) (auto simp: Sha256Hex_def is_hex_lower_def is_digit_def)

lemma canonical_bytes_inject:
  assumes "pred_option Sha256Hex p" "pred_option Sha256Hex q"
    "eventCanonicalBytes xs p = eventCanonicalBytes ys q"
  shows "p = q \<and> canonicalJson (JObj xs) = canonicalJson (JObj ys)"
proof -
  obtain s t where st: "canonicalJson (JObj xs) = CHR ''{'' # s" "canonicalJson (JObj ys) = CHR ''{'' # t"
    using canonical_obj_hd by metis
  show ?thesis
  proof (cases p; cases q)
    fix h k assume "p = Some h" "q = Some k"
    then show ?thesis using assms by (simp add: eventCanonicalBytes_def Sha256Hex_def)
  next
    fix h assume "p = Some h" "q = None"
    then show ?thesis using assms st Sha256Hex_not_brace by (auto simp: eventCanonicalBytes_def)
  next
    fix h assume "p = None" "q = Some h"
    then show ?thesis using assms st Sha256Hex_not_brace by (simp add: eventCanonicalBytes_def) metis
  qed (use assms in \<open>simp add: eventCanonicalBytes_def\<close>)
qed

lemma event_bytes_content:
  assumes "event_ok L a" "event_ok L b" "payload_ok (ev_payload a)" "payload_ok (ev_payload b)"
    "event_bytes a = event_bytes b" "ev_hash a = ev_hash b"
  shows "same_content a b"
proof (rule rest_content)
  have "canonicalJson (JObj (rest_obj a)) = canonicalJson (JObj (rest_obj b))"
    using canonical_bytes_inject [of "ev_prevHash a" "ev_prevHash b" "rest_obj a" "rest_obj b"] assms
    by (simp add: event_ok_def event_bytes_def)
  then show "sortDeep (JObj (rest_obj a)) = sortDeep (JObj (rest_obj b))"
    using canonicalJson_eq_iff json_ok_rest assms(3,4) by blast
qed (rule assms(6))

lemma same_content_prev: "same_content a b \<Longrightarrow> ev_prevHash a = ev_prevHash b"
  unfolding same_content_def by (cases a; cases b) simp

text \<open>Every event of a log that was read satisfies the schema.\<close>

lemma JournalEvent_event_ok: "JournalEvent L x = Some e \<Longrightarrow> event_ok L e"
proof -
  assume "JournalEvent L x = Some e"
  then obtain kvs where "z_positive (map_of kvs ''seq'') = Some (ev_seq e)"
    "z_refine (lib_datetime L) z_string (map_of kvs ''ts'') = Some (ev_ts e)"
    "z_nullable (z_refine Sha256Hex z_string) (map_of kvs ''prevHash'') = Some (ev_prevHash e)"
    "z_refine Sha256Hex z_string (map_of kvs ''hash'') = Some (ev_hash e)"
    "z_min1 (map_of kvs ''kind'') = Some (ev_kind e)"
    "z_refine Ed25519SignatureB64 z_string (map_of kvs ''signature'') = Some (ev_signature e)"
    "z_default None (z_nullable z_min1) (map_of kvs ''correlation_id'') = Some (ev_correlation_id e)"
    "z_default None (z_nullable (z_refine Sha256Hex z_string)) (map_of kvs ''gsb_receipt_tip_hash'')
       = Some (ev_gsb_receipt_tip_hash e)"
    unfolding JournalEvent_def z_strict_def
    by (elim z_objectE) (auto simp: case_Some_iff split: if_splits)
  note f = this
  have "pred_option Sha256Hex (ev_gsb_receipt_tip_hash e)"
    using z_defaultD [OF f(8)] z_nullable_refineD by (metis option.pred_inject(1))
  moreover have "ev_correlation_id e \<noteq> Some []"
    using z_defaultD [OF f(7)] by (auto simp: z_nullable_def dest!: z_min1D split: if_splits)
  ultimately show ?thesis
    using z_positiveD [OF f(1)] z_refineD [OF f(2)] z_nullable_refineD [OF f(3)] z_refineD [OF f(4)]
      z_min1D [OF f(5)] z_refineD [OF f(6)]
    by (simp add: event_ok_def)
qed

lemma read_lines_event_ok: "read_lines L ls = Inr evs \<Longrightarrow> e \<in> set evs \<Longrightarrow> event_ok L e"
  by (induction ls arbitrary: evs)
    (auto split: option.splits simp: result_simps dest: JournalEvent_event_ok)

lemma JournalEvent_payload_ok:
  assumes "JournalEvent L (Some j) = Some e" "json_ok j"
  shows "payload_ok (ev_payload e)"
proof -
  obtain kvs where kvs: "j = JObj kvs" "z_record (map_of kvs ''payload'') = Some (ev_payload e)"
    using assms(1) unfolding JournalEvent_def z_strict_def
    by (elim z_objectE) (auto simp: case_Some_iff split: if_splits)
  then have "map_of kvs ''payload'' = Some (JObj (ev_payload e))"
    by (auto simp: z_record_def split: option.splits json.splits)
  then have "(''payload'', JObj (ev_payload e)) \<in> set kvs" by (rule map_of_SomeD)
  moreover have "\<forall>p \<in> set kvs. json_ok (snd p)" using assms(2) kvs(1) by (simp add: list_all_iff)
  ultimately have "json_ok (JObj (ev_payload e))" by (metis snd_conv)
  then show ?thesis by (simp only: payload_ok_def)
qed

lemma read_lines_payload_ok: "read_lines L ls = Inr evs \<Longrightarrow> e \<in> set evs \<Longrightarrow> payload_ok (ev_payload e)"
  by (induction ls arbitrary: evs)
    (auto split: option.splits simp: result_simps, metis JournalEvent_payload_ok json_parse_ok)

text \<open>The tails of two chains agree backwards from equal last hashes.\<close>

lemma chains_agree:
  assumes "chain_ok L pk None n as" "chain_ok L pk None n bs" "length as = length bs"
    "as \<noteq> [] \<longrightarrow> ev_hash (last as) = ev_hash (last bs)"
    "\<forall>e \<in> set as \<union> set bs. event_ok L e \<and> payload_ok (ev_payload e)"
    "collision_free L (event_bytes ` (set as \<union> set bs))"
  shows "list_all2 same_content as bs"
  using assms(3,1,2,4,5,6)
proof (induction as bs rule: rev_induct2)
  case (4 a as b bs)
  have ca: "chain_ok L pk None n as" "ev_hash a = sha256Hex L (event_bytes a)"
    "ev_prevHash a = (if as = [] then None else Some (ev_hash (last as)))"
    using "4.prems"(2) unfolding chain_ok_snoc by auto
  have cb: "chain_ok L pk None n bs" "ev_hash b = sha256Hex L (event_bytes b)"
    "ev_prevHash b = (if bs = [] then None else Some (ev_hash (last bs)))"
    using "4.prems"(3) unfolding chain_ok_snoc by auto
  have h: "ev_hash a = ev_hash b" using "4.prems"(4) by simp
  have "event_bytes a = event_bytes b"
    using collision_freeD [OF "4.prems"(6), of "event_bytes a" "event_bytes b"] h ca(2) cb(2) by simp
  then have same: "same_content a b"
    using "4.prems"(5) h by (intro event_bytes_content) auto
  have "as \<noteq> [] \<longrightarrow> ev_hash (last as) = ev_hash (last bs)"
    using same_content_prev [OF same] ca(3) cb(3) "4.prems"(1) by (auto split: if_splits)
  moreover have "collision_free L (event_bytes ` (set as \<union> set bs))"
    using "4.prems"(6) by (auto simp: collision_free_def intro: inj_on_subset)
  ultimately have "list_all2 same_content as bs"
    using "4.IH" "4.prems" ca(1) cb(1) by auto
  then show ?case using same by (simp add: list_all2_appendI)
qed auto

lemma verify_ok_parts:
  assumes "verifyJournalFile L path J pk = Inr r" "vr_ok r"
  shows "\<exists>evs h. readEvents L (jf_log J) = Inr evs \<and> chain_ok L pk None 1 evs \<and> evs \<noteq> []
    \<and> readHead (jf_head J) = Inr (Some h) \<and> head_signature_ok L h pk
    \<and> property h ''seq'' = Some (JNum (int (ev_seq (last evs))))
    \<and> property h ''hash'' = Some (JStr (ev_hash (last evs)))
    \<and> vr_count r = length evs \<and> vr_errors r = []"
proof -
  obtain c where c: "jf_log J = Some c"
    using assms by (cases "jf_log J") (auto simp: verifyJournalFile_def)
  obtain evs errs where p: "parse_lines L 0 (nonblank_lines c) = (evs, errs)" by fastforce
  obtain head where h: "readHead (jf_head J) = Inr head"
    and r: "r = \<lparr>vr_ok = (errs @ verifyEvents L evs pk @ head_errors L head evs pk = []), vr_count = length evs,
        vr_errors = errs @ verifyEvents L evs pk @ head_errors L head evs pk\<rparr>"
    using assms(1) c p by (auto simp: verifyJournalFile_def Let_def result_simps)
  have nil: "errs = []" "verifyEvents L evs pk = []" "head_errors L head evs pk = []"
    using assms(2) r by simp_all
  have "readEvents L (jf_log J) = Inr evs"
    using p nil(1) c by (simp add: readEvents_def read_lines_parse [where i = 0])
  moreover have "chain_ok L pk None 1 evs" using nil(2) by (simp add: verifyEvents_def verify_from_Nil)
  ultimately show ?thesis
    using nil h r by (auto simp: head_errors_def split: option.splits if_splits)
qed

lemma read_events_ok:
  "readEvents L log = Inr evs \<Longrightarrow> e \<in> set evs \<Longrightarrow> event_ok L e \<and> payload_ok (ev_payload e)"
  by (auto simp: readEvents_def split: option.splits dest: read_lines_event_ok read_lines_payload_ok)

text \<open>
  C8: the signed head fixes the whole history. Two logs that both verify against the same
  head file hold the same events, in the same order, equal in everything the hash covers
  (payloads up to the order of keys): no edit, insertion, removal, reordering, truncation or
  extension of a verified log verifies again, unless two of the hashed texts collide.
\<close>

theorem head_fixes_history:
  assumes "verifyJournalFile L p1 J1 pk = Inr r1" "vr_ok r1"
    and "verifyJournalFile L p2 J2 pk = Inr r2" "vr_ok r2"
    and "jf_head J1 = jf_head J2"
    and "readEvents L (jf_log J1) = Inr evs1" "readEvents L (jf_log J2) = Inr evs2"
    and "collision_free L (event_bytes ` (set evs1 \<union> set evs2))"
  shows "list_all2 same_content evs1 evs2 \<and> vr_count r1 = vr_count r2"
proof -
  obtain h where 1: "chain_ok L pk None 1 evs1" "evs1 \<noteq> []" "readHead (jf_head J1) = Inr (Some h)"
    "property h ''seq'' = Some (JNum (int (ev_seq (last evs1))))"
    "property h ''hash'' = Some (JStr (ev_hash (last evs1)))" "vr_count r1 = length evs1"
    using verify_ok_parts [OF assms(1,2)] assms(6) by auto
  obtain k where 2: "chain_ok L pk None 1 evs2" "evs2 \<noteq> []" "readHead (jf_head J2) = Inr (Some k)"
    "property k ''seq'' = Some (JNum (int (ev_seq (last evs2))))"
    "property k ''hash'' = Some (JStr (ev_hash (last evs2)))" "vr_count r2 = length evs2"
    using verify_ok_parts [OF assms(3,4)] assms(7) by auto
  have hk: "h = k" using 1(3) 2(3) assms(5) by simp
  have len: "length evs1 = length evs2"
    using chain_ok_seq [OF 1(1,2)] chain_ok_seq [OF 2(1,2)] 1(4) 2(4) hk by simp
  have "list_all2 same_content evs1 evs2"
  proof (rule chains_agree [OF 1(1) 2(1) len _ _ assms(8)])
    show "evs1 \<noteq> [] \<longrightarrow> ev_hash (last evs1) = ev_hash (last evs2)" using 1(5) 2(5) hk by simp
    show "\<forall>e \<in> set evs1 \<union> set evs2. event_ok L e \<and> payload_ok (ev_payload e)"
      using read_events_ok assms(6,7) by blast
  qed
  then show ?thesis using 1(6) 2(6) len by simp
qed

section \<open>Properties of the journal\<close>

definition no_files :: journal_files where
  "no_files = \<lparr>jf_log = None, jf_head = None\<rparr>"

definition no_screen :: "journal_event \<Rightarrow> unit result" where
  "no_screen e = Inr ()"

abbreviation input_of :: "string \<Rightarrow> json obj \<Rightarrow> append_input" where
  "input_of k p \<equiv> \<lparr>ai_kind = k, ai_actor = claude_process, ai_payload = p,
     ai_intendant_identity_uri = None, ai_tenant_id = None, ai_correlation_id = None,
     ai_gsb_receipt_tip_hash = None\<rparr>"

text \<open>A sequence of calls, each with its reading of the clock; failed calls are skipped.\<close>

fun append_all ::
    "('sk, 'pk) crypto_lib \<Rightarrow> 'sk \<Rightarrow> (journal_event \<Rightarrow> unit result) \<Rightarrow> (string \<times> append_input) list \<Rightarrow>
     journal_files \<Rightarrow> journal_event list \<times> journal_files" where
  "append_all L sk screen [] J = ([], J)"
| "append_all L sk screen ((ts, i) # calls) J =
     (case journal_append L sk screen ts i J of
        (Inl _, J') \<Rightarrow> append_all L sk screen calls J'
      | (Inr e, J') \<Rightarrow> apfst ((#) e) (append_all L sk screen calls J'))"

lemma append_all_good:
  assumes "crypto_ok L sk"
  shows "journal_good L sk J evs \<Longrightarrow> \<forall>(ts, i) \<in> set calls. payload_ok (ai_payload i) \<Longrightarrow>
    append_all L sk screen calls J = (new, J') \<Longrightarrow> journal_good L sk J' (evs @ new)"
proof (induction calls arbitrary: J evs new)
  case (Cons c calls)
  obtain ts i where c: "c = (ts, i)" by (cases c)
  obtain r J1 where a: "journal_append L sk screen ts i J = (r, J1)" by fastforce
  have calls: "\<forall>(ts, i) \<in> set calls. payload_ok (ai_payload i)" using Cons.prems(2) by auto
  show ?case
  proof (cases r)
    case (Inl err)
    then show ?thesis
      using Cons.prems a c calls append_Inl [of L sk screen ts i J err J1] Cons.IH by simp
  next
    case (Inr e)
    obtain new' where n: "append_all L sk screen calls J1 = (new', J')" "new = e # new'"
      using Cons.prems(3) a c Inr by (cases "append_all L sk screen calls J1") auto
    have "journal_good L sk J1 (evs @ [e])"
      using append_good [OF Cons.prems(1) assms] Cons.prems(2) a c Inr by auto
    then have "journal_good L sk J' ((evs @ [e]) @ new')" by (rule Cons.IH [OF _ calls n(1)])
    then show ?thesis using n by simp
  qed
qed simp

lemma journal_good_no_files: "journal_good L sk no_files []"
  by (simp add: journal_good_def no_files_def readEvents_def)

text \<open>
  C9: whatever is appended to a new journal, with refused and failed appends in between, the
  files always hold exactly the accepted events in order, and the offline verifier accepts
  them with the public key alone and counts every one of them.
\<close>

theorem appended_journal_verifies:
  assumes "crypto_ok L sk" "\<forall>(ts, i) \<in> set calls. payload_ok (ai_payload i)"
    and "append_all L sk screen calls no_files = (evs, J)"
  shows "readEvents L (jf_log J) = Inr evs \<and>
    (evs \<noteq> [] \<longrightarrow> verifyJournalFile L path J (publicKeyFromPrivate L sk)
       = Inr \<lparr>vr_ok = True, vr_count = length evs, vr_errors = []\<rparr>)"
proof -
  have "journal_good L sk J ([] @ evs)"
    by (rule append_all_good [OF assms(1) journal_good_no_files assms(2,3)])
  then show ?thesis
    using journal_good_verifies [OF _ assms(1)] by (auto simp: journal_good_def)
qed

theorem appended_journal_verifies_witness:
  "readEvents toy_crypto (jf_log (snd (append_all toy_crypto () no_screen
      [(''t'', input_of ''session.start'' []), (''t'', input_of [] [])] no_files)))
   = Inr (fst (append_all toy_crypto () no_screen
      [(''t'', input_of ''session.start'' []), (''t'', input_of [] [])] no_files))"
  by (rule conjunct1 [OF appended_journal_verifies [OF toy_crypto_ok _ prod.collapse [symmetric]]])
    (simp add: payload_ok_def)

text \<open>
  Appending is possible exactly when the journal still reads, the sealed event satisfies
  the schema and the guard accepts it; otherwise the call throws and neither file changes. An
  accepted event is one new line at the end of the log, and nothing before it changes.
\<close>

theorem append_fail_closed:
  "journal_append L sk screen ts i J = (r, J') \<Longrightarrow>
   (case r of
      Inl err \<Rightarrow> J' = J
    | Inr e \<Rightarrow> screen e = Inr () \<and> event_ok L e \<and> ev_kind e = ai_kind i \<and> ev_payload e = ai_payload i
        \<and> (\<exists>evs. readEvents L (jf_log J) = Inr evs
             \<and> ev_seq e = (if evs = [] then 1 else ev_seq (last evs) + 1)
             \<and> ev_prevHash e = (if evs = [] then None else Some (ev_hash (last evs))))
        \<and> jf_log J' = Some ((case jf_log J of None \<Rightarrow> [] | Some c \<Rightarrow> c)
             @ json_stringify (event_json e) @ [newline])
        \<and> newline \<notin> set (json_stringify (event_json e)))"
proof -
  assume a: "journal_append L sk screen ts i J = (r, J')"
  show ?thesis
  proof (cases r)
    case (Inl err)
    then show ?thesis using a append_Inl by simp
  next
    case (Inr e)
    obtain evs where e: "readEvents L (jf_log J) = Inr evs"
      "e = sealed_event L sk i ((if evs = [] then 0 else ev_seq (last evs)) + 1) ts
       (if evs = [] then None else Some (ev_hash (last evs)))"
      "event_ok L e" "screen e = Inr ()"
      "J' = writeHead L sk (ev_seq e) (ev_hash e) (append_log (json_stringify (event_json e) @ [newline]) J)"
      using a Inr append_Inr by (metis (no_types))
    have "ev_seq e = (if evs = [] then 1 else ev_seq (last evs) + 1)"
      "ev_prevHash e = (if evs = [] then None else Some (ev_hash (last evs)))"
      "ev_kind e = ai_kind i" "ev_payload e = ai_payload i"
      using e(2) by simp_all
    then show ?thesis using e(1,3-5) Inr no_newline_stringify by (simp add: append_log_def)
  qed
qed

theorem append_fail_closed_witness:
  "jf_log (snd (journal_append toy_crypto () (\<lambda>_. Inl (Error ''no'')) ''t'' (input_of ''k'' []) no_files)) = None"
proof -
  let ?a = "journal_append toy_crypto () (\<lambda>_. Inl (Error ''no'')) ''t'' (input_of ''k'' []) no_files"
  obtain r J' where a: "?a = (r, J')" by fastforce
  from append_fail_closed [OF a] show ?thesis
    using a by (cases r) (auto simp: no_files_def)
qed


lemma append_first:
  assumes "crypto_ok L sk" "ai_kind i \<noteq> []" "lib_datetime L ts" "ai_correlation_id i = None"
    "ai_gsb_receipt_tip_hash i = None"
  shows "journal_append L sk no_screen ts i no_files =
    (Inr (sealed_event L sk i 1 ts None),
     writeHead L sk 1 (ev_hash (sealed_event L sk i 1 ts None))
       (append_log (json_stringify (event_json (sealed_event L sk i 1 ts None)) @ [newline]) no_files))"
proof -
  have "event_ok L (sealed_event L sk i 1 ts None)"
    using assms crypto_okD(2,3) [OF assms(1)] by (simp add: event_ok_def sealed_event_def Let_def)
  then show ?thesis
    by (simp add: journal_append_def Let_def no_screen_def no_files_def readEvents_def)
qed

theorem head_fixes_history_witness:
  "\<exists>(J :: journal_files) evs. evs \<noteq> [] \<and> readEvents toy_crypto (jf_log J) = Inr evs \<and> list_all2 same_content evs evs"
proof -
  obtain e J where a: "journal_append toy_crypto () no_screen ''t'' (input_of ''k'' []) no_files = (Inr e, J)"
    using append_first [OF toy_crypto_ok, of "input_of ''k'' []" "''t''"] toy_datetime by simp
  have good: "journal_good toy_crypto () J [e]"
    using append_good [OF journal_good_no_files toy_crypto_ok _ a] by (simp add: payload_ok_def)
  then have v: "verifyJournalFile toy_crypto [] J (publicKeyFromPrivate toy_crypto ())
     = Inr \<lparr>vr_ok = True, vr_count = 1, vr_errors = []\<rparr>"
    using journal_good_verifies [OF _ toy_crypto_ok, of J "[e]"] by simp
  have r: "readEvents toy_crypto (jf_log J) = Inr [e]" using good by (simp add: journal_good_def)
  have cf: "collision_free toy_crypto (event_bytes ` (set [e] \<union> set [e]))"
    unfolding collision_free_def by simp
  have ok: "vr_ok \<lparr>vr_ok = True, vr_count = 1, vr_errors = []\<rparr>" by simp
  have h: "jf_head J = jf_head J" by (rule refl)
  note t = head_fixes_history [OF v ok v ok h r r cf]
  have "list_all2 same_content [e] [e]"
    by (rule conjunct1 [OF t])
  then show ?thesis using r by blast
qed

end
