(* ===== verification/CrossChain.thy ===== *)
theory CrossChain
  imports Journal
begin

text \<open>
  \<open>src/journal/cross-chain.ts\<close>: the projection of one governed run out of the events of
  the journal, with the distinct governance tips in the order they were first seen.
\<close>

record action_tip =
  at_seq :: nat
  at_kind :: string
  at_ts :: string
  at_gsbReceiptTipHash :: "string option"

record tip_projection =
  tp_correlationId :: string
  tp_actions :: "action_tip list"
  tp_gsbReceiptTips :: "string list"

definition action_of :: "journal_event \<Rightarrow> action_tip" where
  "action_of ev = \<lparr>at_seq = ev_seq ev, at_kind = ev_kind ev, at_ts = ev_ts ev,
     at_gsbReceiptTipHash = ev_gsb_receipt_tip_hash ev\<rparr>"

text \<open>The loop; \<open>tips\<close> is both the list of the tips and, as a set, the tips seen so far.\<close>

fun project_events ::
    "string \<Rightarrow> action_tip list \<Rightarrow> string list \<Rightarrow> journal_event list \<Rightarrow> action_tip list \<times> string list" where
  "project_events cid actions tips [] = (actions, tips)"
| "project_events cid actions tips (ev # evs) =
     (if ev_correlation_id ev \<noteq> Some cid then project_events cid actions tips evs
      else project_events cid (actions @ [action_of ev])
        (case ev_gsb_receipt_tip_hash ev of
           None \<Rightarrow> tips
         | Some tip \<Rightarrow> if tip \<in> set tips then tips else tips @ [tip]) evs)"

definition reconstructGovernanceTipsAt :: "journal_event list \<Rightarrow> string \<Rightarrow> tip_projection result" where
  "reconstructGovernanceTipsAt events correlationId =
     (if str_trim correlationId = []
      then Inl (Error ''reconstructGovernanceTipsAt: correlationId must be a non-empty, non-blank id'')
      else (let p = project_events correlationId [] [] events in
        Inr \<lparr>tp_correlationId = correlationId, tp_actions = fst p, tp_gsbReceiptTips = snd p\<rparr>))"

definition correlated :: "string \<Rightarrow> journal_event list \<Rightarrow> journal_event list" where
  "correlated cid evs = filter (\<lambda>ev. ev_correlation_id ev = Some cid) evs"

text \<open>The tips of a list of events, in order, repetitions included.\<close>

fun tips_of :: "journal_event list \<Rightarrow> string list" where
  "tips_of [] = []"
| "tips_of (ev # evs) = (case ev_gsb_receipt_tip_hash ev of None \<Rightarrow> tips_of evs | Some t \<Rightarrow> t # tips_of evs)"

lemma project_events_eq:
  "project_events cid actions tips evs =
     (actions @ map action_of (correlated cid evs), tips @ first_seen tips (tips_of (correlated cid evs)))"
proof (induction evs arbitrary: actions tips)
  case (Cons ev evs)
  have "first_seen (tips @ [t]) xs = first_seen (t # tips) xs" for t xs
    by (rule first_seen_cong) auto
  then show ?case using Cons by (auto simp: correlated_def split: option.splits)
qed (simp add: correlated_def)

text \<open>
  The projection of a run holds exactly the events that carry its correlation id, in chain
  order, with exactly the tips they observed, each once and in the order first seen; a blank
  id throws instead of giving an empty run.
\<close>

theorem projection_exact:
  "reconstructGovernanceTipsAt events cid =
     (if \<forall>c \<in> set cid. is_ws c
      then Inl (Error ''reconstructGovernanceTipsAt: correlationId must be a non-empty, non-blank id'')
      else Inr \<lparr>tp_correlationId = cid, tp_actions = map action_of (correlated cid events),
             tp_gsbReceiptTips = first_seen [] (tips_of (correlated cid events))\<rparr>)
   \<and> distinct (first_seen [] (tips_of (correlated cid events)))
   \<and> set (first_seen [] (tips_of (correlated cid events))) = set (tips_of (correlated cid events))
   \<and> subseq (first_seen [] (tips_of (correlated cid events))) (tips_of (correlated cid events))"
  by (simp add: set_first_seen distinct_first_seen subseq_first_seen reconstructGovernanceTipsAt_def str_trim_Nil_iff project_events_eq Let_def)

theorem projection_exact_witness:
  "\<exists>p. reconstructGovernanceTipsAt [] ''run-1'' = Inr p \<and> tp_actions p = []"
  using projection_exact [of "[]" "''run-1''"] by (simp add: is_ws_def correlated_def)

end
