(* ===== verification/Verifier.thy ===== *)
theory Verifier
  imports Contracts
begin

text \<open>
  \<open>src/tenants/tenant.ts\<close>, the lock on a single tenant, and \<open>src/verify\<close>, the two
  implementations of the contract \<open>src/contracts/verifier.ts\<close>: the Ed25519 verifier over
  the operator's trusted keys and the one that trusts nothing. The contract is the locale
  \<open>verifier_contract\<close>: a verdict that names an identity is backed by a trusted key, and an
  identity is never minted otherwise.
\<close>

section \<open>Tenants\<close>

definition SINGLE_TENANT :: string where
  "SINGLE_TENANT = ''v0-single-operator''"

record tenant_context =
  tx_tenantId :: string
  tx_operatorName :: "string option"

definition tenant_violation :: "string \<Rightarrow> string" where
  "tenant_violation t = ''[FAIL-CLOSED] tenant context violation: tenantId must be ''
     @ [CHR 0x22] @ SINGLE_TENANT @ [CHR 0x22] @ '', got '' @ [CHR 0x22] @ t @ [CHR 0x22]
     @ ''. Hosted multi-tenant is locked until v0.3+ (047-AT-ADR) '' @ [CHR 0xE2, CHR 0x80, CHR 0x94]
     @ '' a hosted deployment was attempted on v0 code, or config loading has a bug.''"

definition assertTenantContext :: "tenant_context \<Rightarrow> unit result" where
  "assertTenantContext ctx =
     (if tx_tenantId ctx \<noteq> SINGLE_TENANT then Inl (Error (tenant_violation (tx_tenantId ctx)))
      else Inr ())"

definition defaultTenantContext :: tenant_context where
  "defaultTenantContext = \<lparr>tx_tenantId = SINGLE_TENANT, tx_operatorName = None\<rparr>"

lemma assertTenantContext_default [simp]: "assertTenantContext defaultTenantContext = Inr ()"
  by (simp add: assertTenantContext_def defaultTenantContext_def)

section \<open>Verdicts\<close>

datatype verify_failure = bad_signature | unknown_key | malformed_manifest | malformed_signature

fun failure_name :: "verify_failure \<Rightarrow> string" where
  "failure_name bad_signature = ''bad-signature''"
| "failure_name unknown_key = ''unknown-key''"
| "failure_name malformed_manifest = ''malformed-manifest''"
| "failure_name malformed_signature = ''malformed-signature''"

datatype verify_verdict = Verified intendant_identity | Unverified verify_failure

type_synonym verifier = "intendant_manifest \<Rightarrow> string \<Rightarrow> verify_verdict"

section \<open>The Ed25519 verifier\<close>

definition ed25519Fingerprint :: "('sk, 'pk) crypto_lib \<Rightarrow> 'pk \<Rightarrow> string" where
  "ed25519Fingerprint L publicKey = take 16 (sha256Hex L (lib_export_public L publicKey))"

definition intendantEd25519Uri :: "string \<Rightarrow> string \<Rightarrow> string \<Rightarrow> string" where
  "intendantEd25519Uri name version fingerprint =
     ''agp-intendant:ed25519/'' @ name @ ''@'' @ version @ ''/'' @ fingerprint"

definition signManifest :: "('sk, 'pk) crypto_lib \<Rightarrow> intendant_manifest \<Rightarrow> 'sk \<Rightarrow> string result" where
  "signManifest L manifest privateKey =
     (if manifest_ok manifest
      then Inr (signEd25519 L (canonicalJson (manifest_json manifest)) privateKey)
      else Inl (ZodError ''IntendantManifest''))"

text \<open>The loop over the trusted keys: the first that verifies.\<close>

definition Ed25519Verifier_verify :: "('sk, 'pk) crypto_lib \<Rightarrow> 'pk list \<Rightarrow> verifier" where
  "Ed25519Verifier_verify L trustedKeys manifest signatureB64 =
     (if \<not> manifest_ok manifest then Unverified malformed_manifest
      else if base64_length signatureB64 \<noteq> 64 then Unverified malformed_signature
      else if trustedKeys = [] then Unverified unknown_key
      else (case find (\<lambda>key. verifyEd25519 L (canonicalJson (manifest_json manifest)) signatureB64 key)
              trustedKeys of
              Some key \<Rightarrow> Verified \<lparr>ii_name = im_name manifest, ii_version = im_version manifest,
                ii_uri = Some (intendantEd25519Uri (im_name manifest) (im_version manifest)
                  (ed25519Fingerprint L key))\<rparr>
            | None \<Rightarrow> Unverified bad_signature))"

text \<open>A missing key file and one that does not parse give no trusted key.\<close>

definition loadEd25519Verifier :: "('sk, 'pk) crypto_lib \<Rightarrow> string option \<Rightarrow> verifier" where
  "loadEd25519Verifier L content =
     (case content of
        None \<Rightarrow> Ed25519Verifier_verify L []
      | Some pem \<Rightarrow> (case loadPublicKey L pem of
                        Inr key \<Rightarrow> Ed25519Verifier_verify L [key]
                      | Inl _ \<Rightarrow> Ed25519Verifier_verify L []))"

definition NoopVerifier_verify :: verifier where
  "NoopVerifier_verify manifest signatureB64 = Unverified unknown_key"

section \<open>The contract\<close>

text \<open>
  \<open>trusts m s k\<close>: key \<open>k\<close> of the trust set vouches for manifest \<open>m\<close> with the signature \<open>s\<close>.
\<close>

locale verifier_contract =
  fixes verify :: verifier
    and trusts :: "intendant_manifest \<Rightarrow> string \<Rightarrow> 'k \<Rightarrow> bool"
    and uri_of :: "intendant_manifest \<Rightarrow> 'k \<Rightarrow> string"
  assumes verified_trusted: "verify m s = Verified i \<Longrightarrow>
      \<exists>k. trusts m s k \<and> i = \<lparr>ii_name = im_name m, ii_version = im_version m, ii_uri = Some (uri_of m k)\<rparr>"
    and trusted_verified: "trusts m s k \<Longrightarrow> \<exists>i. verify m s = Verified i"
begin

lemma verified_iff: "(\<exists>i. verify m s = Verified i) \<longleftrightarrow> (\<exists>k. trusts m s k)"
  using verified_trusted trusted_verified by blast

lemma unverified: "(\<And>k. \<not> trusts m s k) \<Longrightarrow> \<exists>r. verify m s = Unverified r"
  using verified_iff by (metis verify_verdict.exhaust)

lemma verified_uri: "verify m s = Verified i \<Longrightarrow> \<exists>k. ii_uri i = Some (uri_of m k)"
  using verified_trusted by fastforce

end

definition key_vouches :: "('sk, 'pk) crypto_lib \<Rightarrow> 'pk list \<Rightarrow> intendant_manifest \<Rightarrow> string \<Rightarrow> 'pk \<Rightarrow> bool" where
  "key_vouches L keys m s k \<longleftrightarrow> manifest_ok m \<and> base64_length s = 64 \<and> k \<in> set keys
     \<and> verifyEd25519 L (canonicalJson (manifest_json m)) s k"

interpretation ed25519: verifier_contract "Ed25519Verifier_verify L keys" "key_vouches L keys"
  "\<lambda>m k. intendantEd25519Uri (im_name m) (im_version m) (ed25519Fingerprint L k)"
  for L :: "('sk, 'pk) crypto_lib" and keys :: "'pk list"
proof
  fix m s i
  assume "Ed25519Verifier_verify L keys m s = Verified i"
  then show "\<exists>k. key_vouches L keys m s k \<and> i = \<lparr>ii_name = im_name m, ii_version = im_version m,
      ii_uri = Some (intendantEd25519Uri (im_name m) (im_version m) (ed25519Fingerprint L k))\<rparr>"
    by (auto simp: Ed25519Verifier_verify_def key_vouches_def find_Some_iff in_set_conv_nth
        split: if_splits option.splits)
next
  fix m s k
  assume k: "key_vouches L keys m s k"
  then have "find (\<lambda>key. verifyEd25519 L (canonicalJson (manifest_json m)) s key) keys \<noteq> None"
    by (auto simp: key_vouches_def find_None_iff)
  then show "\<exists>i. Ed25519Verifier_verify L keys m s = Verified i"
    using k by (auto simp: Ed25519Verifier_verify_def key_vouches_def)
qed

interpretation noop: verifier_contract NoopVerifier_verify "\<lambda>_ _ (_ :: unit). False" "\<lambda>_ _. []"
  by unfold_locales (auto simp: NoopVerifier_verify_def)

text \<open>
  The Ed25519 verifier accepts a manifest exactly when some trusted key verifies the
  signature over its canonical bytes, and then mints a URI with the fingerprint of a key that
  did; a key file that is missing or unreadable trusts nothing.
\<close>

theorem ed25519_verifier_sound:
  "((\<exists>i. Ed25519Verifier_verify L keys m s = Verified i) \<longleftrightarrow>
      manifest_ok m \<and> base64_length s = 64
      \<and> (\<exists>k \<in> set keys. verifyEd25519 L (canonicalJson (manifest_json m)) s k))
   \<and> (\<forall>i. Ed25519Verifier_verify L keys m s = Verified i \<longrightarrow>
        ii_name i = im_name m \<and> ii_version i = im_version m
        \<and> (\<exists>k \<in> set keys. verifyEd25519 L (canonicalJson (manifest_json m)) s k
             \<and> ii_uri i = Some (intendantEd25519Uri (im_name m) (im_version m) (ed25519Fingerprint L k))))
   \<and> (\<forall>content. pred_option (\<lambda>pem. lib_pem_public L pem = None) content \<longrightarrow>
        \<not> (\<exists>i. loadEd25519Verifier L content m s = Verified i))"
proof (intro conjI allI impI)
  show "(\<exists>i. Ed25519Verifier_verify L keys m s = Verified i) \<longleftrightarrow>
      manifest_ok m \<and> base64_length s = 64
      \<and> (\<exists>k \<in> set keys. verifyEd25519 L (canonicalJson (manifest_json m)) s k)"
    unfolding ed25519.verified_iff by (auto simp: key_vouches_def)
next
  fix i assume "Ed25519Verifier_verify L keys m s = Verified i"
  from ed25519.verified_trusted [OF this]
  show "ii_name i = im_name m" "ii_version i = im_version m"
    "\<exists>k \<in> set keys. verifyEd25519 L (canonicalJson (manifest_json m)) s k
             \<and> ii_uri i = Some (intendantEd25519Uri (im_name m) (im_version m) (ed25519Fingerprint L k))"
    by (auto simp: key_vouches_def)
next
  fix content assume "pred_option (\<lambda>pem. lib_pem_public L pem = None) content"
  then have "loadEd25519Verifier L content = Ed25519Verifier_verify L []"
    by (auto simp: loadEd25519Verifier_def loadPublicKey_def split: option.splits)
  then show "\<not> (\<exists>i. loadEd25519Verifier L content m s = Verified i)"
    by (simp add: ed25519.verified_iff key_vouches_def)
qed

text \<open>
  A manifest signed with \<open>signManifest\<close> is verified by every trust set that holds the
  public half of the signing key.
\<close>

theorem sign_manifest_verifies:
  assumes "crypto_ok L sk" "signManifest L m sk = Inr s" "publicKeyFromPrivate L sk \<in> set keys"
  shows "\<exists>i. Ed25519Verifier_verify L keys m s = Verified i"
proof -
  have "key_vouches L keys m s (publicKeyFromPrivate L sk)"
    using assms crypto_okD(1,2) [OF assms(1)] signature_length
    by (auto simp: key_vouches_def signManifest_def split: if_splits)
  then show ?thesis by (rule ed25519.trusted_verified)
qed

theorem sign_manifest_verifies_witness:
  "\<exists>i. Ed25519Verifier_verify toy_crypto [()] \<lparr>im_name = ''claude-code'', im_version = ''2''\<rparr>
     (signEd25519 toy_crypto (canonicalJson (manifest_json \<lparr>im_name = ''claude-code'', im_version = ''2''\<rparr>)) ())
     = Verified i"
  by (rule sign_manifest_verifies [OF toy_crypto_ok])
    (simp_all add: signManifest_def manifest_ok_def)

theorem ed25519_verifier_sound_witness:
  "\<not> (\<exists>i. loadEd25519Verifier toy_crypto None \<lparr>im_name = ''a'', im_version = ''1''\<rparr> ''x'' = Verified i)"
  using ed25519_verifier_sound [of toy_crypto "[]" "\<lparr>im_name = ''a'', im_version = ''1''\<rparr>" "''x''"]
  by (metis option.pred_inject(1))

end
