(* ===== verification/Credentials.thy ===== *)
theory Credentials
  imports Json
begin

text \<open>
  \<open>src/sandbox/credentials.ts\<close>: the placeholders \<open>{{secret:NAME}}\<close> a call may carry, their
  resolution against a vault (fail-closed), the redaction of tool output and the guard at the
  outbound boundaries.
\<close>

section \<open>Vaults\<close>

record vault =
  vault_get :: "string \<Rightarrow> string option"
  vault_values :: "string list"

definition SECRET_ENV_PREFIX :: string where
  "SECRET_ENV_PREFIX = ''AGP_SECRET_''"

definition EnvSecretVault :: "(string \<times> string option) list \<Rightarrow> vault" where
  "EnvSecretVault env =
     \<lparr>vault_get = (\<lambda>name. case map_of env (SECRET_ENV_PREFIX @ name) of Some v \<Rightarrow> v | None \<Rightarrow> None),
      vault_values = map (\<lambda>p. the (snd p))
        (filter (\<lambda>p. prefix SECRET_ENV_PREFIX (fst p) \<and> snd p \<noteq> None \<and> snd p \<noteq> Some []) env)\<rparr>"

section \<open>Placeholders\<close>

definition is_name_char :: "char \<Rightarrow> bool" where
  "is_name_char c \<longleftrightarrow> is_alnum c \<or> c = CHR ''_''"

text \<open>
  A match of the pattern at the start of a text: the name and what follows. The closing
  braces are no name characters, so the longest run of name characters is the only candidate.
\<close>

definition placeholder_at :: "string \<Rightarrow> (string \<times> string) option" where
  "placeholder_at s =
     (if prefix ''{{secret:'' s then
        (let r = drop 9 s; name = takeWhile is_name_char r; r' = dropWhile is_name_char r
         in if name \<noteq> [] \<and> prefix ''}}'' r' then Some (name, drop 2 r') else None)
      else None)"

lemma placeholder_at_Some:
  "placeholder_at s = Some (name, rest) \<Longrightarrow> s = ''{{secret:'' @ name @ ''}}'' @ rest"
  by (auto simp: placeholder_at_def Let_def prefix_def split: if_splits)
    (metis append.assoc append_Cons append_Nil takeWhile_dropWhile_id)

text \<open>The text cut into its characters (\<open>Inl\<close>) and the names of its placeholders (\<open>Inr\<close>).\<close>

function tokens :: "string \<Rightarrow> (char + string) list" where
  "tokens s =
     (case s of
        [] \<Rightarrow> []
      | c # t \<Rightarrow>
          (case placeholder_at s of
             Some (name, rest) \<Rightarrow> Inr name # tokens rest
           | None \<Rightarrow> Inl c # tokens t))"
  by pat_completeness auto
termination
  by (relation "measure length") (auto dest: placeholder_at_Some)

declare tokens.simps [simp del]

definition placeholder_names :: "string \<Rightarrow> string list" where
  "placeholder_names s = concat (map (\<lambda>t. case t of Inr n \<Rightarrow> [n] | Inl _ \<Rightarrow> []) (tokens s))"

text \<open>The strings of a value, in the order of the walk; the keys of objects are not visited.\<close>

fun value_strings :: "json \<Rightarrow> string list" where
  "value_strings (JStr s) = [s]"
| "value_strings (JArr vs) = concat (map value_strings vs)"
| "value_strings (JObj kvs) = concat (map (\<lambda>p. value_strings (snd p)) kvs)"
| "value_strings _ = []"

definition findPlaceholders :: "json \<Rightarrow> string list" where
  "findPlaceholders v = first_seen [] (concat (map placeholder_names (value_strings v)))"

definition resolve_token :: "vault \<Rightarrow> char + string \<Rightarrow> string result" where
  "resolve_token vault t =
     (case t of
        Inl c \<Rightarrow> Inr [c]
      | Inr name \<Rightarrow> of_option (Error (''unresolved secret placeholder: '' @ name)) (vault_get vault name))"

definition resolveString :: "string \<Rightarrow> vault \<Rightarrow> string result" where
  "resolveString s vault = res_bind (res_map (resolve_token vault) (tokens s)) (\<lambda>ps. Inr (concat ps))"

fun resolvePlaceholders :: "vault \<Rightarrow> json \<Rightarrow> json result" where
  "resolvePlaceholders vault (JStr s) = res_bind (resolveString s vault) (\<lambda>t. Inr (JStr t))"
| "resolvePlaceholders vault (JArr vs) =
     res_bind (res_map (resolvePlaceholders vault) vs) (\<lambda>ws. Inr (JArr ws))"
| "resolvePlaceholders vault (JObj kvs) =
     res_bind (res_map (\<lambda>p. res_bind (resolvePlaceholders vault (snd p)) (\<lambda>w. Inr (fst p, w))) kvs)
       (\<lambda>ws. Inr (JObj ws))"
| "resolvePlaceholders vault v = Inr v"

definition resolvedSecretValues :: "json \<Rightarrow> vault \<Rightarrow> string list" where
  "resolvedSecretValues v vault =
     first_seen [] (filter (\<lambda>s. s \<noteq> []) (List.map_filter (vault_get vault) (findPlaceholders v)))"

section \<open>Redaction and the outbound guard\<close>

definition REDACTION :: string where
  "REDACTION = ''***''"

definition redactString :: "string list \<Rightarrow> string \<Rightarrow> string" where
  "redactString secrets s = foldl (\<lambda>out secret. str_join REDACTION (str_split secret out)) s secrets"

fun redact_walk :: "string list \<Rightarrow> json \<Rightarrow> json" where
  "redact_walk secrets (JStr s) = JStr (redactString secrets s)"
| "redact_walk secrets (JArr vs) = JArr (map (redact_walk secrets) vs)"
| "redact_walk secrets (JObj kvs) = JObj (map (\<lambda>p. (fst p, redact_walk secrets (snd p))) kvs)"
| "redact_walk secrets v = v"

definition redactSecrets :: "json \<Rightarrow> string list \<Rightarrow> json" where
  "redactSecrets value secretValues =
     (let nonEmpty = filter (\<lambda>s. s \<noteq> []) secretValues in
      if nonEmpty = [] then value else redact_walk nonEmpty value)"

definition assertNoSecretValues :: "json \<Rightarrow> string list \<Rightarrow> string \<Rightarrow> unit result" where
  "assertNoSecretValues value secretValues boundary =
     (let nonEmpty = filter (\<lambda>s. s \<noteq> []) secretValues in
      if nonEmpty = [] then Inr ()
      else if list_ex (\<lambda>v. list_ex (\<lambda>secret. sublist secret v) nonEmpty) (value_strings value)
      then Inl (SecretExfiltrationError boundary)
      else Inr ())"

section \<open>Resolution fails closed\<close>

lemma resolve_token_ok: "(\<exists>s. resolve_token vault t = Inr s) \<longleftrightarrow> (\<forall>n. t = Inr n \<longrightarrow> vault_get vault n \<noteq> None)"
  by (cases t) (auto simp: resolve_token_def result_simps)

lemma resolveString_ok:
  "(\<exists>t. resolveString s vault = Inr t) \<longleftrightarrow> (\<forall>n \<in> set (placeholder_names s). vault_get vault n \<noteq> None)"
proof -
  have "(\<exists>t. resolveString s vault = Inr t) \<longleftrightarrow> (\<exists>ps. res_map (resolve_token vault) (tokens s) = Inr ps)"
    by (auto simp: resolveString_def result_simps)
  also have "\<dots> \<longleftrightarrow> (\<forall>t \<in> set (tokens s). \<forall>n. t = Inr n \<longrightarrow> vault_get vault n \<noteq> None)"
    by (simp only: res_map_ok resolve_token_ok)
  also have "\<dots> \<longleftrightarrow> (\<forall>n \<in> set (placeholder_names s). vault_get vault n \<noteq> None)"
    by (force simp: placeholder_names_def split: sum.splits)
  finally show ?thesis .
qed

lemma resolve_ok:
  "(\<exists>w. resolvePlaceholders vault v = Inr w) \<longleftrightarrow>
   (\<forall>s \<in> set (value_strings v). \<forall>n \<in> set (placeholder_names s). vault_get vault n \<noteq> None)"
proof (induction v)
  case (JStr s)
  then show ?case using resolveString_ok [of s vault] by (auto simp: result_simps)
next
  case (JArr vs)
  have "(\<exists>w. resolvePlaceholders vault (JArr vs) = Inr w) \<longleftrightarrow>
      (\<exists>ws. res_map (resolvePlaceholders vault) vs = Inr ws)"
    by (auto simp: result_simps)
  then show ?case using JArr by (simp add: res_map_ok)
next
  case (JObj kvs)
  have IH: "(\<exists>w. resolvePlaceholders vault (snd p) = Inr w) \<longleftrightarrow>
      (\<forall>s \<in> set (value_strings (snd p)). \<forall>n \<in> set (placeholder_names s). vault_get vault n \<noteq> None)"
    if "p \<in> set kvs" for p
    using JObj that by (cases p) auto
  have "(\<exists>w. resolvePlaceholders vault (JObj kvs) = Inr w) \<longleftrightarrow>
      (\<exists>ws. res_map (\<lambda>p. res_bind (resolvePlaceholders vault (snd p)) (\<lambda>w. Inr (fst p, w))) kvs = Inr ws)"
    by (auto simp: result_simps)
  also have "\<dots> \<longleftrightarrow> (\<forall>p \<in> set kvs. \<exists>w. resolvePlaceholders vault (snd p) = Inr w)"
    by (simp add: res_map_ok result_simps)
  also have "\<dots> \<longleftrightarrow> (\<forall>p \<in> set kvs. \<forall>s \<in> set (value_strings (snd p)). \<forall>n \<in> set (placeholder_names s). vault_get vault n \<noteq> None)"
    by (intro ball_cong refl IH)
  finally show ?case by simp
qed simp_all

lemma resolve_token_Inl:
  "resolve_token vault t = Inl e \<Longrightarrow>
   \<exists>n. t = Inr n \<and> vault_get vault n = None \<and> e = Error (''unresolved secret placeholder: '' @ n)"
proof (cases t)
  case (Inr n)
  assume "resolve_token vault t = Inl e"
  then show ?thesis using Inr by (cases "vault_get vault n") (simp_all add: resolve_token_def)
qed (simp add: resolve_token_def)

lemma resolve_error:
  "resolvePlaceholders vault v = Inl e \<Longrightarrow>
   \<exists>n \<in> set (findPlaceholders v). vault_get vault n = None \<and> e = Error (''unresolved secret placeholder: '' @ n)"
proof -
  assume r: "resolvePlaceholders vault v = Inl e"
  have str: "\<exists>n \<in> set (placeholder_names s). vault_get vault n = None
      \<and> e = Error (''unresolved secret placeholder: '' @ n)" if a: "resolveString s vault = Inl e" for s e
  proof -
    obtain t where t: "t \<in> set (tokens s)" "resolve_token vault t = Inl e"
      using a res_map_Inl by (fastforce simp: resolveString_def result_simps)
    then obtain n where "t = Inr n" "vault_get vault n = None" "e = Error (''unresolved secret placeholder: '' @ n)"
      using resolve_token_Inl by blast
    then show ?thesis using t(1) by (force simp: placeholder_names_def)
  qed
  have "\<exists>s \<in> set (value_strings v). resolveString s vault = Inl e"
    using r
  proof (induction v)
    case (JArr vs)
    then obtain x where x: "x \<in> set vs" "resolvePlaceholders vault x = Inl e"
      using res_map_Inl [of "resolvePlaceholders vault" vs e] by (auto simp: result_simps)
    from JArr.IH [OF x] show ?case using x(1) by auto
  next
    case (JObj kvs)
    then obtain p where "p \<in> set kvs" "resolvePlaceholders vault (snd p) = Inl e"
      using res_map_Inl [of "\<lambda>p. res_bind (resolvePlaceholders vault (snd p)) (\<lambda>w. Inr (fst p, w))" kvs e]
      by (auto simp: result_simps)
    note p = this
    have "\<exists>s \<in> set (value_strings (snd p)). resolveString s vault = Inl e"
      using JObj.IH [OF p(1) _ p(2)] by (cases p) auto
    then show ?case using p(1) by auto
  qed (auto simp: result_simps)
  then show ?thesis using str by (fastforce simp: findPlaceholders_def set_first_seen)
qed

section \<open>Redaction\<close>

lemma sublist_appendD:
  "sublist x (a @ c # b) \<Longrightarrow> c \<notin> set x \<Longrightarrow> x \<noteq> [] \<Longrightarrow> sublist x a \<or> sublist x b"
proof -
  assume "sublist x (a @ c # b)" "c \<notin> set x" "x \<noteq> []"
  then obtain p s where e: "a @ c # b = p @ x @ s" by (auto simp: sublist_def)
  then obtain us where "(a = p @ us \<and> us @ c # b = x @ s) \<or> (a @ us = p \<and> c # b = us @ x @ s)"
    unfolding append_eq_append_conv2 by auto
  then show ?thesis
  proof (elim disjE conjE)
    assume a: "a = p @ us" and "us @ c # b = x @ s"
    then obtain vs where "(us = x @ vs \<and> vs @ c # b = s) \<or> (us @ vs = x \<and> c # b = vs @ s)"
      unfolding append_eq_append_conv2 by auto
    then have "\<exists>t. us = x @ t" using \<open>c \<notin> set x\<close> by (cases vs) auto
    then show ?thesis using a by (auto simp: sublist_def)
  next
    assume "c # b = us @ x @ s"
    then obtain us' where "b = us' @ x @ s"
      using \<open>c \<notin> set x\<close> \<open>x \<noteq> []\<close> by (cases us; cases x) auto
    then show ?thesis by (auto simp: sublist_def)
  qed
qed

lemma sublist_redacted_join:
  assumes "CHR ''*'' \<notin> set x" "x \<noteq> []" "sublist x (str_join REDACTION ps)"
  shows "\<exists>p \<in> set ps. sublist x p"
  using assms(3)
proof (induction "REDACTION" ps rule: str_join.induct)
  case 1
  then show ?case using assms(2) by simp
next
  case (3 p q ps)
  let ?r = "str_join REDACTION (q # ps)"
  have "sublist x (p @ CHR ''*'' # ([] @ CHR ''*'' # ([] @ CHR ''*'' # ?r)))"
    using 3(2) by (simp add: REDACTION_def)
  then have "sublist x p \<or> sublist x ?r"
    using sublist_appendD [OF _ assms(1,2)] assms(2) by (metis sublist_Nil_right)
  then show ?case using 3(1) by auto
qed simp

lemma redact_one:
  assumes "CHR ''*'' \<notin> set x" "x \<noteq> []" "sublist x (str_join REDACTION (str_split secret s))"
  shows "sublist x s"
  using sublist_redacted_join [OF assms] sublist_str_split [of secret s] sublist_order.order.trans by blast

lemma redact_removes:
  assumes "CHR ''*'' \<notin> set secret" "secret \<noteq> []"
  shows "\<not> sublist secret (str_join REDACTION (str_split secret s))"
  using sublist_redacted_join [OF assms] str_split_pieces [OF assms(2)] by blast

lemma redactString_clean:
  assumes "\<forall>x \<in> set secrets. CHR ''*'' \<notin> set x \<and> x \<noteq> []" "x \<in> set secrets \<or> \<not> sublist x s"
    "CHR ''*'' \<notin> set x" "x \<noteq> []"
  shows "\<not> sublist x (redactString secrets s)"
  using assms(1,2) unfolding redactString_def
proof (induction secrets arbitrary: s)
  case (Cons y ys)
  let ?s = "str_join REDACTION (str_split y s)"
  have "x \<in> set ys \<or> \<not> sublist x ?s"
    using Cons.prems redact_removes [of y s] redact_one [OF assms(3,4), of y s] by auto
  then show ?case using Cons.IH [of ?s] Cons.prems(1) by simp
qed simp

lemma redact_walk_strings: "value_strings (redact_walk secrets v) = map (redactString secrets) (value_strings v)"
proof (induction v)
  case (JArr vs)
  then show ?case by (induction vs) auto
next
  case (JObj kvs)
  have "value_strings (redact_walk secrets (snd p)) = map (redactString secrets) (value_strings (snd p))"
    if "p \<in> set kvs" for p
    using JObj that by (cases p) auto
  then show ?case by (simp add: map_concat comp_def cong: map_cong)
qed simp_all

lemma assertNoSecretValues_Inl:
  "assertNoSecretValues v secrets b = Inl e \<longleftrightarrow> e = SecretExfiltrationError b \<and>
     (\<exists>secret \<in> set secrets. secret \<noteq> [] \<and> (\<exists>s \<in> set (value_strings v). sublist secret s))"
  by (auto simp: assertNoSecretValues_def Let_def list_ex_iff filter_empty_conv)

section \<open>Properties\<close>

lemma tokens_plain: "placeholder_names s = [] \<Longrightarrow> tokens s = map Inl s"
proof (induction s rule: tokens.induct)
  case (1 s)
  show ?case
  proof (cases s)
    case Nil
    then show ?thesis by (subst tokens.simps) simp
  next
    case (Cons c t)
    have none: "placeholder_at s = None"
    proof (rule ccontr)
      assume "placeholder_at s \<noteq> None"
      then obtain n r where "placeholder_at s = Some (n, r)" by auto
      then have "tokens s = Inr n # tokens r" using Cons by (subst tokens.simps) simp
      then show False using "1.prems" by (simp add: placeholder_names_def)
    qed
    then have s: "tokens s = Inl c # tokens t" using Cons by (subst tokens.simps) simp
    then have "placeholder_names t = []" using "1.prems" by (simp add: placeholder_names_def)
    then show ?thesis using "1.IH"(1) [OF Cons none] s Cons by simp
  qed
qed

lemma resolveString_plain: "placeholder_names s = [] \<Longrightarrow> resolveString s vault = Inr s"
proof -
  assume "placeholder_names s = []"
  then have t: "tokens s = map Inl s" by (rule tokens_plain)
  have "res_map (resolve_token vault) (map Inl s) = Inr (map (\<lambda>c. [c]) s)"
    by (simp add: res_map_Inr list_all2_map1 list_all2_map2 resolve_token_def list_all2_same)
  then show ?thesis by (simp add: resolveString_def t)
qed

text \<open>
  C37: the resolution of a call's arguments succeeds exactly when the vault holds every secret
  the arguments name; otherwise it throws, naming a secret that is absent, so neither a literal
  placeholder nor a blank ever reaches the command.
\<close>

theorem resolve_fails_closed:
  "((\<exists>w. resolvePlaceholders vault v = Inr w) \<longleftrightarrow> (\<forall>n \<in> set (findPlaceholders v). vault_get vault n \<noteq> None))
   \<and> (\<forall>e. resolvePlaceholders vault v = Inl e \<longrightarrow>
        (\<exists>n \<in> set (findPlaceholders v). vault_get vault n = None
           \<and> e = Error (''unresolved secret placeholder: '' @ n)))
   \<and> distinct (findPlaceholders v)"
  using resolve_error [of vault v]
  by (auto simp: resolve_ok findPlaceholders_def set_first_seen distinct_first_seen)

theorem resolve_fails_closed_witness:
  "\<not> (\<exists>w. resolvePlaceholders (EnvSecretVault []) (JObj [(''token'', JStr ''{{secret:GITHUB}}'')]) = Inr w)"
proof -
  have "placeholder_names ''{{secret:GITHUB}}'' = [''GITHUB'']" by code_simp
  then show ?thesis
    using resolve_fails_closed [of "EnvSecretVault []" "JObj [(''token'', JStr ''{{secret:GITHUB}}'')]"]
    by (simp add: findPlaceholders_def EnvSecretVault_def)
qed

text \<open>
  C38: when no known secret contains an asterisk, redaction leaves no occurrence of any known
  secret in any string of the value, whatever the order of the secrets.
\<close>

theorem redaction_complete:
  assumes "\<forall>x \<in> set secrets. CHR ''*'' \<notin> set x" "x \<in> set secrets" "x \<noteq> []"
    and "s \<in> set (value_strings (redactSecrets v secrets))"
  shows "\<not> sublist x s"
proof -
  let ?ne = "filter (\<lambda>s. s \<noteq> []) secrets"
  have ne: "?ne \<noteq> []" "x \<in> set ?ne" using assms(2,3) by (auto simp: filter_empty_conv)
  then have "redactSecrets v secrets = redact_walk ?ne v" by (simp add: redactSecrets_def Let_def)
  then obtain t where "s = redactString ?ne t" using assms(4) by (auto simp: redact_walk_strings)
  then show ?thesis using redactString_clean [of ?ne x t] ne(2) assms(1,2,3) by simp
qed

theorem redaction_complete_witness:
  "\<not> sublist ''hunter2'' (redactString [''hunter2''] ''key=hunter2'')"
proof -
  let ?v = "JStr ''key=hunter2''"
  have "redactString [''hunter2''] ''key=hunter2'' \<in> set (value_strings (redactSecrets ?v [''hunter2'']))"
    by (simp add: redactSecrets_def)
  then show ?thesis using redaction_complete [of "[''hunter2'']" "''hunter2''"] by simp
qed

text \<open>
  The guard of the outbound boundaries throws exactly when some known secret occurs in some
  string value, always naming the boundary and never the secret; a value redacted with the
  same secrets passes it, when none of them contains an asterisk.
\<close>

theorem guard_exact:
  "(assertNoSecretValues v secrets b = Inr () \<longleftrightarrow>
      (\<forall>x \<in> set secrets. x \<noteq> [] \<longrightarrow> (\<forall>s \<in> set (value_strings v). \<not> sublist x s)))
   \<and> (\<forall>e. assertNoSecretValues v secrets b = Inl e \<longrightarrow> e = SecretExfiltrationError b)
   \<and> ((\<forall>x \<in> set secrets. CHR ''*'' \<notin> set x) \<longrightarrow>
        assertNoSecretValues (redactSecrets v secrets) secrets b = Inr ())"
proof (intro conjI allI impI)
  have iff: "assertNoSecretValues w secrets b = Inr () \<longleftrightarrow>
      (\<forall>x \<in> set secrets. x \<noteq> [] \<longrightarrow> (\<forall>s \<in> set (value_strings w). \<not> sublist x s))" for w
    by (auto simp: assertNoSecretValues_def Let_def list_ex_iff filter_empty_conv)
  show "assertNoSecretValues v secrets b = Inr () \<longleftrightarrow>
      (\<forall>x \<in> set secrets. x \<noteq> [] \<longrightarrow> (\<forall>s \<in> set (value_strings v). \<not> sublist x s))" by (rule iff)
  show "e = SecretExfiltrationError b" if "assertNoSecretValues v secrets b = Inl e" for e
    using that by (simp add: assertNoSecretValues_Inl)
  assume a: "\<forall>x \<in> set secrets. CHR ''*'' \<notin> set x"
  let ?ne = "filter (\<lambda>s. s \<noteq> []) secrets"
  have "\<not> sublist x s" if x: "x \<in> set secrets" "x \<noteq> []" and s: "s \<in> set (value_strings (redactSecrets v secrets))" for x s
  proof -
    have ne: "?ne \<noteq> []" "x \<in> set ?ne" using x by (auto simp: filter_empty_conv)
    then obtain t where "s = redactString ?ne t"
      using s by (auto simp: redact_walk_strings redactSecrets_def Let_def)
    then show ?thesis using redactString_clean [of ?ne x t] ne(2) a x by simp
  qed
  then show "assertNoSecretValues (redactSecrets v secrets) secrets b = Inr ()" by (simp add: iff)
qed

theorem guard_exact_witness:
  "assertNoSecretValues (redactSecrets (JStr ''a hunter2 b'') [''hunter2'']) [''hunter2''] ''journal'' = Inr ()"
  using guard_exact [of "JStr ''a hunter2 b''" "[''hunter2'']" "''journal''"] by simp

text \<open>
  Neither the guard nor the redaction looks at the keys of objects: a value that holds a
  known secret as a key passes the guard and keeps the secret through redaction.
\<close>

theorem secret_key_passes:
  "secret \<noteq> [] \<Longrightarrow>
   assertNoSecretValues (JObj [(secret, JNum 1)]) [secret] b = Inr ()
   \<and> redactSecrets (JObj [(secret, JNum 1)]) [secret] = JObj [(secret, JNum 1)]"
  by (simp add: assertNoSecretValues_def redactSecrets_def)

theorem secret_key_passes_witness:
  "assertNoSecretValues (JObj [(''hunter2'', JNum 1)]) [''hunter2''] ''journal'' = Inr ()"
  by (rule conjunct1 [OF secret_key_passes]) simp

end
