(* ===== verification/Dates.thy ===== *)
theory Dates
  imports Js_Strings
begin

text \<open>
  The two operations on dates the stores use: \<open>new Date(ms).toISOString()\<close> and
  \<open>Date.parse\<close>, for times from 1970 on in milliseconds. Parsing is modelled on the format
  that printing gives for the years up to 9999; any other text is \<open>NaN\<close> here (\<open>None\<close>).
  The theorem of this file is that parsing inverts printing in that range (\<open>date_ok\<close>).
\<close>

section \<open>The calendar\<close>

definition is_leap :: "nat \<Rightarrow> bool" where
  "is_leap y \<longleftrightarrow> y mod 4 = 0 \<and> (y mod 100 \<noteq> 0 \<or> y mod 400 = 0)"

definition year_len :: "nat \<Rightarrow> nat" where
  "year_len y = (if is_leap y then 366 else 365)"

definition month_len :: "nat \<Rightarrow> nat \<Rightarrow> nat" where
  "month_len y m = (if m = 2 then (if is_leap y then 29 else 28)
     else if m = 4 \<or> m = 6 \<or> m = 9 \<or> m = 11 then 30 else 31)"

lemma lens_pos [simp]: "0 < year_len y" "0 < month_len y m"
  by (simp_all add: year_len_def month_len_def)

text \<open>The year a day falls in and the day of that year, counting from the first day of \<open>y\<close>.\<close>

function split_years :: "nat \<Rightarrow> nat \<Rightarrow> nat \<times> nat" where
  "split_years y d = (if d < year_len y then (y, d) else split_years (y + 1) (d - year_len y))"
  by pat_completeness auto
termination
proof (relation "measure snd", goal_cases)
  case (2 y d)
  moreover have "0 < year_len y" by (rule lens_pos)
  ultimately have "d - year_len y < d" by linarith
  then show ?case by simp
qed simp

function split_months :: "nat \<Rightarrow> nat \<Rightarrow> nat \<Rightarrow> nat \<times> nat" where
  "split_months y m d =
     (if d < month_len y m then (m, d) else split_months y (m + 1) (d - month_len y m))"
  by pat_completeness auto
termination
proof (relation "measure (\<lambda>(y, m, d). d)", goal_cases)
  case (2 y m d)
  moreover have "0 < month_len y m" by (rule lens_pos)
  ultimately have "d - month_len y m < d" by linarith
  then show ?case by simp
qed simp

declare split_years.simps [simp del] split_months.simps [simp del]

definition days_before_year :: "nat \<Rightarrow> nat" where
  "days_before_year y = sum_list (map year_len [1970..<y])"

definition days_before_month :: "nat \<Rightarrow> nat \<Rightarrow> nat" where
  "days_before_month y m = sum_list (map (month_len y) [1..<m])"

lemma split_years_days:
  "1970 \<le> y \<Longrightarrow> split_years y d = (y', d') \<Longrightarrow>
   days_before_year y + d = days_before_year y' + d' \<and> y \<le> y' \<and> d' < year_len y'"
proof (induction y d arbitrary: y' d' rule: split_years.induct)
  case (1 y d)
  show ?case
  proof (cases "d < year_len y")
    case True
    then show ?thesis using 1(3) by (simp add: split_years.simps)
  next
    case False
    have eq: "split_years (y + 1) (d - year_len y) = (y', d')"
      using 1(3) False by (subst (asm) split_years.simps) simp
    have "days_before_year (y + 1) = days_before_year y + year_len y"
      using 1(2) by (simp add: days_before_year_def)
    then show ?thesis using 1(1) [OF False _ eq] 1(2) False by simp
  qed
qed

lemma split_months_days:
  "1 \<le> m \<Longrightarrow> split_months y m d = (m', d') \<Longrightarrow>
   days_before_month y m + d = days_before_month y m' + d' \<and> m \<le> m' \<and> d' < month_len y m'"
proof (induction y m d arbitrary: m' d' rule: split_months.induct)
  case (1 y m d)
  show ?case
  proof (cases "d < month_len y m")
    case True
    then show ?thesis using 1(3) by (simp add: split_months.simps)
  next
    case False
    have eq: "split_months y (m + 1) (d - month_len y m) = (m', d')"
      using 1(3) False by (subst (asm) split_months.simps) simp
    have "days_before_month y (m + 1) = days_before_month y m + month_len y m"
      using 1(2) by (simp add: days_before_month_def)
    then show ?thesis using 1(1) [OF False _ eq] 1(2) False by simp
  qed
qed

lemma days_before_month_mono: "1 \<le> m \<Longrightarrow> m \<le> m' \<Longrightarrow> days_before_month y m \<le> days_before_month y m'"
proof (induction m')
  case (Suc n)
  then show ?case by (cases "m \<le> n") (auto simp: days_before_month_def le_Suc_eq)
qed simp

lemma days_before_month_13: "days_before_month y 13 = year_len y"
  by (simp add: days_before_month_def year_len_def month_len_def upt_rec)

lemma split_months_12:
  assumes "d < year_len y" "split_months y 1 d = (m, d')"
  shows "m \<le> 12"
proof (rule ccontr)
  assume "\<not> m \<le> 12"
  then have "days_before_month y 13 \<le> days_before_month y m" by (intro days_before_month_mono) auto
  moreover have "days_before_month y 1 = 0" by (simp add: days_before_month_def)
  ultimately show False using split_months_days [OF _ assms(2)] assms(1) days_before_month_13 [of y] by simp
qed

section \<open>Printing and parsing\<close>

fun pad :: "nat \<Rightarrow> nat \<Rightarrow> string" where
  "pad 0 n = []"
| "pad (Suc w) n = pad w (n div 10) @ [digit_char (n mod 10)]"

record civil =
  cv_year :: nat
  cv_month :: nat
  cv_day :: nat

definition civil_of :: "nat \<Rightarrow> civil" where
  "civil_of days =
     (let (y, d) = split_years 1970 days; (m, d') = split_months y 1 d in
      \<lparr>cv_year = y, cv_month = m, cv_day = d' + 1\<rparr>)"

definition days_of :: "nat \<Rightarrow> nat \<Rightarrow> nat \<Rightarrow> nat" where
  "days_of y m d = days_before_year y + days_before_month y m + (d - 1)"

definition iso_year :: "nat \<Rightarrow> nat" where
  "iso_year ms = cv_year (civil_of (ms div 86400000))"

definition toISOString :: "nat \<Rightarrow> string" where
  "toISOString ms =
     (let c = civil_of (ms div 86400000); t = ms mod 86400000 in
      (if cv_year c \<le> 9999 then pad 4 (cv_year c) else CHR ''+'' # pad 6 (cv_year c))
      @ ''-'' @ pad 2 (cv_month c) @ ''-'' @ pad 2 (cv_day c) @ ''T''
      @ pad 2 (t div 3600000) @ '':'' @ pad 2 (t div 60000 mod 60) @ '':''
      @ pad 2 (t div 1000 mod 60) @ ''.'' @ pad 3 (t mod 1000) @ ''Z'')"

definition digits_at :: "nat \<Rightarrow> nat \<Rightarrow> string \<Rightarrow> nat option" where
  "digits_at i n s =
     (let ds = take n (drop i s) in
      if length ds = n \<and> list_all is_digit ds then Some (nat_of_digits ds) else None)"

definition date_parse :: "string \<Rightarrow> nat option" where
  "date_parse s =
     (if length s = 24 \<and> s ! 4 = CHR ''-'' \<and> s ! 7 = CHR ''-'' \<and> s ! 10 = CHR ''T''
         \<and> s ! 13 = CHR '':'' \<and> s ! 16 = CHR '':'' \<and> s ! 19 = CHR ''.'' \<and> s ! 23 = CHR ''Z'' then
        (case (digits_at 0 4 s, digits_at 5 2 s, digits_at 8 2 s, digits_at 11 2 s, digits_at 14 2 s,
               digits_at 17 2 s, digits_at 20 3 s) of
           (Some y, Some mo, Some d, Some h, Some mi, Some sec, Some ms) \<Rightarrow>
             if 1970 \<le> y \<and> 1 \<le> mo \<and> mo \<le> 12 \<and> 1 \<le> d \<and> d \<le> month_len y mo
                \<and> h < 24 \<and> mi < 60 \<and> sec < 60 then
               Some (days_of y mo d * 86400000 + h * 3600000 + mi * 60000 + sec * 1000 + ms)
             else None
         | _ \<Rightarrow> None)
      else None)"

definition date_ok :: "nat \<Rightarrow> bool" where
  "date_ok ms \<longleftrightarrow> iso_year ms \<le> 9999"

section \<open>Parsing inverts printing\<close>

lemma length_pad [simp]: "length (pad w n) = w"
  by (induction w arbitrary: n) auto

lemma pad_digits: "list_all is_digit (pad w n)"
  by (induction w arbitrary: n) (auto simp: is_digit_def)

lemma nat_of_digits_pad: "n < 10 ^ w \<Longrightarrow> nat_of_digits (pad w n) = n"
proof (induction w arbitrary: n)
  case (Suc w)
  have "n div 10 < 10 ^ w" using Suc.prems by (simp add: less_mult_imp_div_less)
  then have "nat_of_digits (pad w (n div 10)) = n div 10" by (rule Suc.IH)
  then show ?case by (simp add: nat_of_digits_def)
qed (simp add: nat_of_digits_def)

lemma digits_at_pad:
  "length a = i \<Longrightarrow> n < 10 ^ w \<Longrightarrow> digits_at i w (a @ pad w n @ b) = Some n"
  by (simp add: digits_at_def pad_digits nat_of_digits_pad)

lemma civil_props:
  assumes "civil_of days = c"
  shows "days_of (cv_year c) (cv_month c) (cv_day c) = days" "1970 \<le> cv_year c"
    "1 \<le> cv_month c" "cv_month c \<le> 12" "1 \<le> cv_day c" "cv_day c \<le> month_len (cv_year c) (cv_month c)"
proof -
  obtain y d where yd: "split_years 1970 days = (y, d)" by fastforce
  obtain m d' where md: "split_months y 1 d = (m, d')" by fastforce
  have c: "c = \<lparr>cv_year = y, cv_month = m, cv_day = d' + 1\<rparr>"
    using assms yd md by (simp add: civil_of_def)
  note Y = split_years_days [OF _ yd, simplified] and M = split_months_days [OF _ md, simplified]
  have "days_before_year 1970 = 0" "days_before_month y 1 = 0"
    by (simp_all add: days_before_year_def days_before_month_def)
  then show "days_of (cv_year c) (cv_month c) (cv_day c) = days"
    using Y M c by (simp add: days_of_def)
  show "1970 \<le> cv_year c" "1 \<le> cv_month c" "1 \<le> cv_day c"
    "cv_day c \<le> month_len (cv_year c) (cv_month c)"
    using Y M c by simp_all
  show "cv_month c \<le> 12" using split_months_12 [OF _ md] Y c by simp
qed

lemma month_len_le: "month_len y m \<le> 31"
  by (simp add: month_len_def)

theorem date_parse_toISOString:
  assumes "date_ok ms"
  shows "date_parse (toISOString ms) = Some ms"
proof -
  define c where "c = civil_of (ms div 86400000)"
  define t where "t = ms mod 86400000"
  note c = civil_props [OF c_def [symmetric]]
  have t: "t < 86400000" by (simp add: t_def)
  have y: "cv_year c \<le> 9999" using assms by (simp add: date_ok_def iso_year_def c_def)
  let ?Y = "pad 4 (cv_year c)" and ?M = "pad 2 (cv_month c)" and ?D = "pad 2 (cv_day c)"
  let ?h = "pad 2 (t div 3600000)" and ?m = "pad 2 (t div 60000 mod 60)"
  let ?s = "pad 2 (t div 1000 mod 60)" and ?u = "pad 3 (t mod 1000)"
  let ?x = "?Y @ ''-'' @ ?M @ ''-'' @ ?D @ ''T'' @ ?h @ '':'' @ ?m @ '':'' @ ?s @ ''.'' @ ?u @ ''Z''"
  have x: "toISOString ms = ?x" using y by (simp add: toISOString_def Let_def c_def t_def)
  have d: "cv_day c \<le> 31" using c(6) month_len_le le_trans by blast
  have parts: "digits_at 0 4 ?x = Some (cv_year c)" "digits_at 5 2 ?x = Some (cv_month c)"
    "digits_at 8 2 ?x = Some (cv_day c)" "digits_at 11 2 ?x = Some (t div 3600000)"
    "digits_at 14 2 ?x = Some (t div 60000 mod 60)" "digits_at 17 2 ?x = Some (t div 1000 mod 60)"
    "digits_at 20 3 ?x = Some (t mod 1000)"
    using digits_at_pad [of "[]" 0 "cv_year c" 4] digits_at_pad [of "?Y @ ''-''" 5 "cv_month c" 2]
      digits_at_pad [of "?Y @ ''-'' @ ?M @ ''-''" 8 "cv_day c" 2]
      digits_at_pad [of "?Y @ ''-'' @ ?M @ ''-'' @ ?D @ ''T''" 11 "t div 3600000" 2]
      digits_at_pad [of "?Y @ ''-'' @ ?M @ ''-'' @ ?D @ ''T'' @ ?h @ '':''" 14 "t div 60000 mod 60" 2]
      digits_at_pad [of "?Y @ ''-'' @ ?M @ ''-'' @ ?D @ ''T'' @ ?h @ '':'' @ ?m @ '':''" 17 "t div 1000 mod 60" 2]
      digits_at_pad [of "?Y @ ''-'' @ ?M @ ''-'' @ ?D @ ''T'' @ ?h @ '':'' @ ?m @ '':'' @ ?s @ ''.''" 20 "t mod 1000" 3]
      y c(4) d t
    by simp_all
  have marks: "length ?x = 24" "?x ! 4 = CHR ''-''" "?x ! 7 = CHR ''-''" "?x ! 10 = CHR ''T''"
    "?x ! 13 = CHR '':''" "?x ! 16 = CHR '':''" "?x ! 19 = CHR ''.''" "?x ! 23 = CHR ''Z''"
    by (simp_all add: nth_append)
  have time: "(t div 3600000) * 3600000 + (t div 60000 mod 60) * 60000 + (t div 1000 mod 60) * 1000 + t mod 1000 = t"
  proof -
    have d: "t div 60000 = (t div 1000) div 60" "t div 3600000 = (t div 60000) div 60"
      by (simp_all add: div_mult2_eq [symmetric])
    define a b where "a = t div 1000" and "b = t div 60000"
    have "t = a * 1000 + t mod 1000" "a = b * 60 + a mod 60" "b = b div 60 * 60 + b mod 60"
      unfolding a_def b_def d(1) by simp_all
    then show ?thesis unfolding d(2) a_def [symmetric] b_def [symmetric] by linarith
  qed
  have h: "t div 3600000 < 24" using t by (simp add: less_mult_imp_div_less)
  have whole: "ms = (ms div 86400000) * 86400000 + t" by (simp add: t_def)
  show ?thesis
    unfolding x date_parse_def parts using marks c h time whole by (simp del: append.simps append_assoc)
qed

end
