(* ===== verification/Stores.thy ===== *)
theory Stores
  imports Contracts Dates
begin

text \<open>
  The interface the two durable stores share (\<open>load\<close> a record of entries, \<open>commit\<close> one) and
  its two providers: the in-memory record and the JSON file. A file that is missing,
  unreadable or holds an invalid entry loads as the empty record, as in the code.
\<close>

record ('s, 'v) store_ops =
  so_load :: "'s \<Rightarrow> 'v obj"
  so_commit :: "'v obj \<Rightarrow> 's \<Rightarrow> 's"

text \<open>A well-formed record of valid entries.\<close>

definition rec_ok :: "('v \<Rightarrow> bool) \<Rightarrow> 'v obj \<Rightarrow> bool" where
  "rec_ok valid rec \<longleftrightarrow> obj_ok rec \<and> (\<forall>x \<in> snd ` set rec. valid x)"

lemma rec_ok_Nil [simp]: "rec_ok valid []"
  by (simp add: rec_ok_def)

lemma rec_ok_update: "rec_ok valid rec \<Longrightarrow> valid v \<Longrightarrow> rec_ok valid (AList.update k v rec)"
  unfolding rec_ok_def by (intro conjI obj_ok_update values_update_ball) blast+

lemma rec_okD: "rec_ok valid rec \<Longrightarrow> map_of rec k = Some v \<Longrightarrow> valid v"
  by (force simp: rec_ok_def dest: map_of_SomeD)

locale record_store =
  fixes ops :: "('s, 'v) store_ops"
    and valid :: "'v \<Rightarrow> bool"
  assumes load_commit: "rec_ok valid rec \<Longrightarrow> so_load ops (so_commit ops rec s) = rec"
begin

lemma load_update:
  "rec_ok valid (so_load ops s) \<Longrightarrow> valid v \<Longrightarrow>
   so_load ops (so_commit ops (AList.update k v (so_load ops s)) s) = AList.update k v (so_load ops s)"
  by (intro load_commit rec_ok_update)

lemma ok_update:
  "rec_ok valid (so_load ops s) \<Longrightarrow> valid v \<Longrightarrow>
   rec_ok valid (so_load ops (so_commit ops (AList.update k v (so_load ops s)) s))"
  by (simp add: load_update rec_ok_update)

end

section \<open>The in-memory store\<close>

definition memory_store :: "('v obj, 'v) store_ops" where
  "memory_store = \<lparr>so_load = (\<lambda>rec. rec), so_commit = (\<lambda>rec _. rec)\<rparr>"

lemma memory_record_store: "record_store memory_store valid"
  by unfold_locales (simp add: memory_store_def)

section \<open>The file store\<close>

text \<open>\<open>Object.entries\<close> of a parsed value; \<open>None\<close> where it throws.\<close>

fun json_entries :: "json \<Rightarrow> json obj option" where
  "json_entries JNull = None"
| "json_entries (JObj kvs) = Some kvs"
| "json_entries (JArr vs) = Some (map (\<lambda>(i, v). (show_nat i, v)) (enumerate 0 vs))"
| "json_entries (JStr s) = Some (map (\<lambda>(i, c). (show_nat i, JStr [c])) (enumerate 0 s))"
| "json_entries _ = Some []"

fun parse_entries :: "'v schema \<Rightarrow> json obj \<Rightarrow> 'v obj \<Rightarrow> 'v obj option" where
  "parse_entries sch [] out = Some out"
| "parse_entries sch ((k, v) # kvs) out =
     (case sch (Some v) of
        None \<Rightarrow> None
      | Some x \<Rightarrow> parse_entries sch kvs (AList.update k x out))"

text \<open>The state is the content of the file, if it exists.\<close>

definition file_load :: "'v schema \<Rightarrow> string option \<Rightarrow> 'v obj" where
  "file_load sch content =
     (case content of
        None \<Rightarrow> []
      | Some t \<Rightarrow>
          (case Option.bind (json_parse t) (\<lambda>raw. Option.bind (json_entries raw) (\<lambda>kvs. parse_entries sch kvs [])) of
             None \<Rightarrow> []
           | Some out \<Rightarrow> out))"

definition file_commit :: "('v \<Rightarrow> json) \<Rightarrow> 'v obj \<Rightarrow> string option \<Rightarrow> string option" where
  "file_commit to_json rec _ =
     Some (json_stringify_indent (JObj (map (\<lambda>p. (fst p, to_json (snd p))) rec)) @ [newline])"

definition file_store :: "'v schema \<Rightarrow> ('v \<Rightarrow> json) \<Rightarrow> (string option, 'v) store_ops" where
  "file_store sch to_json = \<lparr>so_load = file_load sch, so_commit = file_commit to_json\<rparr>"

lemma parse_entries_reads:
  assumes "\<And>v. valid v \<Longrightarrow> sch (Some (to_json v)) = Some v"
  shows "\<forall>x \<in> snd ` set rec. valid x \<Longrightarrow> obj_ok rec \<Longrightarrow> fst ` set rec \<inter> fst ` set out = {} \<Longrightarrow>
    parse_entries sch (map (\<lambda>p. (fst p, to_json (snd p))) rec) out = Some (out @ rec)"
proof (induction rec arbitrary: out)
  case (Cons p rec)
  obtain k v where p: "p = (k, v)" by (cases p)
  have "AList.update k v out = out @ [(k, v)]" using Cons.prems p by (intro update_fresh) auto
  moreover have "parse_entries sch (map (\<lambda>p. (fst p, to_json (snd p))) rec) (out @ [(k, v)]) = Some ((out @ [(k, v)]) @ rec)"
    using Cons.prems p by (intro Cons.IH) auto
  ultimately show ?case using Cons.prems assms p by simp
qed simp

lemma file_record_store:
  assumes reads: "\<And>v. valid v \<Longrightarrow> sch (Some (to_json v)) = Some v" and ok: "\<And>v. json_ok (to_json v)"
  shows "record_store (file_store sch to_json) valid"
proof
  fix rec and s :: "string option"
  assume rec: "rec_ok valid rec"
  let ?o = "map (\<lambda>p. (fst p, to_json (snd p))) rec"
  have "json_ok (JObj ?o)" using rec ok by (auto simp: rec_ok_def list_all_iff comp_def)
  then have "json_parse (json_stringify_indent (JObj ?o) @ [newline]) = Some (JObj ?o)"
    unfolding json_stringify_indent_def by (rule json_parse_print_newline)
  moreover have "parse_entries sch ?o [] = Some ([] @ rec)"
    using rec by (intro parse_entries_reads [OF reads]) (auto simp: rec_ok_def)
  ultimately show "so_load (file_store sch to_json) (so_commit (file_store sch to_json) rec s) = rec"
    by (simp add: file_store_def file_load_def file_commit_def)
qed

end
