(* ===== verification/Sessions.thy ===== *)
theory Sessions
  imports Stores
begin

text \<open>
  \<open>src/daemon/session-store.ts\<close>: leases with fencing tokens over a store. The operations take
  the store's \<open>load\<close> and \<open>commit\<close> as the subclasses of the code supply them; their facts are
  proved once for every store that satisfies \<open>record_store\<close> and hold for the in-memory and
  the file store by interpretation. Times are milliseconds; a date that does not parse
  compares as \<open>NaN\<close>.
\<close>

section \<open>The operations\<close>

type_synonym 's session_store = "('s, session_lease) store_ops"

definition date_after :: "string \<Rightarrow> nat \<Rightarrow> bool" where
  "date_after d now \<longleftrightarrow> (case date_parse d of Some t \<Rightarrow> now < t | None \<Rightarrow> False)"

definition date_until :: "string \<Rightarrow> nat \<Rightarrow> bool" where
  "date_until d now \<longleftrightarrow> (case date_parse d of Some t \<Rightarrow> t \<le> now | None \<Rightarrow> False)"

text \<open>\<open>SessionLease.parse\<close> on a value built in memory.\<close>

definition SessionLease_parse :: "session_lease \<Rightarrow> session_lease result" where
  "SessionLease_parse l = (if lease_ok l then Inr l else Inl (ZodError ''SessionLease''))"

definition get_session :: "'s session_store \<Rightarrow> string \<Rightarrow> 's \<Rightarrow> session_lease option" where
  "get_session ops sid s = map_of (so_load ops s) sid"

definition list_sessions :: "'s session_store \<Rightarrow> 's \<Rightarrow> session_lease list" where
  "list_sessions ops s = map snd (so_load ops s)"

definition contended :: "session_lease option \<Rightarrow> string \<Rightarrow> nat \<Rightarrow> bool" where
  "contended existing owner now \<longleftrightarrow>
     (case existing of None \<Rightarrow> False
      | Some e \<Rightarrow> sl_status e = active \<and> sl_ownerInstanceId e \<noteq> owner \<and> date_after (sl_expiresAt e) now)"

definition grant_lease :: "session_lease option \<Rightarrow> string \<Rightarrow> string \<Rightarrow> nat \<Rightarrow> nat \<Rightarrow> session_lease" where
  "grant_lease existing sid owner now ttl = \<lparr>sl_sessionId = sid, sl_ownerInstanceId = owner,
     sl_fencingToken = (case existing of Some e \<Rightarrow> sl_fencingToken e | None \<Rightarrow> 0) + 1,
     sl_heartbeatAt = toISOString now, sl_expiresAt = toISOString (now + ttl), sl_status = active\<rparr>"

definition acquire ::
    "'s session_store \<Rightarrow> string \<Rightarrow> string \<Rightarrow> nat \<Rightarrow> nat \<Rightarrow> ('s, session_lease) act" where
  "acquire ops sid owner now ttl s =
     (let rec = so_load ops s; existing = map_of rec sid in
      if contended existing owner now then (Inl (SessionContendedError sid), s)
      else
        (case SessionLease_parse (grant_lease existing sid owner now ttl) of
           Inl e \<Rightarrow> (Inl e, s)
         | Inr lease \<Rightarrow> (Inr lease, so_commit ops (AList.update sid lease rec) s)))"

definition heartbeat ::
    "'s session_store \<Rightarrow> session_lease \<Rightarrow> nat \<Rightarrow> nat \<Rightarrow> ('s, session_lease) act" where
  "heartbeat ops lease now ttl s =
     (let rec = so_load ops s in
      case map_of rec (sl_sessionId lease) of
        None \<Rightarrow> (Inl (FencedError (sl_sessionId lease)), s)
      | Some stored \<Rightarrow>
          if sl_fencingToken lease < sl_fencingToken stored \<or> sl_status stored \<noteq> active
          then (Inl (FencedError (sl_sessionId lease)), s)
          else
            (case SessionLease_parse (stored\<lparr>sl_heartbeatAt := toISOString now,
                sl_expiresAt := toISOString (now + ttl)\<rparr>) of
               Inl e \<Rightarrow> (Inl e, s)
             | Inr next \<Rightarrow> (Inr next, so_commit ops (AList.update (sl_sessionId lease) next rec) s)))"

definition release :: "'s session_store \<Rightarrow> session_lease \<Rightarrow> nat \<Rightarrow> ('s, unit) act" where
  "release ops lease now s =
     (let rec = so_load ops s in
      case map_of rec (sl_sessionId lease) of
        None \<Rightarrow> (Inr (), s)
      | Some stored \<Rightarrow>
          if sl_fencingToken stored = sl_fencingToken lease \<and> sl_status stored = active
          then
            (case SessionLease_parse (stored\<lparr>sl_status := released\<rparr>) of
               Inl e \<Rightarrow> (Inl e, s)
             | Inr r \<Rightarrow> (Inr (), so_commit ops (AList.update (sl_sessionId lease) r rec) s))
          else (Inr (), s))"

definition expired :: "nat \<Rightarrow> session_lease \<Rightarrow> bool" where
  "expired now l \<longleftrightarrow> sl_status l = active \<and> date_until (sl_expiresAt l) now"

text \<open>The loop of \<open>reapExpired\<close> over the entries read at its start.\<close>

fun reap_entries ::
    "nat \<Rightarrow> (string \<times> session_lease) list \<Rightarrow> session_lease obj \<Rightarrow> session_lease list \<Rightarrow>
     (session_lease obj \<times> session_lease list) result" where
  "reap_entries now [] rec out = Inr (rec, out)"
| "reap_entries now ((sid, lease) # es) rec out =
     (if expired now lease then
        res_bind (SessionLease_parse (lease\<lparr>sl_status := reaped\<rparr>)) (\<lambda>r.
          reap_entries now es (AList.update sid r rec) (out @ [r]))
      else reap_entries now es rec out)"

definition reapExpired :: "'s session_store \<Rightarrow> nat \<Rightarrow> ('s, session_lease list) act" where
  "reapExpired ops now s =
     (let rec = so_load ops s in
      case reap_entries now rec rec [] of
        Inl e \<Rightarrow> (Inl e, s)
      | Inr (rec', out) \<Rightarrow> (Inr out, if out \<noteq> [] then so_commit ops rec' s else s))"

section \<open>Facts for every store\<close>

lemma toISOString_nonempty [simp]: "toISOString ms \<noteq> []"
  by (simp add: toISOString_def Let_def)

lemma grant_lease_ok: "sid \<noteq> [] \<Longrightarrow> owner \<noteq> [] \<Longrightarrow> lease_ok (grant_lease existing sid owner now ttl)"
  by (simp add: lease_ok_def grant_lease_def)

lemma acquire_eq:
  "acquire ops sid owner now ttl s =
     (let existing = map_of (so_load ops s) sid in
      if contended existing owner now then (Inl (SessionContendedError sid), s)
      else if sid = [] \<or> owner = [] then (Inl (ZodError ''SessionLease''), s)
      else (Inr (grant_lease existing sid owner now ttl),
            so_commit ops (AList.update sid (grant_lease existing sid owner now ttl) (so_load ops s)) s))"
proof -
  have "lease_ok (grant_lease existing sid owner now ttl) \<longleftrightarrow> sid \<noteq> [] \<and> owner \<noteq> []" for existing
    by (auto simp: lease_ok_def grant_lease_def)
  then show ?thesis
    by (simp add: acquire_def SessionLease_parse_def Let_def)
qed

text \<open>Every operation leaves the key of an entry equal to its session.\<close>

definition keyed :: "session_lease obj \<Rightarrow> bool" where
  "keyed rec \<longleftrightarrow> (\<forall>(k, l) \<in> set rec. sl_sessionId l = k)"

lemma keyed_update: "keyed rec \<Longrightarrow> sl_sessionId l = k \<Longrightarrow> keyed (AList.update k l rec)"
  unfolding keyed_def by (rule entries_update_ball)

lemma keyedD: "keyed rec \<Longrightarrow> map_of rec k = Some l \<Longrightarrow> sl_sessionId l = k"
  unfolding keyed_def by (rule map_of_ballD)

abbreviation leases_ok :: "session_lease obj \<Rightarrow> bool" where
  "leases_ok rec \<equiv> rec_ok lease_ok rec \<and> keyed rec"

lemma reap_entries_Inr:
  assumes "\<forall>p \<in> set es. lease_ok (snd p)" "distinct (map fst es)" "\<forall>p \<in> set es. map_of rec (fst p) = Some (snd p)"
  shows "\<exists>rec'. reap_entries now es rec out
     = Inr (rec', out @ map (\<lambda>p. (snd p)\<lparr>sl_status := reaped\<rparr>) (filter (\<lambda>p. expired now (snd p)) es))
    \<and> (\<forall>k. map_of rec' k = (case map_of es k of
         Some l \<Rightarrow> if expired now l then Some (l\<lparr>sl_status := reaped\<rparr>) else map_of rec k
       | None \<Rightarrow> map_of rec k))
    \<and> map fst rec' = map fst rec"
  using assms
proof (induction es arbitrary: rec out)
  case (Cons p es)
  obtain sid l where p: "p = (sid, l)" by (cases p)
  have ok: "lease_ok (l\<lparr>sl_status := reaped\<rparr>)" using Cons.prems(1) p by (simp add: lease_ok_def)
  have fresh: "map_of es sid = None" using Cons.prems(2) p by (auto simp: map_of_eq_None_iff)
  show ?case
  proof (cases "expired now l")
    case True
    let ?rec = "AList.update sid (l\<lparr>sl_status := reaped\<rparr>) rec"
    have "\<forall>q \<in> set es. map_of ?rec (fst q) = Some (snd q)"
      using Cons.prems(2,3) p by (auto simp: rev_image_eqI)
    then obtain rec' where "reap_entries now es ?rec (out @ [l\<lparr>sl_status := reaped\<rparr>])
        = Inr (rec', (out @ [l\<lparr>sl_status := reaped\<rparr>]) @ map (\<lambda>p. (snd p)\<lparr>sl_status := reaped\<rparr>) (filter (\<lambda>p. expired now (snd p)) es))"
      "\<forall>k. map_of rec' k = (case map_of es k of
         Some l \<Rightarrow> if expired now l then Some (l\<lparr>sl_status := reaped\<rparr>) else map_of ?rec k
       | None \<Rightarrow> map_of ?rec k)" "map fst rec' = map fst ?rec"
      using Cons.IH [of ?rec "out @ [l\<lparr>sl_status := reaped\<rparr>]"] Cons.prems(1,2) by auto
    moreover have "map fst ?rec = map fst rec"
      using Cons.prems(3) p by (intro update_in_place) auto
    ultimately show ?thesis
      using True ok p fresh by (intro exI [of _ rec']) (auto simp: SessionLease_parse_def split: option.split)
  next
    case False
    have "\<forall>q \<in> set es. map_of rec (fst q) = Some (snd q)" using Cons.prems(3) by auto
    then show ?thesis using Cons.IH [of rec out] Cons.prems(1,2) False p fresh by auto
  qed
qed simp


locale session_store = record_store ops lease_ok for ops :: "'s session_store"
begin

lemma acquire_Inr:
  assumes "acquire ops sid owner now ttl s = (Inr l, s')" "leases_ok (so_load ops s)"
  shows "l = grant_lease (map_of (so_load ops s) sid) sid owner now ttl"
    "so_load ops s' = AList.update sid l (so_load ops s)"
    "\<not> contended (map_of (so_load ops s) sid) owner now" "lease_ok l"
  using assms load_update [of s l sid]
  by (auto simp: acquire_eq Let_def grant_lease_ok split: if_splits)

lemma heartbeat_Inr:
  assumes "heartbeat ops lease now ttl s = (Inr l, s')" "leases_ok (so_load ops s)"
  shows "\<exists>stored. map_of (so_load ops s) (sl_sessionId lease) = Some stored
      \<and> sl_fencingToken stored \<le> sl_fencingToken lease \<and> sl_status stored = active
      \<and> l = stored\<lparr>sl_heartbeatAt := toISOString now, sl_expiresAt := toISOString (now + ttl)\<rparr>
      \<and> so_load ops s' = AList.update (sl_sessionId lease) l (so_load ops s) \<and> lease_ok l"
  using assms load_update [of s l "sl_sessionId lease"]
  by (auto simp: heartbeat_def Let_def SessionLease_parse_def split: option.splits if_splits)

lemma heartbeat_ok_iff:
  assumes "leases_ok (so_load ops s)"
  shows "(\<exists>l s'. heartbeat ops lease now ttl s = (Inr l, s')) \<longleftrightarrow>
    (\<exists>stored. map_of (so_load ops s) (sl_sessionId lease) = Some stored
      \<and> sl_fencingToken stored \<le> sl_fencingToken lease \<and> sl_status stored = active)"
proof -
  have "lease_ok (stored\<lparr>sl_heartbeatAt := toISOString now, sl_expiresAt := toISOString (now + ttl)\<rparr>)"
    if "map_of (so_load ops s) k = Some stored" for k stored
    using rec_okD [OF conjunct1 [OF assms] that] by (simp add: lease_ok_def)
  then show ?thesis
    by (auto simp: heartbeat_def Let_def SessionLease_parse_def split: option.splits)
qed

lemma release_load:
  assumes "release ops lease now s = (r, s')" "leases_ok (so_load ops s)"
  shows "r = Inr () \<and> so_load ops s' =
    (case map_of (so_load ops s) (sl_sessionId lease) of
       None \<Rightarrow> so_load ops s
     | Some stored \<Rightarrow>
         if sl_fencingToken stored = sl_fencingToken lease \<and> sl_status stored = active
         then AList.update (sl_sessionId lease) (stored\<lparr>sl_status := released\<rparr>) (so_load ops s)
         else so_load ops s)"
proof (cases "map_of (so_load ops s) (sl_sessionId lease)")
  case (Some stored)
  have "lease_ok (stored\<lparr>sl_status := released\<rparr>)"
    using rec_okD [OF conjunct1 [OF assms(2)] Some] by (simp add: lease_ok_def)
  then show ?thesis
    using assms Some load_update [of s "stored\<lparr>sl_status := released\<rparr>" "sl_sessionId lease"]
    by (auto simp: release_def Let_def SessionLease_parse_def split: if_splits)
qed (use assms in \<open>simp add: release_def Let_def\<close>)

lemma reap_load:
  assumes "reapExpired ops now s = (r, s')" "leases_ok (so_load ops s)"
  shows "r = Inr (map (\<lambda>l. l\<lparr>sl_status := reaped\<rparr>) (filter (expired now) (map snd (so_load ops s))))
    \<and> map_of (so_load ops s') k = map_option (\<lambda>l. if expired now l then l\<lparr>sl_status := reaped\<rparr> else l)
        (map_of (so_load ops s) k)
    \<and> leases_ok (so_load ops s')"
proof -
  let ?rec = "so_load ops s"
  have ok: "obj_ok ?rec" "\<forall>x \<in> snd ` set ?rec. lease_ok x" using assms(2) by (simp_all add: rec_ok_def)
  have "\<forall>p \<in> set ?rec. lease_ok (snd p)" "\<forall>p \<in> set ?rec. map_of ?rec (fst p) = Some (snd p)"
    using ok by auto
  from reap_entries_Inr [OF this(1) ok(1) this(2), of now "[]"]
  obtain rec' where rec': "reap_entries now ?rec ?rec []
      = Inr (rec', map (\<lambda>p. (snd p)\<lparr>sl_status := reaped\<rparr>) (filter (\<lambda>p. expired now (snd p)) ?rec))"
    "\<And>k. map_of rec' k = (case map_of ?rec k of
         Some l \<Rightarrow> if expired now l then Some (l\<lparr>sl_status := reaped\<rparr>) else map_of ?rec k
       | None \<Rightarrow> map_of ?rec k)" "map fst rec' = map fst ?rec"
    by auto
  have obj: "obj_ok rec'" using rec'(3) ok(1) by simp
  have new: "lease_ok l \<and> sl_sessionId l = k" if "(k, l) \<in> set rec'" for k l
  proof -
    have "map_of rec' k = Some l" using obj that by simp
    then obtain l0 where l0: "map_of ?rec k = Some l0" "l = (if expired now l0 then l0\<lparr>sl_status := reaped\<rparr> else l0)"
      using rec'(2) [of k] by (auto split: option.splits if_splits)
    show ?thesis
      using l0(2) rec_okD [OF conjunct1 [OF assms(2)] l0(1)] keyedD [OF conjunct2 [OF assms(2)] l0(1)]
      by (simp add: lease_ok_def)
  qed
  then have lok: "leases_ok rec'" using obj by (auto simp: rec_ok_def keyed_def)
  let ?out = "map (\<lambda>p. (snd p)\<lparr>sl_status := reaped\<rparr>) (filter (\<lambda>p. expired now (snd p)) ?rec)"
  have out: "?out = map (\<lambda>l. l\<lparr>sl_status := reaped\<rparr>) (filter (expired now) (map snd ?rec))"
    by (simp add: filter_map comp_def)
  have mo: "map_of rec' k = map_option (\<lambda>l. if expired now l then l\<lparr>sl_status := reaped\<rparr> else l) (map_of ?rec k)" for k
    using rec'(2) [of k] by (auto split: option.splits)
  show ?thesis
  proof (cases "?out = []")
    case True
    then have all: "\<forall>p \<in> set ?rec. \<not> expired now (snd p)" by (simp add: filter_empty_conv)
    have "\<not> expired now a" if "map_of ?rec k = Some a" for a
      using bspec [OF all map_of_SomeD [OF that]] by simp
    then have "map_option (\<lambda>l. if expired now l then l\<lparr>sl_status := reaped\<rparr> else l) (map_of ?rec k) = map_of ?rec k"
      by (cases "map_of ?rec k") (auto dest: map_of_SomeD)
    then show ?thesis using assms rec'(1) True out by (simp add: reapExpired_def Let_def)
  next
    case False
    then have "s' = so_commit ops rec' s" "r = Inr ?out"
      using assms(1) rec'(1) by (simp_all add: reapExpired_def Let_def)
    then show ?thesis using lok mo out by (simp add: load_commit)
  qed
qed

text \<open>What every operation keeps: well-formedness, and tokens that never go down.\<close>

definition tokens_grow :: "'s \<Rightarrow> 's \<Rightarrow> bool" where
  "tokens_grow s s' \<longleftrightarrow> (\<forall>k st. map_of (so_load ops s) k = Some st \<longrightarrow>
     (\<exists>st'. map_of (so_load ops s') k = Some st' \<and> sl_fencingToken st \<le> sl_fencingToken st'
        \<and> (sl_fencingToken st = sl_fencingToken st' \<longrightarrow> sl_ownerInstanceId st = sl_ownerInstanceId st')))"

lemma leases_ok_update:
  "leases_ok rec \<Longrightarrow> lease_ok l \<Longrightarrow> sl_sessionId l = k \<Longrightarrow> leases_ok (AList.update k l rec)"
  by (intro conjI rec_ok_update keyed_update) auto

lemma acquire_keeps:
  assumes "acquire ops sid owner now ttl s = (Inr l, s')" "leases_ok (so_load ops s)"
  shows "leases_ok (so_load ops s')" "tokens_grow s s'"
  using acquire_Inr [OF assms] assms(2)
  by (auto simp: grant_lease_def tokens_grow_def intro!: rec_ok_update keyed_update)

lemma heartbeat_keeps:
  assumes "heartbeat ops lease now ttl s = (Inr l, s')" "leases_ok (so_load ops s)"
  shows "leases_ok (so_load ops s')" "tokens_grow s s'"
proof -
  obtain stored where st: "map_of (so_load ops s) (sl_sessionId lease) = Some stored"
    "l = stored\<lparr>sl_heartbeatAt := toISOString now, sl_expiresAt := toISOString (now + ttl)\<rparr>"
    "so_load ops s' = AList.update (sl_sessionId lease) l (so_load ops s)" "lease_ok l"
    using heartbeat_Inr [OF assms] by blast
  have "sl_sessionId l = sl_sessionId lease" using keyedD [OF _ st(1)] assms(2) st(2) by simp
  then show "leases_ok (so_load ops s')" using st assms(2) by (auto intro!: rec_ok_update keyed_update)
  show "tokens_grow s s'" using st by (auto simp: tokens_grow_def)
qed

lemma release_keeps:
  assumes "release ops lease now s = (r, s')" "leases_ok (so_load ops s)"
  shows "leases_ok (so_load ops s')" "tokens_grow s s'"
proof -
  have "leases_ok (so_load ops s') \<and> tokens_grow s s'"
  proof (cases "map_of (so_load ops s) (sl_sessionId lease)")
    case (Some stored)
    have "lease_ok (stored\<lparr>sl_status := released\<rparr>)" "sl_sessionId stored = sl_sessionId lease"
      using rec_okD [OF conjunct1 [OF assms(2)] Some] keyedD [OF conjunct2 [OF assms(2)] Some]
      by (simp_all add: lease_ok_def)
    then show ?thesis using release_load [OF assms] Some assms(2)
      by (auto simp: tokens_grow_def intro!: rec_ok_update keyed_update)
  qed (use release_load [OF assms] assms(2) in \<open>auto simp: tokens_grow_def\<close>)
  then show "leases_ok (so_load ops s')" "tokens_grow s s'" by auto
qed

lemma reap_keeps:
  assumes "reapExpired ops now s = (r, s')" "leases_ok (so_load ops s)"
  shows "leases_ok (so_load ops s')" "tokens_grow s s'"
  using reap_load [OF assms] by (auto simp: tokens_grow_def)

end

section \<open>The two stores\<close>

definition InMemorySessionStore :: "session_lease obj session_store" where
  "InMemorySessionStore = memory_store"

definition FileSessionStore :: "string option session_store" where
  "FileSessionStore = file_store SessionLease lease_json"

interpretation mem: session_store InMemorySessionStore
  unfolding InMemorySessionStore_def session_store_def by (rule memory_record_store)

interpretation fil: session_store FileSessionStore
  unfolding FileSessionStore_def session_store_def
  by (rule file_record_store [OF SessionLease_reads json_ok_lease])

section \<open>Daemons competing for sessions\<close>

text \<open>
  The store, the leases granted so far by \<open>acquire\<close> and the clock. Any daemon may take any
  session, refresh or release a lease it was granted, and sweep, in any interleaving; failed
  calls change nothing.
\<close>

type_synonym 's lease_state = "'s \<times> session_lease list \<times> nat"

inductive lease_step :: "'s session_store \<Rightarrow> 's lease_state \<Rightarrow> 's lease_state \<Rightarrow> bool"
  for ops :: "'s session_store"
where
  step_time: "now \<le> now' \<Longrightarrow> lease_step ops (s, G, now) (s, G, now')"
| step_acquire: "acquire ops sid owner now ttl s = (Inr l, s') \<Longrightarrow>
    lease_step ops (s, G, now) (s', l # G, now)"
| step_heartbeat: "lease \<in> set G \<Longrightarrow> heartbeat ops lease now ttl s = (Inr l, s') \<Longrightarrow>
    lease_step ops (s, G, now) (s', G, now)"
| step_release: "lease \<in> set G \<Longrightarrow> release ops lease now s = (r, s') \<Longrightarrow>
    lease_step ops (s, G, now) (s', G, now)"
| step_reap: "reapExpired ops now s = (r, s') \<Longrightarrow> lease_step ops (s, G, now) (s', G, now)"

inductive_cases lease_stepE: "lease_step ops (s, G, now) (s', G', now')"

inductive lease_reach :: "'s session_store \<Rightarrow> 's lease_state \<Rightarrow> 's lease_state \<Rightarrow> bool"
  for ops :: "'s session_store" and x :: "'s lease_state"
where
  reach_refl: "lease_reach ops x x"
| reach_step: "lease_reach ops x y \<Longrightarrow> lease_step ops y z \<Longrightarrow> lease_reach ops x z"

definition granted_tracked :: "'s session_store \<Rightarrow> 's \<Rightarrow> session_lease list \<Rightarrow> bool" where
  "granted_tracked ops s G \<longleftrightarrow>
     leases_ok (so_load ops s)
     \<and> distinct (map (\<lambda>l. (sl_sessionId l, sl_fencingToken l)) G)
     \<and> (\<forall>l \<in> set G. \<exists>st. map_of (so_load ops s) (sl_sessionId l) = Some st
          \<and> sl_fencingToken l \<le> sl_fencingToken st
          \<and> (sl_fencingToken l = sl_fencingToken st \<longrightarrow> sl_ownerInstanceId l = sl_ownerInstanceId st))"

definition lease_inv :: "'s session_store \<Rightarrow> 's lease_state \<Rightarrow> bool" where
  "lease_inv ops x \<longleftrightarrow> (case x of (s, G, _) \<Rightarrow> granted_tracked ops s G)"

context session_store
begin

lemma tracked_grow:
  assumes "granted_tracked ops s G" "tokens_grow s s'" "leases_ok (so_load ops s')"
  shows "granted_tracked ops s' G"
  unfolding granted_tracked_def
proof (intro conjI ballI)
  fix l assume "l \<in> set G"
  then obtain st where st: "map_of (so_load ops s) (sl_sessionId l) = Some st"
    "sl_fencingToken l \<le> sl_fencingToken st"
    "sl_fencingToken l = sl_fencingToken st \<longrightarrow> sl_ownerInstanceId l = sl_ownerInstanceId st"
    using assms(1) by (auto simp: granted_tracked_def)
  obtain st' where st': "map_of (so_load ops s') (sl_sessionId l) = Some st'"
    "sl_fencingToken st \<le> sl_fencingToken st'"
    "sl_fencingToken st = sl_fencingToken st' \<longrightarrow> sl_ownerInstanceId st = sl_ownerInstanceId st'"
    using assms(2) st(1) by (auto simp: tokens_grow_def)
  show "\<exists>st. map_of (so_load ops s') (sl_sessionId l) = Some st
      \<and> sl_fencingToken l \<le> sl_fencingToken st
      \<and> (sl_fencingToken l = sl_fencingToken st \<longrightarrow> sl_ownerInstanceId l = sl_ownerInstanceId st)"
    using st st' by (intro exI [of _ st']) auto
qed (use assms in \<open>auto simp: granted_tracked_def\<close>)

lemma tracked_acquire:
  assumes "granted_tracked ops s G" "acquire ops sid owner now ttl s = (Inr l, s')"
  shows "granted_tracked ops s' (l # G)"
proof -
  have ok: "leases_ok (so_load ops s)" using assms(1) by (simp add: granted_tracked_def)
  note a = acquire_Inr [OF assms(2) ok] and k = acquire_keeps [OF assms(2) ok]
  have old: "granted_tracked ops s' G" by (rule tracked_grow [OF assms(1) k(2,1)])
  have l: "sl_sessionId l = sid" "map_of (so_load ops s') sid = Some l"
    using a(1,2) by (simp_all add: grant_lease_def)
  have "sl_fencingToken g < sl_fencingToken l" if g: "g \<in> set G" "sl_sessionId g = sid" for g
  proof -
    obtain st where "map_of (so_load ops s) sid = Some st" "sl_fencingToken g \<le> sl_fencingToken st"
      using assms(1) g by (auto simp: granted_tracked_def)
    then show ?thesis using a(1) by (simp add: grant_lease_def)
  qed
  then show ?thesis using old l by (force simp: granted_tracked_def)
qed

lemma lease_step_inv: "lease_step ops x y \<Longrightarrow> lease_inv ops x \<Longrightarrow> lease_inv ops y"
proof (induction rule: lease_step.induct)
  case (step_acquire sid owner now ttl s l s' G)
  then show ?case by (auto simp: lease_inv_def intro: tracked_acquire)
next
  case (step_heartbeat lease G now ttl s l s')
  then have t: "granted_tracked ops s G" "leases_ok (so_load ops s)"
    by (auto simp: lease_inv_def granted_tracked_def)
  show ?case
    using tracked_grow [OF t(1)] heartbeat_keeps [OF step_heartbeat.hyps(2) t(2)]
    by (simp add: lease_inv_def)
next
  case (step_release lease G now s r s')
  then have t: "granted_tracked ops s G" "leases_ok (so_load ops s)"
    by (auto simp: lease_inv_def granted_tracked_def)
  show ?case
    using tracked_grow [OF t(1)] release_keeps [OF step_release.hyps(2) t(2)]
    by (simp add: lease_inv_def)
next
  case (step_reap now s r s' G)
  then have t: "granted_tracked ops s G" "leases_ok (so_load ops s)"
    by (auto simp: lease_inv_def granted_tracked_def)
  show ?case
    using tracked_grow [OF t(1)] reap_keeps [OF step_reap.hyps t(2)]
    by (simp add: lease_inv_def)
qed (simp add: lease_inv_def)

lemma lease_reach_inv: "lease_reach ops x y \<Longrightarrow> lease_inv ops x \<Longrightarrow> lease_inv ops y"
  by (induction rule: lease_reach.induct) (auto intro: lease_step_inv)

lemma lease_inv_empty: "so_load ops s = [] \<Longrightarrow> lease_inv ops (s, [], now)"
  by (simp add: lease_inv_def granted_tracked_def keyed_def)

text \<open>Only the newest lease of a session can be refreshed.\<close>

lemma heartbeat_only_newest:
  assumes "granted_tracked ops s G" "a \<in> set G" "b \<in> set G" "sl_sessionId a = sl_sessionId b"
    and "heartbeat ops a now ttl s = (Inr l, s')"
  shows "sl_fencingToken b \<le> sl_fencingToken a \<and> sl_ownerInstanceId l = sl_ownerInstanceId a
    \<and> (a \<noteq> b \<longrightarrow> (\<forall>now ttl. \<exists>e. heartbeat ops b now ttl s = (Inl e, s)))"
proof -
  have ok: "leases_ok (so_load ops s)" using assms(1) by (simp add: granted_tracked_def)
  obtain st where st: "map_of (so_load ops s) (sl_sessionId a) = Some st"
    "sl_fencingToken st \<le> sl_fencingToken a"
    "l = st\<lparr>sl_heartbeatAt := toISOString now, sl_expiresAt := toISOString (now + ttl)\<rparr>"
    using heartbeat_Inr [OF assms(5) ok] by blast
  have tr: "sl_fencingToken x \<le> sl_fencingToken st
      \<and> (sl_fencingToken x = sl_fencingToken st \<longrightarrow> sl_ownerInstanceId x = sl_ownerInstanceId st)"
    if "x \<in> set G" "sl_sessionId x = sl_sessionId a" for x
    using assms(1) that st(1) by (fastforce simp: granted_tracked_def)
  have eq: "sl_fencingToken a = sl_fencingToken st" using tr [OF assms(2) refl] st(2) by simp
  have "inj_on (\<lambda>l. (sl_sessionId l, sl_fencingToken l)) (set G)"
    using assms(1) by (simp add: granted_tracked_def distinct_map)
  then have neq: "sl_fencingToken b \<noteq> sl_fencingToken a" if "a \<noteq> b"
    using that assms(2-4) by (auto simp: inj_on_def)
  have "heartbeat ops b now ttl s = (Inl (FencedError (sl_sessionId b)), s)" if "a \<noteq> b" for now ttl
    using neq [OF that] tr [OF assms(3)] assms(4) eq st(1) by (simp add: heartbeat_def Let_def)
  then show ?thesis using tr [OF assms(2) refl] tr [OF assms(3)] assms(4) eq st(3) by auto
qed

end

section \<open>Properties of the session store\<close>

lemma empty_file_load: "so_load FileSessionStore None = []"
  by (simp add: FileSessionStore_def file_store_def file_load_def)

text \<open>
  C36: mutual exclusion. However daemons interleave acquisitions, refreshes, releases and sweeps
  over the file store, of all the leases ever granted for a session at most one can still be
  refreshed, and it is the one with the highest fencing token: every older lease is fenced.
\<close>

theorem one_live_lease:
  assumes "lease_reach FileSessionStore (None, [], t0) (s, G, now)"
    and "a \<in> set G" "b \<in> set G" "sl_sessionId a = sl_sessionId b"
    and "heartbeat FileSessionStore a now ttl s = (Inr l, s')"
  shows "sl_fencingToken b \<le> sl_fencingToken a \<and> sl_ownerInstanceId l = sl_ownerInstanceId a
    \<and> (a \<noteq> b \<longrightarrow> (\<forall>now ttl. \<exists>e. heartbeat FileSessionStore b now ttl s = (Inl e, s)))"
proof -
  have "lease_inv FileSessionStore (s, G, now)"
    by (rule fil.lease_reach_inv [OF assms(1) fil.lease_inv_empty [OF empty_file_load]])
  then have "granted_tracked FileSessionStore s G" by (simp add: lease_inv_def)
  then show ?thesis by (rule fil.heartbeat_only_newest [OF _ assms(2-5)])
qed

lemma acquire_fresh:
  "sid \<noteq> [] \<Longrightarrow> owner \<noteq> [] \<Longrightarrow> acquire FileSessionStore sid owner now ttl None =
    (Inr (grant_lease None sid owner now ttl),
     so_commit FileSessionStore [(sid, grant_lease None sid owner now ttl)] None)"
  by (simp add: acquire_eq Let_def empty_file_load contended_def)

theorem one_live_lease_witness:
  "\<exists>s l s'. lease_reach FileSessionStore (None, [], 0) (s, [grant_lease None ''s1'' ''d1'' 0 60], 0)
     \<and> heartbeat FileSessionStore (grant_lease None ''s1'' ''d1'' 0 60) 0 60 s = (Inr l, s')
     \<and> sl_ownerInstanceId l = ''d1''"
proof -
  let ?l = "grant_lease None ''s1'' ''d1'' 0 60"
  define s where "s = so_commit FileSessionStore [(''s1'', ?l)] None"
  have a: "acquire FileSessionStore ''s1'' ''d1'' 0 60 None = (Inr ?l, s)"
    by (simp add: acquire_fresh s_def)
  have r: "lease_reach FileSessionStore (None, [], 0) (s, [?l], 0)"
    by (rule reach_step [OF reach_refl step_acquire [OF a]])
  have "leases_ok [(''s1'', ?l)]"
    by (simp add: rec_ok_def keyed_def grant_lease_ok) (simp add: grant_lease_def)
  then have load: "so_load FileSessionStore s = [(''s1'', ?l)]" "leases_ok (so_load FileSessionStore s)"
    using fil.load_commit [of "[(''s1'', ?l)]" None] by (simp_all add: s_def)
  have "\<exists>l s'. heartbeat FileSessionStore ?l 0 60 s = (Inr l, s')"
    unfolding fil.heartbeat_ok_iff [OF load(2)] load(1) by (simp add: grant_lease_def)
  then obtain l s' where h: "heartbeat FileSessionStore ?l 0 60 s = (Inr l, s')" by blast
  have "sl_ownerInstanceId l = ''d1''"
    using one_live_lease [OF r _ _ refl h] by (simp add: grant_lease_def)
  then show ?thesis using r h by blast
qed

text \<open>
  A session is refused exactly when another daemon holds an active lease that has not
  expired; otherwise the acquisition supersedes whatever lease there was with a strictly
  higher token, valid until \<open>ttl\<close> after now. Refused or not, no other session is touched.
\<close>

theorem acquire_exact:
  assumes "leases_ok (so_load FileSessionStore s)" "sid \<noteq> []" "owner \<noteq> []" "date_ok (now + ttl)"
  defines "existing \<equiv> map_of (so_load FileSessionStore s) sid"
  shows "if \<exists>e t. existing = Some e \<and> sl_status e = active \<and> sl_ownerInstanceId e \<noteq> owner
            \<and> date_parse (sl_expiresAt e) = Some t \<and> now < t
     then acquire FileSessionStore sid owner now ttl s = (Inl (SessionContendedError sid), s)
     else \<exists>l s'. acquire FileSessionStore sid owner now ttl s = (Inr l, s')
       \<and> sl_status l = active \<and> sl_ownerInstanceId l = owner
       \<and> date_parse (sl_expiresAt l) = Some (now + ttl)
       \<and> (\<forall>e. existing = Some e \<longrightarrow> sl_fencingToken e < sl_fencingToken l)
       \<and> (\<forall>k. map_of (so_load FileSessionStore s') k
             = (if k = sid then Some l else map_of (so_load FileSessionStore s) k))"
proof (cases "contended existing owner now")
  case True
  then show ?thesis
    by (auto simp: contended_def date_after_def acquire_eq Let_def existing_def split: option.splits)
next
  case False
  let ?l = "grant_lease existing sid owner now ttl"
  obtain s' where a: "acquire FileSessionStore sid owner now ttl s = (Inr ?l, s')"
    using False assms(2,3) by (simp add: acquire_eq Let_def existing_def)
  have load: "so_load FileSessionStore s' = AList.update sid ?l (so_load FileSessionStore s)"
    using fil.acquire_Inr(2) [OF a assms(1)] .
  have exp: "date_parse (sl_expiresAt ?l) = Some (now + ttl)"
    using date_parse_toISOString [OF assms(4)] by (simp add: grant_lease_def)
  have no: "\<not> (\<exists>e t. existing = Some e \<and> sl_status e = active \<and> sl_ownerInstanceId e \<noteq> owner
            \<and> date_parse (sl_expiresAt e) = Some t \<and> now < t)"
    using False by (auto simp: contended_def date_after_def)
  have tok: "\<forall>e. existing = Some e \<longrightarrow> sl_fencingToken e < sl_fencingToken ?l"
    "sl_status ?l = active" "sl_ownerInstanceId ?l = owner"
    by (simp_all add: grant_lease_def)
  show ?thesis unfolding if_not_P [OF no] using a exp tok load by auto
qed

theorem acquire_exact_witness:
  "\<exists>l s'. acquire FileSessionStore ''s1'' ''d1'' 0 60000 None = (Inr l, s') \<and> sl_ownerInstanceId l = ''d1''"
proof -
  have ok: "leases_ok (so_load FileSessionStore None)" by (simp add: empty_file_load keyed_def)
  have d: "date_ok (0 + 60000)"
    by (simp add: date_ok_def iso_year_def civil_of_def split_years.simps split_months.simps
        year_len_def month_len_def is_leap_def)
  show ?thesis using acquire_exact [OF ok _ _ d, of "''s1''" "''d1''"] by (auto simp: empty_file_load)
qed

text \<open>
  A sweep reaps exactly the active leases whose expiry has passed, returns them, and
  changes nothing else; a second sweep at the same time reaps nothing.
\<close>

theorem reap_exact:
  assumes "leases_ok (so_load FileSessionStore s)" "reapExpired FileSessionStore now s = (r, s')"
  shows "r = Inr (map (\<lambda>l. l\<lparr>sl_status := reaped\<rparr>) (filter (expired now) (list_sessions FileSessionStore s)))
    \<and> get_session FileSessionStore sid s' =
        map_option (\<lambda>l. if expired now l then l\<lparr>sl_status := reaped\<rparr> else l) (get_session FileSessionStore sid s)
    \<and> reapExpired FileSessionStore now s' = (Inr [], s')"
proof -
  note r = fil.reap_load [OF assms(2,1)]
  have r1: "r = Inr (map (\<lambda>l. l\<lparr>sl_status := reaped\<rparr>) (filter (expired now) (map snd (so_load FileSessionStore s))))"
    and r2: "\<And>k. map_of (so_load FileSessionStore s') k =
        map_option (\<lambda>l. if expired now l then l\<lparr>sl_status := reaped\<rparr> else l) (map_of (so_load FileSessionStore s) k)"
    and r3: "leases_ok (so_load FileSessionStore s')"
    using r by auto
  obtain r' s'' where again: "reapExpired FileSessionStore now s' = (r', s'')" by fastforce
  have none: "\<not> expired now l" if l: "l \<in> set (map snd (so_load FileSessionStore s'))" for l
  proof -
    obtain k where "map_of (so_load FileSessionStore s') k = Some l" using l r3 by (auto simp: rec_ok_def)
    then show ?thesis using r2 [of k]
      by (auto simp: expired_def split: if_splits dest: arg_cong [where f = sl_status])
  qed
  then have nil: "filter (expired now) (map snd (so_load FileSessionStore s')) = []"
    by (simp only: filter_empty_conv) blast
  have "r' = Inr []" using fil.reap_load [OF again r3] nil by simp
  moreover have "s'' = s'"
    using again \<open>r' = Inr []\<close> by (auto simp: reapExpired_def Let_def split: sum.splits if_splits)
  ultimately show ?thesis using r1 r2 again by (simp add: list_sessions_def get_session_def)
qed

theorem reap_exact_witness:
  "\<exists>r s'. reapExpired FileSessionStore 5 None = (r, s') \<and> r = Inr []"
proof -
  have ok: "leases_ok (so_load FileSessionStore None)" by (simp add: empty_file_load keyed_def)
  obtain r s' where a: "reapExpired FileSessionStore 5 None = (r, s')" by fastforce
  from reap_exact [OF ok a, of "''s1''"] a show ?thesis by (simp add: list_sessions_def empty_file_load)
qed

end
