(* ===== verification/Outbox.thy ===== *)
theory Outbox
  imports Stores
begin

text \<open>
  \<open>src/daemon/outbox-store.ts\<close> and \<open>src/daemon/outbox-relay.ts\<close>: the obligations to project an
  event to the channel, over the same store interface as the sessions, and the relay that
  records an obligation before it tries to deliver it. The channel is any action that may
  return a boolean or throw.
\<close>

section \<open>The store\<close>

type_synonym 's outbox_store = "('s, outbox_delivery) store_ops"

definition get_delivery :: "'s outbox_store \<Rightarrow> string \<Rightarrow> 's \<Rightarrow> outbox_delivery option" where
  "get_delivery ops i s = map_of (so_load ops s) i"

definition list_deliveries :: "'s outbox_store \<Rightarrow> 's \<Rightarrow> outbox_delivery list" where
  "list_deliveries ops s = map snd (so_load ops s)"

definition pending_deliveries :: "'s outbox_store \<Rightarrow> 's \<Rightarrow> outbox_delivery list" where
  "pending_deliveries ops s = filter (\<lambda>d. od_status d = pending) (map snd (so_load ops s))"

definition enqueue :: "'s outbox_store \<Rightarrow> outbox_delivery \<Rightarrow> ('s, unit) act" where
  "enqueue ops d s =
     (let rec = so_load ops s in
      if map_of rec (od_id d) \<noteq> None then (Inr (), s)
      else (case OutboxDelivery_parse d of
              Inl e \<Rightarrow> (Inl e, s)
            | Inr d' \<Rightarrow> (Inr (), so_commit ops (AList.update (od_id d) d' rec) s)))"

definition recordAttempt :: "'s outbox_store \<Rightarrow> string \<Rightarrow> ('s, unit) act" where
  "recordAttempt ops i s =
     (let rec = so_load ops s in
      case map_of rec i of
        None \<Rightarrow> (Inr (), s)
      | Some d \<Rightarrow>
          (case OutboxDelivery_parse (d\<lparr>od_attempts := od_attempts d + 1\<rparr>) of
             Inl e \<Rightarrow> (Inl e, s)
           | Inr d' \<Rightarrow> (Inr (), so_commit ops (AList.update i d' rec) s)))"

definition markDelivered :: "'s outbox_store \<Rightarrow> string \<Rightarrow> string \<Rightarrow> ('s, unit) act" where
  "markDelivered ops i atIso s =
     (let rec = so_load ops s in
      case map_of rec i of
        None \<Rightarrow> (Inr (), s)
      | Some d \<Rightarrow>
          (case OutboxDelivery_parse (d\<lparr>od_status := delivered, od_deliveredAt := Some atIso\<rparr>) of
             Inl e \<Rightarrow> (Inl e, s)
           | Inr d' \<Rightarrow> (Inr (), so_commit ops (AList.update i d' rec) s)))"

section \<open>The relay\<close>

text \<open>
  The relay's world: the store, the channel, and how often the clock and the id generator have
  been read; \<open>clock\<close> and \<open>ids\<close> give their readings.
\<close>

record ('s, 'c) relay =
  rl_store :: 's
  rl_channel :: 'c
  rl_ticks :: nat
  rl_ids :: nat

record ('s, 'c) relay_deps =
  rd_ops :: "'s outbox_store"
  rd_project :: "string \<Rightarrow> string \<Rightarrow> ('c, bool) act"
  rd_now :: "nat \<Rightarrow> string"
  rd_genId :: "nat \<Rightarrow> string"

definition on_store :: "('s, 'a) act \<Rightarrow> (('s, 'c) relay, 'a) act" where
  "on_store m w = (case m (rl_store w) of (r, s) \<Rightarrow> (r, w\<lparr>rl_store := s\<rparr>))"

definition on_channel :: "('c, 'a) act \<Rightarrow> (('s, 'c) relay, 'a) act" where
  "on_channel m w = (case m (rl_channel w) of (r, c) \<Rightarrow> (r, w\<lparr>rl_channel := c\<rparr>))"

definition relay_now :: "('s, 'c) relay_deps \<Rightarrow> (('s, 'c) relay, string) act" where
  "relay_now D w = (Inr (rd_now D (rl_ticks w)), w\<lparr>rl_ticks := rl_ticks w + 1\<rparr>)"

definition relay_genId :: "('s, 'c) relay_deps \<Rightarrow> (('s, 'c) relay, string) act" where
  "relay_genId D w = (Inr (rd_genId D (rl_ids w)), w\<lparr>rl_ids := rl_ids w + 1\<rparr>)"

definition attempt :: "('s, 'c) relay_deps \<Rightarrow> outbox_delivery \<Rightarrow> (('s, 'c) relay, unit) act" where
  "attempt D entry =
     act_seq (on_store (recordAttempt (rd_ops D) (od_id entry)))
       (act_catch
         (act_bind (on_channel (rd_project D (od_eventKind entry) (od_summary entry))) (\<lambda>ok.
            if ok then act_bind (relay_now D) (\<lambda>t. on_store (markDelivered (rd_ops D) (od_id entry) t))
            else act_ret ()))
         (\<lambda>_. act_ret ()))"

definition new_delivery :: "string \<Rightarrow> string \<Rightarrow> string \<Rightarrow> string \<Rightarrow> outbox_delivery" where
  "new_delivery i kind summary t = \<lparr>od_id = i, od_eventKind = kind, od_summary = summary,
     od_status = pending, od_attempts = 0, od_enqueuedAt = t, od_deliveredAt = None\<rparr>"

definition project :: "('s, 'c) relay_deps \<Rightarrow> string \<Rightarrow> string \<Rightarrow> (('s, 'c) relay, outbox_delivery) act" where
  "project D kind summary =
     act_bind (relay_genId D) (\<lambda>i. act_bind (relay_now D) (\<lambda>t.
       act_bind (act_lift (OutboxDelivery_parse (new_delivery i kind summary t))) (\<lambda>entry.
         act_seq (on_store (enqueue (rd_ops D) entry))
           (act_seq (attempt D entry)
             (act_get (\<lambda>w. case get_delivery (rd_ops D) (od_id entry) (rl_store w) of
                               Some d \<Rightarrow> d | None \<Rightarrow> entry))))))"

fun attempt_all :: "('s, 'c) relay_deps \<Rightarrow> outbox_delivery list \<Rightarrow> (('s, 'c) relay, unit) act" where
  "attempt_all D [] = act_ret ()"
| "attempt_all D (e # es) = act_seq (attempt D e) (attempt_all D es)"

record drain_result =
  dr_delivered :: int
  dr_stillPending :: nat

definition drain :: "('s, 'c) relay_deps \<Rightarrow> (('s, 'c) relay, drain_result) act" where
  "drain D =
     act_bind (act_get (\<lambda>w. pending_deliveries (rd_ops D) (rl_store w))) (\<lambda>pend.
       act_seq (attempt_all D pend)
         (act_get (\<lambda>w. let still = length (pending_deliveries (rd_ops D) (rl_store w)) in
            \<lparr>dr_delivered = int (length pend) - int still, dr_stillPending = still\<rparr>)))"

section \<open>Facts for every store\<close>

definition okeyed :: "outbox_delivery obj \<Rightarrow> bool" where
  "okeyed rec \<longleftrightarrow> (\<forall>(k, d) \<in> set rec. od_id d = k)"

abbreviation outbox_ok :: "outbox_delivery obj \<Rightarrow> bool" where
  "outbox_ok rec \<equiv> rec_ok delivery_ok rec \<and> okeyed rec"

lemma okeyed_update: "okeyed rec \<Longrightarrow> od_id d = k \<Longrightarrow> okeyed (AList.update k d rec)"
  unfolding okeyed_def by (rule entries_update_ball)

lemma okeyedD: "okeyed rec \<Longrightarrow> map_of rec k = Some d \<Longrightarrow> od_id d = k"
  unfolding okeyed_def by (rule map_of_ballD)

lemma delivery_ok_fields [simp]:
  "delivery_ok (d\<lparr>od_attempts := n\<rparr>) = delivery_ok d"
  "delivery_ok (d\<lparr>od_status := st, od_deliveredAt := t\<rparr>) = delivery_ok d"
  by (simp_all add: delivery_ok_def)

text \<open>What one attempt makes of an obligation, given whether the channel accepted it.\<close>

definition settle_delivery :: "bool \<Rightarrow> string \<Rightarrow> outbox_delivery \<Rightarrow> outbox_delivery" where
  "settle_delivery b t d = (let d' = d\<lparr>od_attempts := od_attempts d + 1\<rparr> in
     if b then d'\<lparr>od_status := delivered, od_deliveredAt := Some t\<rparr> else d')"

definition accepted :: "bool result \<Rightarrow> bool" where
  "accepted r \<longleftrightarrow> r = Inr True"

lemma update_update: "AList.update k v (AList.update k u xs) = AList.update k v xs"
  by (induction xs) auto

locale outbox_store = record_store ops delivery_ok for ops :: "'s outbox_store"
begin

lemma enqueue_fresh:
  assumes "delivery_ok d" "outbox_ok (so_load ops s)" "map_of (so_load ops s) (od_id d) = None"
  shows "\<exists>s'. enqueue ops d s = (Inr (), s') \<and> so_load ops s' = so_load ops s @ [(od_id d, d)]
    \<and> outbox_ok (so_load ops s')"
proof -
  have l: "so_load ops (so_commit ops (AList.update (od_id d) d (so_load ops s)) s) = AList.update (od_id d) d (so_load ops s)"
    using assms by (intro load_update) auto
  have "AList.update (od_id d) d (so_load ops s) = so_load ops s @ [(od_id d, d)]"
    using assms(3) by (intro update_fresh) (simp add: map_of_eq_None_iff)
  moreover have "outbox_ok (AList.update (od_id d) d (so_load ops s))"
    using assms by (auto intro: rec_ok_update okeyed_update)
  ultimately show ?thesis using assms l by (simp add: enqueue_def Let_def OutboxDelivery_parse_def)
qed

lemma recordAttempt_load:
  assumes "outbox_ok (so_load ops s)" "map_of (so_load ops s) i = Some d"
  shows "\<exists>s'. recordAttempt ops i s = (Inr (), s')
    \<and> so_load ops s' = AList.update i (d\<lparr>od_attempts := od_attempts d + 1\<rparr>) (so_load ops s)"
proof -
  have "delivery_ok d" using rec_okD [OF conjunct1 [OF assms(1)] assms(2)] .
  then show ?thesis
    using assms load_update [of s "d\<lparr>od_attempts := od_attempts d + 1\<rparr>" i]
    by (simp add: recordAttempt_def Let_def OutboxDelivery_parse_def)
qed

lemma markDelivered_load:
  assumes "outbox_ok (so_load ops s)" "map_of (so_load ops s) i = Some d"
  shows "\<exists>s'. markDelivered ops i t s = (Inr (), s')
    \<and> so_load ops s' = AList.update i (d\<lparr>od_status := delivered, od_deliveredAt := Some t\<rparr>) (so_load ops s)"
proof -
  have "delivery_ok d" using rec_okD [OF conjunct1 [OF assms(1)] assms(2)] .
  then show ?thesis
    using assms load_update [of s "d\<lparr>od_status := delivered, od_deliveredAt := Some t\<rparr>" i]
    by (simp add: markDelivered_def Let_def OutboxDelivery_parse_def)
qed

lemma attempt_run:
  assumes ops: "rd_ops D = ops" and ok: "outbox_ok (so_load ops (rl_store w))"
    and e: "map_of (so_load ops (rl_store w)) (od_id e) = Some d"
    and ch: "rd_project D (od_eventKind e) (od_summary e) (rl_channel w) = (r, c)"
  shows "\<exists>w'. attempt D e w = (Inr (), w') \<and> rl_channel w' = c \<and> rl_ids w' = rl_ids w
    \<and> so_load ops (rl_store w')
      = AList.update (od_id e) (settle_delivery (accepted r) (rd_now D (rl_ticks w)) d) (so_load ops (rl_store w))"
proof -
  obtain s1 where s1: "recordAttempt ops (od_id e) (rl_store w) = (Inr (), s1)"
    "so_load ops s1 = AList.update (od_id e) (d\<lparr>od_attempts := od_attempts d + 1\<rparr>) (so_load ops (rl_store w))"
    using recordAttempt_load [OF ok e] by blast
  have dok: "delivery_ok d" "od_id d = od_id e"
    using rec_okD [OF conjunct1 [OF ok] e] okeyedD [OF conjunct2 [OF ok] e] by auto
  have ok1: "outbox_ok (so_load ops s1)"
    unfolding s1(2) using ok dok by (auto intro!: rec_ok_update okeyed_update)
  have m1: "map_of (so_load ops s1) (od_id e) = Some (d\<lparr>od_attempts := od_attempts d + 1\<rparr>)"
    by (simp add: s1(2))
  show ?thesis
  proof (cases "accepted r")
    case True
    then have r: "r = Inr True" by (simp add: accepted_def)
    obtain s2 where "markDelivered ops (od_id e) (rd_now D (rl_ticks w)) s1 = (Inr (), s2)"
      "so_load ops s2 = AList.update (od_id e) (settle_delivery True (rd_now D (rl_ticks w)) d) (so_load ops (rl_store w))"
      using markDelivered_load [OF ok1 m1, of "rd_now D (rl_ticks w)"] s1(2)
      by (auto simp: update_update settle_delivery_def Let_def)
    then show ?thesis using s1(1) ops ch r True
      by (simp add: attempt_def on_store_def on_channel_def relay_now_def act_defs)
  next
    case False
    then show ?thesis using s1 ops ch
      by (cases r) (auto simp: attempt_def on_store_def on_channel_def relay_now_def act_defs
          accepted_def settle_delivery_def Let_def)
  qed
qed

end

lemma assoc_list_eqI:
  "map fst xs = map fst ys \<Longrightarrow> distinct (map fst xs) \<Longrightarrow> map_of xs = map_of ys \<Longrightarrow> xs = ys"
proof (induction xs ys rule: list_induct2')
  case (4 x xs y ys)
  obtain k v u where xy: "x = (k, v)" "y = (k, u)" using 4(2) by (cases x; cases y) auto
  have "v = u" using fun_cong [OF 4(4), of k] xy by simp
  moreover have "map_of xs = map_of ys"
  proof
    fix j
    show "map_of xs j = map_of ys j"
    proof (cases "j = k")
      case True
      have "k \<notin> fst ` set xs" "k \<notin> fst ` set ys" using 4(2,3) xy by (auto, metis image_eqI list.set_map fst_conv)
      then show ?thesis using True by (simp add: map_of_eq_None_iff [symmetric])
    qed (use fun_cong [OF 4(4), of j] xy in simp)
  qed
  ultimately show ?case using 4 xy by simp
qed auto

text \<open>What the channel answers to a list of posts, one after the other.\<close>

fun post_all :: "('s, 'c) relay_deps \<Rightarrow> outbox_delivery list \<Rightarrow> 'c \<Rightarrow> bool list \<times> 'c" where
  "post_all D [] c = ([], c)"
| "post_all D (e # es) c =
     (case rd_project D (od_eventKind e) (od_summary e) c of
        (r, c') \<Rightarrow> apfst ((#) (accepted r)) (post_all D es c'))"

lemma length_post_all: "length (fst (post_all D es c)) = length es"
  by (induction es arbitrary: c) (auto split: prod.split)

text \<open>The record after the answers \<open>f\<close>, with \<open>\<tau>\<close> the times of delivery.\<close>

definition settled :: "(string \<rightharpoonup> bool) \<Rightarrow> (string \<Rightarrow> string) \<Rightarrow> outbox_delivery \<Rightarrow> outbox_delivery" where
  "settled f \<tau> d = (case f (od_id d) of None \<Rightarrow> d | Some b \<Rightarrow> settle_delivery b (\<tau> (od_id d)) d)"

lemma settle_id [simp]: "od_id (settle_delivery b t d) = od_id d"
  by (simp add: settle_delivery_def Let_def)

lemma settle_ok [simp]: "delivery_ok (settle_delivery b t d) = delivery_ok d"
  by (simp add: settle_delivery_def Let_def)

lemma settle_status: "od_status (settle_delivery b t d) = (if b then delivered else od_status d)"
  by (simp add: settle_delivery_def Let_def)

lemma count_settled:
  "distinct (map od_id xs) \<Longrightarrow> length bs = length (filter (\<lambda>d. od_status d = pending) xs) \<Longrightarrow>
   length (filter (\<lambda>d. od_status d = pending)
      (map (settled (map_of (zip (map od_id (filter (\<lambda>d. od_status d = pending) xs)) bs)) \<tau>) xs))
   = length (filter Not bs)"
proof (induction xs arbitrary: bs)
  case (Cons x xs)
  let ?p = "filter (\<lambda>d. od_status d = pending)"
  have cong: "map (settled ((map_of (zip (map od_id (?p xs)) bs'))(od_id x \<mapsto> b)) \<tau>) xs
      = map (settled (map_of (zip (map od_id (?p xs)) bs')) \<tau>) xs" for b bs'
    using Cons.prems(1) by (intro map_cong) (auto simp: settled_def rev_image_eqI)
  show ?case
  proof (cases "od_status x = pending")
    case True
    then obtain b bs' where bs: "bs = b # bs'" using Cons.prems(2) by (cases bs) auto
    let ?F = "(map_of (zip (map od_id (?p xs)) bs'))(od_id x \<mapsto> b)"
    have "settled ?F \<tau> x = settle_delivery b (\<tau> (od_id x)) x" by (simp add: settled_def)
    then have eq: "map (settled ?F \<tau>) (x # xs)
        = settle_delivery b (\<tau> (od_id x)) x # map (settled (map_of (zip (map od_id (?p xs)) bs')) \<tau>) xs"
      using cong [of bs' b] by simp
    have "length bs' = length (?p xs)" using Cons.prems(2) True bs by simp
    then have IH: "length (?p (map (settled (map_of (zip (map od_id (?p xs)) bs')) \<tau>) xs)) = length (filter Not bs')"
      using Cons.IH Cons.prems(1) by simp
    have F: "map_of (zip (map od_id (?p (x # xs))) bs) = ?F" using True bs by simp
    show ?thesis unfolding F eq using IH bs True by (simp add: settle_status)
  next
    case False
    have "od_id x \<notin> set (map od_id (?p xs))" using Cons.prems(1) by auto
    then have "map_of (zip (map od_id (?p xs)) bs) (od_id x) = None"
      by (metis map_of_eq_None_iff map_fst_zip_take in_set_takeD list.set_map)
    then have "settled (map_of (zip (map od_id (?p xs)) bs)) \<tau> x = x" by (simp add: settled_def)
    then show ?thesis using False Cons by simp
  qed
qed simp

context outbox_store
begin

lemma attempt_all_run:
  assumes "rd_ops D = ops"
  shows "outbox_ok (so_load ops (rl_store w)) \<Longrightarrow> distinct (map od_id es) \<Longrightarrow>
    \<forall>e \<in> set es. map_of (so_load ops (rl_store w)) (od_id e) = Some e \<Longrightarrow>
    post_all D es (rl_channel w) = (bs, c) \<Longrightarrow>
    \<exists>w' \<tau>. attempt_all D es w = (Inr (), w') \<and> rl_channel w' = c
      \<and> map fst (so_load ops (rl_store w')) = map fst (so_load ops (rl_store w))
      \<and> outbox_ok (so_load ops (rl_store w'))
      \<and> (\<forall>k. map_of (so_load ops (rl_store w')) k
           = map_option (settled (map_of (zip (map od_id es) bs)) \<tau>) (map_of (so_load ops (rl_store w)) k))"
proof (induction es arbitrary: w bs)
  case Nil
  have "settled Map.empty \<tau> = id" for \<tau> by (auto simp: settled_def)
  then show ?case using Nil by (intro exI [of _ w]) (simp add: act_ret_def option.map_ident id_def)
next
  case (Cons e es)
  let ?rec = "so_load ops (rl_store w)"
  obtain r c1 where ch: "rd_project D (od_eventKind e) (od_summary e) (rl_channel w) = (r, c1)" by fastforce
  obtain bs' where bs: "post_all D es c1 = (bs', c)" "bs = accepted r # bs'"
    using Cons.prems(4) ch by (cases "post_all D es c1") auto
  have e: "map_of ?rec (od_id e) = Some e" using Cons.prems(3) by simp
  obtain w1 where w1: "attempt D e w = (Inr (), w1)" "rl_channel w1 = c1"
    "so_load ops (rl_store w1) = AList.update (od_id e) (settle_delivery (accepted r) (rd_now D (rl_ticks w)) e) ?rec"
    using attempt_run [OF assms Cons.prems(1) e ch] by blast
  have ok1: "outbox_ok (so_load ops (rl_store w1))"
    unfolding w1(3) using Cons.prems(1) rec_okD [OF conjunct1 [OF Cons.prems(1)] e]
    by (intro conjI rec_ok_update okeyed_update) simp_all
  have es: "\<forall>e' \<in> set es. map_of (so_load ops (rl_store w1)) (od_id e') = Some e'"
  proof
    fix e' assume e': "e' \<in> set es"
    then have "od_id e' \<noteq> od_id e" using Cons.prems(2) by (auto simp: image_iff)
    then show "map_of (so_load ops (rl_store w1)) (od_id e') = Some e'"
      using Cons.prems(3) e' w1(3) by simp
  qed
  have post: "post_all D es (rl_channel w1) = (bs', c)" using bs(1) w1(2) by simp
  have dist: "distinct (map od_id es)" using Cons.prems(2) by simp
  obtain w' \<tau> where w': "attempt_all D es w1 = (Inr (), w')" "rl_channel w' = c"
    "map fst (so_load ops (rl_store w')) = map fst (so_load ops (rl_store w1))"
    "outbox_ok (so_load ops (rl_store w'))"
    "\<And>k. map_of (so_load ops (rl_store w')) k
           = map_option (settled (map_of (zip (map od_id es) bs')) \<tau>) (map_of (so_load ops (rl_store w1)) k)"
    using Cons.IH [OF ok1 dist es post] by blast
  let ?f = "map_of (zip (map od_id es) bs')"
  have fresh: "?f (od_id e) = None"
    using Cons.prems(2) length_post_all [of D es c1] bs(1) by (auto simp: map_of_zip_is_None)
  let ?t = "\<tau>(od_id e := rd_now D (rl_ticks w))"
  have "map_of (so_load ops (rl_store w')) k = map_option (settled (?f(od_id e \<mapsto> accepted r)) ?t) (map_of ?rec k)" for k
  proof (cases "k = od_id e")
    case True
    then show ?thesis using w'(5) [of k] w1(3) e fresh by (simp add: settled_def)
  next
    case False
    show ?thesis
    proof (cases "map_of ?rec k")
      case (Some d)
      have "od_id d = k" using okeyedD [OF conjunct2 [OF Cons.prems(1)] Some] .
      then show ?thesis using w'(5) [of k] w1(3) False Some by (simp add: settled_def split: option.split)
    qed (use w'(5) [of k] w1(3) False in simp)
  qed
  moreover have "attempt_all D (e # es) w = (Inr (), w')" using w1(1) w'(1) by (simp add: act_seq_run)
  moreover have "map fst (so_load ops (rl_store w')) = map fst ?rec"
    using w'(3) w1(3) update_in_place [OF e] by simp
  ultimately show ?case using w'(2,4) bs(2) by (intro exI [of _ w'] exI [of _ ?t]) (simp add: fun_upd_def)
qed

lemma pending_of_rec:
  assumes "outbox_ok rec"
  defines "p \<equiv> filter (\<lambda>d. od_status d = pending) (map snd rec)"
  shows "distinct (map od_id (map snd rec))" "distinct (map od_id p)" "\<forall>e \<in> set p. map_of rec (od_id e) = Some e"
proof -
  have ids: "map od_id (map snd rec) = map fst rec"
    using assms(1) by (auto simp: okeyed_def)
  then show d: "distinct (map od_id (map snd rec))" using assms(1) by (simp only: rec_ok_def)
  then show "distinct (map od_id p)" unfolding p_def by (simp add: distinct_map_filter)
  show "\<forall>e \<in> set p. map_of rec (od_id e) = Some e"
    using assms(1) by (auto simp: p_def rec_ok_def okeyed_def)
qed

lemma drain_run:
  assumes "rd_ops D = ops" "outbox_ok (so_load ops (rl_store w))"
    and "post_all D (pending_deliveries ops (rl_store w)) (rl_channel w) = (bs, c)"
  shows "\<exists>w' \<tau>. drain D w = (Inr \<lparr>dr_delivered = int (length (filter id bs)),
        dr_stillPending = length (filter Not bs)\<rparr>, w') \<and> rl_channel w' = c
    \<and> outbox_ok (so_load ops (rl_store w'))
    \<and> (\<forall>k. map_of (so_load ops (rl_store w')) k
         = map_option (settled (map_of (zip (map od_id (pending_deliveries ops (rl_store w))) bs)) \<tau>)
             (map_of (so_load ops (rl_store w)) k))"
proof -
  let ?rec = "so_load ops (rl_store w)" and ?p = "pending_deliveries ops (rl_store w)"
  note P = pending_of_rec [OF assms(2)]
  have p: "distinct (map od_id ?p)" "\<forall>e \<in> set ?p. map_of ?rec (od_id e) = Some e"
    using P(2,3) by (simp_all add: pending_deliveries_def)
  let ?f = "map_of (zip (map od_id ?p) bs)"
  obtain w' \<tau> where w': "attempt_all D ?p w = (Inr (), w')" "rl_channel w' = c"
    "map fst (so_load ops (rl_store w')) = map fst ?rec" "outbox_ok (so_load ops (rl_store w'))"
    "\<forall>k. map_of (so_load ops (rl_store w')) k = map_option (settled ?f \<tau>) (map_of ?rec k)"
    using attempt_all_run [OF assms(1,2) p assms(3)] by blast
  have rec': "so_load ops (rl_store w') = map (\<lambda>p. (fst p, settled ?f \<tau> (snd p))) ?rec"
  proof (rule assoc_list_eqI)
    show "distinct (map fst (so_load ops (rl_store w')))" using w'(4) by (simp add: rec_ok_def)
    show "map fst (so_load ops (rl_store w')) = map fst (map (\<lambda>p. (fst p, settled ?f \<tau> (snd p))) ?rec)"
      using w'(3) by simp
    have "map_of (map (\<lambda>p. (fst p, g (snd p))) zs) k = map_option g (map_of zs k)"
      for g :: "outbox_delivery \<Rightarrow> outbox_delivery" and zs :: "outbox_delivery obj" and k
      by (induction zs) auto
    then show "map_of (so_load ops (rl_store w')) = map_of (map (\<lambda>p. (fst p, settled ?f \<tau> (snd p))) ?rec)"
      using w'(5) by (intro ext) simp
  qed
  have len: "length bs = length ?p" using length_post_all [of D ?p "rl_channel w"] assms(3) by simp
  have "pending_deliveries ops (rl_store w')
      = filter (\<lambda>d. od_status d = pending) (map (settled ?f \<tau>) (map snd ?rec))"
    unfolding pending_deliveries_def rec' by (simp add: comp_def)
  then have still: "length (pending_deliveries ops (rl_store w')) = length (filter Not bs)"
    using count_settled [OF P(1), of bs \<tau>] len by (simp only: pending_deliveries_def)
  have "length bs = length (filter id bs) + length (filter Not bs)"
    by (induction bs) auto
  then have "drain D w = (Inr \<lparr>dr_delivered = int (length (filter id bs)),
        dr_stillPending = length (filter Not bs)\<rparr>, w')"
    using w'(1) still len assms(1) by (simp add: drain_def act_bind_def act_get_def act_seq_def Let_def)
  then show ?thesis using w'(2,4,5) by blast
qed

end

section \<open>The two stores and their properties\<close>

definition InMemoryOutboxStore :: "outbox_delivery obj outbox_store" where
  "InMemoryOutboxStore = memory_store"

definition FileOutboxStore :: "string option outbox_store" where
  "FileOutboxStore = file_store OutboxDelivery delivery_json"

interpretation mem_outbox: outbox_store InMemoryOutboxStore
  unfolding InMemoryOutboxStore_def outbox_store_def by (rule memory_record_store)

interpretation file_outbox: outbox_store FileOutboxStore
  unfolding FileOutboxStore_def outbox_store_def
  by (rule file_record_store [OF OutboxDelivery_reads json_ok_delivery])

lemma empty_outbox_load: "so_load FileOutboxStore None = []"
  by (simp add: FileOutboxStore_def file_store_def file_load_def)

text \<open>
  A drain posts every pending obligation once, in the order they were enqueued, marks
  delivered exactly those the channel accepts, counts one attempt for each, loses none, leaves
  every other entry of the file as it was, and reports exactly how many were delivered and how
  many remain. It never throws, whatever the channel does.
\<close>

theorem drain_exact:
  assumes "rd_ops D = FileOutboxStore" "outbox_ok (so_load FileOutboxStore (rl_store w))"
    and "post_all D (pending_deliveries FileOutboxStore (rl_store w)) (rl_channel w) = (bs, c)"
  shows "\<exists>w' \<tau>. drain D w = (Inr \<lparr>dr_delivered = int (length (filter id bs)),
        dr_stillPending = length (filter Not bs)\<rparr>, w') \<and> rl_channel w' = c
    \<and> (\<forall>i. get_delivery FileOutboxStore i (rl_store w')
         = map_option (settled (map_of (zip (map od_id (pending_deliveries FileOutboxStore (rl_store w))) bs)) \<tau>)
             (get_delivery FileOutboxStore i (rl_store w)))"
  using file_outbox.drain_run [OF assms] unfolding get_delivery_def by blast

text \<open>A channel that is down: every post throws.\<close>

definition down_deps :: "(string option, unit) relay_deps" where
  "down_deps = \<lparr>rd_ops = FileOutboxStore, rd_project = (\<lambda>_ _ c. (Inl (Error ''down''), c)),
     rd_now = (\<lambda>_. ''t''), rd_genId = show_nat\<rparr>"

definition one_pending :: "string option" where
  "one_pending = so_commit FileOutboxStore [(''d1'', new_delivery ''d1'' ''session.ended'' ''s'' ''t'')] None"

lemma one_pending_load:
  "so_load FileOutboxStore one_pending = [(''d1'', new_delivery ''d1'' ''session.ended'' ''s'' ''t'')]"
  unfolding one_pending_def
  by (rule file_outbox.load_commit) (simp add: rec_ok_def delivery_ok_def new_delivery_def)

theorem drain_exact_witness:
  "\<exists>w'. drain down_deps \<lparr>rl_store = one_pending, rl_channel = (), rl_ticks = 0, rl_ids = 0\<rparr>
     = (Inr \<lparr>dr_delivered = 0, dr_stillPending = 1\<rparr>, w')"
proof -
  let ?w = "\<lparr>rl_store = one_pending, rl_channel = (), rl_ticks = 0, rl_ids = 0\<rparr>"
  have ok: "outbox_ok (so_load FileOutboxStore (rl_store ?w))"
    by (simp add: one_pending_load rec_ok_def okeyed_def delivery_ok_def new_delivery_def)
  have p: "post_all down_deps (pending_deliveries FileOutboxStore (rl_store ?w)) (rl_channel ?w) = ([False], ())"
    by (simp add: pending_deliveries_def one_pending_load new_delivery_def down_deps_def accepted_def)
  have d: "rd_ops down_deps = FileOutboxStore" by (simp add: down_deps_def)
  from drain_exact [OF d ok p] show ?thesis by auto
qed

text \<open>
  Projecting an event records the obligation before the channel is tried, so whatever the
  channel does - accepts, declines or throws - the obligation is afterwards in the file, with
  one attempt counted, delivered if the channel accepted it and pending for the next drain if
  not.
\<close>

theorem project_durable:
  assumes "rd_ops D = FileOutboxStore" "outbox_ok (so_load FileOutboxStore (rl_store w))"
    and "kind \<noteq> []" "summary \<noteq> []" "rd_now D (rl_ticks w) \<noteq> []"
    and "i = rd_genId D (rl_ids w)" "i \<noteq> []" "get_delivery FileOutboxStore i (rl_store w) = None"
    and "rd_project D kind summary (rl_channel w) = (r, c)"
  shows "\<exists>d w'. project D kind summary w = (Inr d, w') \<and> rl_channel w' = c
    \<and> get_delivery FileOutboxStore i (rl_store w') = Some d
    \<and> od_attempts d = 1 \<and> od_eventKind d = kind \<and> od_summary d = summary
    \<and> od_status d = (if r = Inr True then delivered else pending)
    \<and> (\<forall>j. j \<noteq> i \<longrightarrow> get_delivery FileOutboxStore j (rl_store w') = get_delivery FileOutboxStore j (rl_store w))"
proof -
  let ?e = "new_delivery i kind summary (rd_now D (rl_ticks w))"
  have e: "delivery_ok ?e" "od_id ?e = i" "od_eventKind ?e = kind" "od_summary ?e = summary"
    using assms by (simp_all add: delivery_ok_def new_delivery_def)
  obtain s1 where s1: "enqueue FileOutboxStore ?e (rl_store w) = (Inr (), s1)"
    "so_load FileOutboxStore s1 = so_load FileOutboxStore (rl_store w) @ [(i, ?e)]" "outbox_ok (so_load FileOutboxStore s1)"
    using file_outbox.enqueue_fresh [OF e(1) assms(2)] assms(8) e(2) by (auto simp: get_delivery_def)
  let ?w1 = "w\<lparr>rl_ids := Suc (rl_ids w), rl_ticks := Suc (rl_ticks w), rl_store := s1\<rparr>"
  have none: "map_of (so_load FileOutboxStore (rl_store w)) i = None" using assms(8) by (simp add: get_delivery_def)
  have m1: "map_of (so_load FileOutboxStore (rl_store ?w1)) (od_id ?e) = Some ?e"
    using s1(2) none e(2) by (simp add: map_add_def)
  have ok1: "outbox_ok (so_load FileOutboxStore (rl_store ?w1))" using s1(3) by simp
  have ch: "rd_project D (od_eventKind ?e) (od_summary ?e) (rl_channel ?w1) = (r, c)"
    using assms(9) e by simp
  obtain w' where w': "attempt D ?e ?w1 = (Inr (), w')" "rl_channel w' = c"
    "so_load FileOutboxStore (rl_store w')
      = AList.update (od_id ?e) (settle_delivery (accepted r) (rd_now D (rl_ticks ?w1)) ?e) (so_load FileOutboxStore (rl_store ?w1))"
    using file_outbox.attempt_run [OF assms(1) ok1 m1 ch] by blast
  let ?d = "settle_delivery (accepted r) (rd_now D (rl_ticks ?w1)) ?e"
  have get: "get_delivery FileOutboxStore j (rl_store w')
      = (if j = i then Some ?d else get_delivery FileOutboxStore j (rl_store w))" for j
    unfolding get_delivery_def w'(3) using s1(2) e(2) by (simp add: map_add_def split: option.split)
  have "project D kind summary w = (Inr ?d, w')"
    using e s1(1) w'(1) assms(1,6) get [of i]
    by (simp add: project_def act_bind_def act_seq_def act_lift_def act_get_def relay_genId_def relay_now_def
        OutboxDelivery_parse_def on_store_def)
  then show ?thesis using w'(2) get
    by (intro exI [of _ ?d] exI [of _ w']) (auto simp: settle_delivery_def new_delivery_def accepted_def Let_def)
qed

theorem project_durable_witness:
  "\<exists>d w'. project down_deps ''k'' ''s'' \<lparr>rl_store = None, rl_channel = (), rl_ticks = 0, rl_ids = 7\<rparr> = (Inr d, w')
     \<and> od_status d = pending \<and> od_attempts d = 1"
proof -
  let ?w = "\<lparr>rl_store = None, rl_channel = (), rl_ticks = 0, rl_ids = 7\<rparr>"
  have "\<exists>d w'. project down_deps ''k'' ''s'' ?w = (Inr d, w') \<and> rl_channel w' = ()
    \<and> get_delivery FileOutboxStore (show_nat 7) (rl_store w') = Some d
    \<and> od_attempts d = 1 \<and> od_eventKind d = ''k'' \<and> od_summary d = ''s''
    \<and> od_status d = (if Inl (Error ''down'') = (Inr True :: bool result) then delivered else pending)
    \<and> (\<forall>j. j \<noteq> show_nat 7 \<longrightarrow> get_delivery FileOutboxStore j (rl_store w') = get_delivery FileOutboxStore j (rl_store ?w))"
    by (rule project_durable [where r = "Inl (Error ''down'')"])
      (simp_all add: down_deps_def empty_outbox_load okeyed_def get_delivery_def)
  then show ?thesis by auto
qed

text \<open>
  Enqueueing is idempotent on the id: an obligation that is already recorded, delivered or
  not, is never overwritten or duplicated by another one with its id.
\<close>

theorem enqueue_idempotent:
  assumes "outbox_ok (so_load FileOutboxStore s)" "delivery_ok d"
  shows "\<exists>s'. enqueue FileOutboxStore d s = (Inr (), s')
    \<and> enqueue FileOutboxStore (d\<lparr>od_summary := sm, od_status := st\<rparr>) s' = (Inr (), s')
    \<and> (\<forall>e. get_delivery FileOutboxStore (od_id d) s = Some e \<longrightarrow> s' = s)
    \<and> (\<exists>e. get_delivery FileOutboxStore (od_id d) s' = Some e)"
proof (cases "get_delivery FileOutboxStore (od_id d) s")
  case None
  obtain s' where s': "enqueue FileOutboxStore d s = (Inr (), s')"
    "so_load FileOutboxStore s' = so_load FileOutboxStore s @ [(od_id d, d)]"
    using file_outbox.enqueue_fresh [OF assms(2,1)] None by (auto simp: get_delivery_def)
  then have "map_of (so_load FileOutboxStore s') (od_id d) = Some d"
    using None by (simp add: get_delivery_def map_add_def)
  then show ?thesis using s' None by (simp add: enqueue_def get_delivery_def Let_def)
next
  case (Some e)
  then show ?thesis by (simp add: enqueue_def get_delivery_def Let_def)
qed

theorem enqueue_idempotent_witness:
  "\<exists>s'. enqueue FileOutboxStore (new_delivery ''d1'' ''k'' ''s'' ''t'') None = (Inr (), s')
    \<and> enqueue FileOutboxStore ((new_delivery ''d1'' ''k'' ''s'' ''t'')\<lparr>od_summary := ''x'', od_status := delivered\<rparr>) s'
        = (Inr (), s')"
  using enqueue_idempotent [of None "new_delivery ''d1'' ''k'' ''s'' ''t''" delivered "''x''"]
  by (auto simp: empty_outbox_load okeyed_def delivery_ok_def new_delivery_def)

end
