(* ===== verification/Nonces.thy ===== *)
theory Nonces
  imports Agp_Prelude
begin

text \<open>
  \<open>src/channels/slack/nonce-store.ts\<close>: one-time approval nonces. The state is the map from
  nonces to their binding; the generator and the clock are read by the caller. A run is any
  sequence of mints and consumptions, in any order.
\<close>

record nonce_entry =
  ne_messageId :: string
  ne_sessionId :: string
  ne_expiresAt :: nat
  ne_consumed :: bool

type_synonym nonces = "nonce_entry obj"

datatype consume_result = Consumed | Refused string

definition mint :: "nat \<Rightarrow> nat \<Rightarrow> string \<Rightarrow> string \<Rightarrow> string \<Rightarrow> nonces \<Rightarrow> nonces" where
  "mint ttlMs now nonce messageId sessionId entries =
     AList.update nonce \<lparr>ne_messageId = messageId, ne_sessionId = sessionId,
       ne_expiresAt = now + ttlMs, ne_consumed = False\<rparr> entries"

definition consume :: "nat \<Rightarrow> string \<Rightarrow> string \<Rightarrow> nonces \<Rightarrow> consume_result \<times> nonces" where
  "consume now nonce messageId entries =
     (case map_of entries nonce of
        None \<Rightarrow> (Refused ''unknown nonce'', entries)
      | Some entry \<Rightarrow>
          if ne_consumed entry then (Refused ''nonce already used (replay)'', entries)
          else if now > ne_expiresAt entry then (Refused ''nonce expired'', entries)
          else if ne_messageId entry \<noteq> messageId then (Refused ''nonce not bound to this request'', entries)
          else (Consumed, AList.update nonce (entry\<lparr>ne_consumed := True\<rparr>) entries))"

lemma consume_Consumed:
  "consume now nonce m entries = (Consumed, entries') \<longleftrightarrow>
     (\<exists>e. map_of entries nonce = Some e \<and> \<not> ne_consumed e \<and> now \<le> ne_expiresAt e \<and> ne_messageId e = m
        \<and> entries' = AList.update nonce (e\<lparr>ne_consumed := True\<rparr>) entries)"
  by (auto simp: consume_def split: option.splits)

lemma consume_Refused: "consume now nonce m entries = (Refused r, entries') \<Longrightarrow> entries' = entries"
  by (auto simp: consume_def split: option.splits if_splits)

datatype nonce_op = Mint nat nat string string string | Consume nat string string

text \<open>A run, with the results of its consumptions in order.\<close>

fun run_nonces :: "nonce_op list \<Rightarrow> nonces \<Rightarrow> (string \<times> consume_result) list \<times> nonces" where
  "run_nonces [] s = ([], s)"
| "run_nonces (Mint ttl now n m sid # ops) s = run_nonces ops (mint ttl now n m sid s)"
| "run_nonces (Consume now n m # ops) s =
     (case consume now n m s of (r, s') \<Rightarrow> apfst ((#) (n, r)) (run_nonces ops s'))"

fun mints_of :: "string \<Rightarrow> nonce_op list \<Rightarrow> nat" where
  "mints_of n [] = 0"
| "mints_of n (Mint ttl now k m sid # ops) = (if k = n then 1 else 0) + mints_of n ops"
| "mints_of n (Consume now k m # ops) = mints_of n ops"

definition fresh :: "string \<Rightarrow> nonces \<Rightarrow> nat" where
  "fresh n s = (case map_of s n of Some e \<Rightarrow> if ne_consumed e then 0 else 1 | None \<Rightarrow> 0)"

lemma fresh_mint: "fresh n (mint ttl now k m sid s) \<le> (if k = n then 1 else fresh n s)"
  by (simp add: fresh_def mint_def)

lemma fresh_consume:
  "consume now k m s = (r, s') \<Longrightarrow> (if k = n \<and> r = Consumed then 1 else 0) + fresh n s' \<le> fresh n s"
  by (auto simp: consume_def fresh_def split: option.splits if_splits)

lemma run_nonces_bound:
  "run_nonces ops s = (rs, s') \<Longrightarrow> count_list rs (n, Consumed) + fresh n s' \<le> mints_of n ops + fresh n s"
proof (induction ops s arbitrary: rs s' rule: run_nonces.induct)
  case (2 ttl now k m sid ops s)
  then show ?case using fresh_mint [of n ttl now k m sid s] by (auto split: if_splits)
next
  case (3 now k m ops s)
  obtain r s1 where c: "consume now k m s = (r, s1)" by fastforce
  obtain rs1 where r: "run_nonces ops s1 = (rs1, s')" "rs = (k, r) # rs1"
    using "3.prems" c by (cases "run_nonces ops s1") auto
  have "count_list rs1 (n, Consumed) + fresh n s' \<le> mints_of n ops + fresh n s1"
    by (rule "3.IH" [OF c [symmetric] r(1)])
  then show ?case using fresh_consume [OF c, of n] r(2) by (auto split: if_splits)
qed simp

text \<open>
  C39: a nonce approves at most once for each time it was minted, in any interleaving of mints
  and clicks, replays and forgeries included.
\<close>

theorem nonce_one_time:
  "count_list (fst (run_nonces ops [])) (n, Consumed) \<le> mints_of n ops"
  using run_nonces_bound [of ops "[]" "fst (run_nonces ops [])" "snd (run_nonces ops [])" n]
  by (simp add: fresh_def)

text \<open>
  A consumption succeeds exactly on a known, unused, unexpired nonce bound to the same
  request; a refused one leaves every nonce as it was, so a forged attempt cannot burn a valid
  nonce, and a second consumption of an accepted nonce is refused as a replay.
\<close>

theorem consume_exact:
  "((\<exists>s'. consume now n m s = (Consumed, s')) \<longleftrightarrow>
     (\<exists>e. map_of s n = Some e \<and> \<not> ne_consumed e \<and> now \<le> ne_expiresAt e \<and> ne_messageId e = m))
   \<and> (\<forall>r s'. consume now n m s = (r, s') \<longrightarrow>
        (r \<noteq> Consumed \<longrightarrow> s' = s)
        \<and> (r = Consumed \<longrightarrow> (\<forall>now' m'. consume now' n m' s' = (Refused ''nonce already used (replay)'', s'))))"
  by (auto simp: consume_def split: option.splits if_splits)

theorem consume_exact_witness:
  "consume 6 ''n1'' ''m1'' (snd (consume 5 ''n1'' ''m1'' (mint 10 0 ''n1'' ''m1'' ''s1'' [])))
   = (Refused ''nonce already used (replay)'', snd (consume 5 ''n1'' ''m1'' (mint 10 0 ''n1'' ''m1'' ''s1'' [])))"
proof -
  let ?s = "mint 10 0 ''n1'' ''m1'' ''s1'' []"
  obtain s' where s': "consume 5 ''n1'' ''m1'' ?s = (Consumed, s')"
    using conjunct1 [OF consume_exact [of 5 "''n1''" "''m1''" ?s]] by (auto simp: mint_def)
  show ?thesis using consume_exact [of 5 "''n1''" "''m1''" ?s] s' by simp
qed

end
