(* ===== verification/Channels.thy ===== *)
theory Channels
  imports Contracts Nonces
begin

text \<open>
  The approval channels: the contract \<open>src/contracts/channel-adapter.ts\<close> as a record of
  actions over the channel's own state, the console channel of \<open>src/runtime/channel.ts\<close> and
  the Slack channel of \<open>src/channels/slack\<close> (\<open>slack-channel.ts\<close>, \<open>blocks.ts\<close>,
  \<open>interactions.ts\<close>, \<open>transport.ts\<close>). The laws the daemon needs are the locale
  \<open>channel_contract\<close>, interpreted on both. The Slack Web API and the source of clicks are
  parameters.
\<close>

section \<open>The contract\<close>

record 'c channel_adapter =
  ca_post :: "approval_request \<Rightarrow> ('c, string) act"
  ca_await :: "string \<Rightarrow> ('c, approval_decision) act"
  ca_project :: "string \<Rightarrow> string \<Rightarrow> ('c, bool) act"

locale channel_contract =
  fixes ch :: "'c channel_adapter"
  assumes post_handle: "ca_post ch r c = (Inr h, c') \<Longrightarrow> h = ar_messageId r"
    and await_handle: "ca_await ch h c = (Inr d, c') \<Longrightarrow> ad_messageId d = h"
    and project_total: "\<exists>b c'. ca_project ch k s c = (Inr b, c')"
begin

text \<open>A request posted and awaited is answered for that request.\<close>

lemma decision_for_request:
  "act_bind (ca_post ch r) (ca_await ch) c = (Inr d, c') \<Longrightarrow> ad_messageId d = ar_messageId r"
  by (auto simp: act_bind_eq_Inr dest: post_handle await_handle)

end

section \<open>The console channel\<close>

text \<open>The state is what was printed; \<open>autoApprove\<close> is whether the variable is \<open>"1"\<close>.\<close>

definition console_auto :: "(string \<times> string option) list \<Rightarrow> bool" where
  "console_auto env \<longleftrightarrow> map_of env ''AGP_AUTO_APPROVE'' = Some (Some ''1'')"

definition console_post :: "approval_request \<Rightarrow> (string list, string) act" where
  "console_post r out =
     (Inr (ar_messageId r), out @ [''[approval] '' @ ar_tool r @ '' (session '' @ ar_sessionId r @ ''): ''
        @ pv_reason (ar_verdict r)])"

definition console_await :: "bool \<Rightarrow> string \<Rightarrow> (string list, approval_decision) act" where
  "console_await approved h out =
     (Inr \<lparr>ad_messageId = h, ad_approved = approved,
        ad_decidedBy = (if approved then ''AGP_AUTO_APPROVE'' else ''fail-closed-default'')\<rparr>,
      out @ [''[approval] '' @ (if approved then ''AUTO-APPROVED (AGP_AUTO_APPROVE=1)''
        else ''DENIED (fail-closed; no human present)'')])"

definition console_project :: "string \<Rightarrow> string \<Rightarrow> (string list, bool) act" where
  "console_project kind summary out = (Inr True, out @ [''[projection] '' @ kind @ '': '' @ summary])"

definition ConsoleChannel :: "(string \<times> string option) list \<Rightarrow> string list channel_adapter" where
  "ConsoleChannel env = \<lparr>ca_post = console_post, ca_await = console_await (console_auto env),
     ca_project = console_project\<rparr>"

interpretation console: channel_contract "ConsoleChannel env" for env
  by unfold_locales (auto simp: ConsoleChannel_def console_post_def console_await_def console_project_def)

section \<open>Blocks\<close>

definition ACTION_APPROVE :: string where
  "ACTION_APPROVE = ''agp_approve''"

definition ACTION_DENY :: string where
  "ACTION_DENY = ''agp_deny''"

definition tick :: "string \<Rightarrow> string" where
  "tick s = [CHR 0x60] @ s @ [CHR 0x60]"

definition dash :: string where
  "dash = [CHR '' '', CHR 0xE2, CHR 0x80, CHR 0x94, CHR '' '']"

definition button :: "string \<Rightarrow> string \<Rightarrow> string \<Rightarrow> string \<Rightarrow> json" where
  "button action style text nonce = JObj [
     (''type'', JStr ''button''), (''action_id'', JStr action), (''style'', JStr style),
     (''text'', JObj [(''type'', JStr ''plain_text''), (''text'', JStr text)]),
     (''value'', JStr nonce)]"

definition approval_buttons :: "string \<Rightarrow> json list" where
  "approval_buttons nonce =
     [button ACTION_APPROVE ''primary'' ''Approve'' nonce, button ACTION_DENY ''danger'' ''Deny'' nonce]"

definition buildApprovalBlocks :: "approval_request \<Rightarrow> string \<Rightarrow> json list" where
  "buildApprovalBlocks r nonce = [
     JObj [(''type'', JStr ''section''),
       (''text'', JObj [(''type'', JStr ''mrkdwn''),
         (''text'', JStr (''*Approval required*'' @ dash @ tick (ar_tool r) @ [newline]
            @ ''session '' @ tick (ar_sessionId r) @ [newline] @ pv_reason (ar_verdict r)))])],
     JObj [(''type'', JStr ''actions''),
       (''block_id'', JStr (''agp_approval:'' @ ar_messageId r)),
       (''elements'', JArr (approval_buttons nonce))]]"

definition projectionBlocks :: "string \<Rightarrow> string \<Rightarrow> json list" where
  "projectionBlocks kind summary = [
     JObj [(''type'', JStr ''section''),
       (''text'', JObj [(''type'', JStr ''mrkdwn''), (''text'', JStr (tick kind @ dash @ summary))])]]"

section \<open>Clicks\<close>

record slack_interaction =
  si_nonce :: string
  si_approved :: bool
  si_userId :: string
  si_isBot :: bool

text \<open>The in-memory source: interactions seeded by nonce.\<close>

definition push_interaction :: "slack_interaction \<Rightarrow> slack_interaction obj \<Rightarrow> slack_interaction obj" where
  "push_interaction i byNonce = AList.update (si_nonce i) i byNonce"

definition inmemory_await :: "string \<Rightarrow> (slack_interaction obj, slack_interaction) act" where
  "inmemory_await nonce byNonce =
     (of_option (Error (''no interaction seeded for nonce '' @ nonce)) (map_of byNonce nonce), byNonce)"

text \<open>An object (or array) whose properties can be read; \<open>typeof v === "object" && v !== null\<close>.\<close>

fun is_object :: "json \<Rightarrow> bool" where
  "is_object (JObj _) = True"
| "is_object (JArr _) = True"
| "is_object _ = False"

definition nonempty_string :: "json option \<Rightarrow> string option" where
  "nonempty_string x = (case x of Some (JStr s) \<Rightarrow> if s = [] then None else Some s | _ \<Rightarrow> None)"

definition parseBlockAction :: "json option \<Rightarrow> slack_interaction option" where
  "parseBlockAction payload =
     (case payload of
        None \<Rightarrow> None
      | Some p \<Rightarrow>
          if \<not> is_object p then None
          else if property p ''type'' \<noteq> Some (JStr ''block_actions'') then None
          else (case property p ''actions'' of
                  Some (JArr (action # _)) \<Rightarrow>
                    if \<not> is_object action then None
                    else (case (if property action ''action_id'' = Some (JStr ACTION_APPROVE) then Some True
                                else if property action ''action_id'' = Some (JStr ACTION_DENY) then Some False
                                else None) of
                            None \<Rightarrow> None
                          | Some approved \<Rightarrow>
                              (case nonempty_string (property action ''value'') of
                                 None \<Rightarrow> None
                               | Some nonce \<Rightarrow>
                                   (case property p ''user'' of
                                      None \<Rightarrow> None
                                    | Some u \<Rightarrow>
                                        if \<not> is_object u then None
                                        else (case nonempty_string (property u ''id'') of
                                                None \<Rightarrow> None
                                              | Some userId \<Rightarrow>
                                                  Some \<lparr>si_nonce = nonce, si_approved = approved,
                                                    si_userId = userId,
                                                    si_isBot = (property u ''is_bot'' = Some (JBool True))\<rparr>))))
                | _ \<Rightarrow> None))"

text \<open>The payload Slack sends back for a click of a user on one of the buttons.\<close>

definition click_payload :: "json \<Rightarrow> string \<Rightarrow> json" where
  "click_payload element userId = JObj [(''type'', JStr ''block_actions''), (''actions'', JArr [element]),
     (''user'', JObj [(''id'', JStr userId)])]"

section \<open>The Slack Web API\<close>

text \<open>\<open>fetch\<close> is a parameter: method and body to the parsed answer.\<close>

definition slack_call :: "(string \<Rightarrow> string \<Rightarrow> ('t, json) act) \<Rightarrow> string \<Rightarrow> json obj \<Rightarrow> ('t, json) act" where
  "slack_call fetch method body =
     act_bind (fetch method (json_stringify (JObj body))) (\<lambda>j.
       if j = JNull then act_throw (Error ''null is not an object'')
       else if property j ''ok'' \<noteq> Some (JBool True)
       then act_throw (Error (''slack '' @ method @ '' failed: ''
              @ (case property j ''error'' of None \<Rightarrow> ''unknown'' | Some JNull \<Rightarrow> ''unknown'' | Some e \<Rightarrow> json_text e)))
       else act_ret j)"

definition fetch_postMessage :: "(string \<Rightarrow> string \<Rightarrow> ('t, json) act) \<Rightarrow> string \<Rightarrow> json list \<Rightarrow> string \<Rightarrow> ('t, string) act" where
  "fetch_postMessage fetch channel blocks text =
     act_bind (slack_call fetch ''chat.postMessage''
         [(''channel'', JStr channel), (''blocks'', JArr blocks), (''text'', JStr text)])
       (\<lambda>j. act_ret (case property j ''ts'' of None \<Rightarrow> [] | Some JNull \<Rightarrow> [] | Some t \<Rightarrow> json_text t))"

definition fetch_updateMessage :: "(string \<Rightarrow> string \<Rightarrow> ('t, json) act) \<Rightarrow> string \<Rightarrow> string \<Rightarrow> string \<Rightarrow> ('t, unit) act" where
  "fetch_updateMessage fetch channel ts text =
     act_seq (slack_call fetch ''chat.update''
         [(''channel'', JStr channel), (''ts'', JStr ts), (''text'', JStr text), (''blocks'', JArr [])])
       (act_ret ())"

section \<open>The Slack channel\<close>

record ('t, 'i) slack_deps =
  sd_post :: "string \<Rightarrow> json list \<Rightarrow> string \<Rightarrow> ('t, string) act"
  sd_update :: "string \<Rightarrow> string \<Rightarrow> string \<Rightarrow> ('t, unit) act"
  sd_await :: "string \<Rightarrow> ('i, slack_interaction) act"
  sd_channelId :: string
  sd_screen :: "json \<Rightarrow> unit result"
  sd_ttlMs :: nat
  sd_now :: "nat \<Rightarrow> nat"
  sd_gen :: "nat \<Rightarrow> string"

record ('t, 'i) slack =
  sk_nonces :: nonces
  sk_pending :: "(string \<times> string) obj"
  sk_transport :: 't
  sk_source :: 'i
  sk_ticks :: nat
  sk_gens :: nat

definition on_transport :: "('t, 'a) act \<Rightarrow> (('t, 'i) slack, 'a) act" where
  "on_transport m w = (case m (sk_transport w) of (r, t) \<Rightarrow> (r, w\<lparr>sk_transport := t\<rparr>))"

definition on_source :: "('i, 'a) act \<Rightarrow> (('t, 'i) slack, 'a) act" where
  "on_source m w = (case m (sk_source w) of (r, i) \<Rightarrow> (r, w\<lparr>sk_source := i\<rparr>))"

definition slack_mint :: "('t, 'i) slack_deps \<Rightarrow> approval_request \<Rightarrow> (('t, 'i) slack, string) act" where
  "slack_mint D r w =
     (let nonce = sd_gen D (sk_gens w) in
      (Inr nonce, w\<lparr>sk_nonces := mint (sd_ttlMs D) (sd_now D (sk_ticks w)) nonce (ar_messageId r) (ar_sessionId r) (sk_nonces w),
         sk_ticks := sk_ticks w + 1, sk_gens := sk_gens w + 1\<rparr>))"

definition slack_consume :: "('t, 'i) slack_deps \<Rightarrow> string \<Rightarrow> string \<Rightarrow> (('t, 'i) slack, consume_result) act" where
  "slack_consume D nonce m w =
     (case consume (sd_now D (sk_ticks w)) nonce m (sk_nonces w) of
        (r, ns) \<Rightarrow> (Inr r, w\<lparr>sk_nonces := ns, sk_ticks := sk_ticks w + 1\<rparr>))"

definition slack_post :: "('t, 'i) slack_deps \<Rightarrow> approval_request \<Rightarrow> (('t, 'i) slack, string) act" where
  "slack_post D r =
     act_seq (act_lift (sd_screen D (approval_request_json r)))
       (act_bind (slack_mint D r) (\<lambda>nonce.
         act_bind (on_transport (sd_post D (sd_channelId D) (buildApprovalBlocks r nonce)
             (''Approval required: '' @ ar_tool r))) (\<lambda>ts.
           act_seq (act_modify (\<lambda>w. w\<lparr>sk_pending := AList.update (ar_messageId r) (nonce, ts) (sk_pending w)\<rparr>))
             (act_ret (ar_messageId r)))))"

definition safeUpdate :: "('t, 'i) slack_deps \<Rightarrow> string \<Rightarrow> string \<Rightarrow> (('t, 'i) slack, unit) act" where
  "safeUpdate D ts text =
     act_catch (on_transport (sd_update D (sd_channelId D) ts text)) (\<lambda>_. act_ret ())"

definition slack_deny :: "('t, 'i) slack_deps \<Rightarrow> string \<Rightarrow> string \<Rightarrow> slack_interaction \<Rightarrow> string \<Rightarrow> (('t, 'i) slack, approval_decision) act" where
  "slack_deny D h ts i reason =
     act_seq (safeUpdate D ts (''Denied'' @ dash @ reason))
       (act_ret \<lparr>ad_messageId = h, ad_approved = False, ad_decidedBy = si_userId i\<rparr>)"

definition slack_await :: "('t, 'i) slack_deps \<Rightarrow> string \<Rightarrow> (('t, 'i) slack, approval_decision) act" where
  "slack_await D h =
     act_bind (act_get (\<lambda>w. map_of (sk_pending w) h)) (\<lambda>pend.
       case pend of
         None \<Rightarrow> act_throw (Error (''no pending approval for message '' @ h))
       | Some (nonce, ts) \<Rightarrow>
           act_bind (on_source (sd_await D nonce)) (\<lambda>i.
             if si_isBot i then slack_deny D h ts i ''non-human actor cannot approve''
             else act_bind (slack_consume D (si_nonce i) h) (\<lambda>consumed.
               case consumed of
                 Refused reason \<Rightarrow> slack_deny D h ts i reason
               | Consumed \<Rightarrow>
                   act_seq (safeUpdate D ts (if si_approved i then ''Approved'' else ''Denied by operator''))
                     (act_ret \<lparr>ad_messageId = h, ad_approved = si_approved i, ad_decidedBy = si_userId i\<rparr>))))"

definition slack_project :: "('t, 'i) slack_deps \<Rightarrow> string \<Rightarrow> string \<Rightarrow> (('t, 'i) slack, bool) act" where
  "slack_project D kind summary =
     act_catch
       (act_seq (act_lift (sd_screen D (JObj [(''eventKind'', JStr kind), (''summary'', JStr summary)])))
         (act_seq (on_transport (sd_post D (sd_channelId D) (projectionBlocks kind summary) (kind @ '': '' @ summary)))
           (act_ret True)))
       (\<lambda>_. act_ret False)"

definition SlackChannel :: "('t, 'i) slack_deps \<Rightarrow> ('t, 'i) slack channel_adapter" where
  "SlackChannel D = \<lparr>ca_post = slack_post D, ca_await = slack_await D, ca_project = slack_project D\<rparr>"

lemma safeUpdate_run: "\<exists>t. safeUpdate D ts text w = (Inr (), w\<lparr>sk_transport := t\<rparr>)"
  by (auto simp: safeUpdate_def on_transport_def act_defs split: prod.split sum.split)

lemma slack_deny_run:
  "\<exists>t. slack_deny D h ts i reason w
     = (Inr \<lparr>ad_messageId = h, ad_approved = False, ad_decidedBy = si_userId i\<rparr>, w\<lparr>sk_transport := t\<rparr>)"
proof -
  obtain t where "safeUpdate D ts (''Denied'' @ dash @ reason) w = (Inr (), w\<lparr>sk_transport := t\<rparr>)"
    by (rule exE [OF safeUpdate_run])
  then show ?thesis by (auto simp: slack_deny_def act_seq_run act_ret_def)
qed

text \<open>The outcome of a click that arrived for a posted request.\<close>

lemma slack_await_click:
  assumes "map_of (sk_pending w) h = Some (nonce, ts)" "sd_await D nonce (sk_source w) = (Inr i, src)"
  shows "\<exists>w'. slack_await D h w = (Inr \<lparr>ad_messageId = h,
        ad_approved = (\<not> si_isBot i \<and> si_approved i
          \<and> fst (consume (sd_now D (sk_ticks w)) (si_nonce i) h (sk_nonces w)) = Consumed),
        ad_decidedBy = si_userId i\<rparr>, w')
    \<and> sk_nonces w' = (if si_isBot i then sk_nonces w
        else snd (consume (sd_now D (sk_ticks w)) (si_nonce i) h (sk_nonces w)))
    \<and> sk_pending w' = sk_pending w"
proof -
  let ?w = "w\<lparr>sk_source := src\<rparr>"
  have src: "on_source (sd_await D nonce) w = (Inr i, ?w)" using assms(2) by (simp add: on_source_def)
  have start: "slack_await D h w =
      (if si_isBot i then slack_deny D h ts i ''non-human actor cannot approve'' ?w
       else act_bind (slack_consume D (si_nonce i) h) (\<lambda>consumed.
               case consumed of
                 Refused reason \<Rightarrow> slack_deny D h ts i reason
               | Consumed \<Rightarrow>
                   act_seq (safeUpdate D ts (if si_approved i then ''Approved'' else ''Denied by operator''))
                     (act_ret \<lparr>ad_messageId = h, ad_approved = si_approved i, ad_decidedBy = si_userId i\<rparr>)) ?w)"
    using assms(1) src by (simp add: slack_await_def act_bind_def act_get_def)
  show ?thesis
  proof (cases "si_isBot i")
    case True
    obtain t where "slack_deny D h ts i ''non-human actor cannot approve'' ?w
        = (Inr \<lparr>ad_messageId = h, ad_approved = False, ad_decidedBy = si_userId i\<rparr>, ?w\<lparr>sk_transport := t\<rparr>)"
      by (rule exE [OF slack_deny_run])
    then show ?thesis using start True by simp
  next
    case False
    obtain r ns where c: "consume (sd_now D (sk_ticks w)) (si_nonce i) h (sk_nonces w) = (r, ns)" by fastforce
    let ?w2 = "?w\<lparr>sk_nonces := ns, sk_ticks := sk_ticks w + 1\<rparr>"
    have k: "slack_consume D (si_nonce i) h ?w = (Inr r, ?w2)" using c by (simp add: slack_consume_def)
    show ?thesis
    proof (cases r)
      case (Refused reason)
      obtain t where "slack_deny D h ts i reason ?w2
        = (Inr \<lparr>ad_messageId = h, ad_approved = False, ad_decidedBy = si_userId i\<rparr>, ?w2\<lparr>sk_transport := t\<rparr>)"
        by (rule exE [OF slack_deny_run])
      then show ?thesis using start False k Refused c by (simp add: act_bind_def)
    next
      case Consumed
      obtain t where "safeUpdate D ts (if si_approved i then ''Approved'' else ''Denied by operator'') ?w2
        = (Inr (), ?w2\<lparr>sk_transport := t\<rparr>)"
        by (rule exE [OF safeUpdate_run])
      then show ?thesis using start False k Consumed c by (simp add: act_bind_def act_seq_run act_ret_def)
    qed
  qed
qed

lemma slack_await_Inr:
  assumes "slack_await D h w = (Inr d, w')"
  shows "\<exists>nonce ts i src. map_of (sk_pending w) h = Some (nonce, ts) \<and> sd_await D nonce (sk_source w) = (Inr i, src)"
proof (cases "map_of (sk_pending w) h")
  case None
  then show ?thesis using assms by (simp add: slack_await_def act_bind_def act_get_def act_throw_def)
next
  case (Some p)
  obtain nonce ts where p: "p = (nonce, ts)" by (cases p)
  obtain r src where a: "sd_await D nonce (sk_source w) = (r, src)" by fastforce
  then show ?thesis
    using assms Some p by (cases r) (auto simp: slack_await_def act_bind_def act_get_def on_source_def)
qed

interpretation slack: channel_contract "SlackChannel D" for D :: "('t, 'i) slack_deps"
proof
  fix r :: approval_request and w h w'
  assume "ca_post (SlackChannel D) r w = (Inr h, w')"
  then show "h = ar_messageId r"
    by (auto simp: SlackChannel_def slack_post_def act_bind_eq_Inr act_seq_def act_ret_def)
next
  fix h w d w'
  assume "ca_await (SlackChannel D) h w = (Inr d, w')"
  then have a: "slack_await D h w = (Inr d, w')" by (simp add: SlackChannel_def)
  obtain nonce ts i src where "map_of (sk_pending w) h = Some (nonce, ts)"
    "sd_await D nonce (sk_source w) = (Inr i, src)"
    using slack_await_Inr [OF a] by blast
  from slack_await_click [OF this] a show "ad_messageId d = h" by auto
next
  fix k s w
  show "\<exists>b c'. ca_project (SlackChannel D) k s w = (Inr b, c')"
    by (auto simp: SlackChannel_def slack_project_def act_catch_def act_ret_def split: prod.split sum.split)
qed

section \<open>Properties of the channels\<close>

text \<open>
  C40: an approval over Slack comes from a person: it is granted exactly when the click that
  answers the request is an Approve click, by an actor that is not a bot, carrying a nonce that
  is known, unused, unexpired and bound to this very request; the click's nonce is used up by
  it, and a bot's click uses up nothing. Nothing but a click ends the wait with a decision.
\<close>

theorem slack_approval_human:
  assumes "slack_await D h w = (Inr d, w')"
  shows "\<exists>nonce ts i src. map_of (sk_pending w) h = Some (nonce, ts)
    \<and> sd_await D nonce (sk_source w) = (Inr i, src) \<and> ad_decidedBy d = si_userId i
    \<and> (ad_approved d \<longleftrightarrow> \<not> si_isBot i \<and> si_approved i
         \<and> (\<exists>e. map_of (sk_nonces w) (si_nonce i) = Some e \<and> \<not> ne_consumed e
              \<and> sd_now D (sk_ticks w) \<le> ne_expiresAt e \<and> ne_messageId e = h))
    \<and> (ad_approved d \<longrightarrow> map_option ne_consumed (map_of (sk_nonces w') (si_nonce i)) = Some True)
    \<and> (si_isBot i \<longrightarrow> sk_nonces w' = sk_nonces w)"
proof -
  obtain nonce ts i src where a: "map_of (sk_pending w) h = Some (nonce, ts)"
    "sd_await D nonce (sk_source w) = (Inr i, src)"
    using slack_await_Inr [OF assms] by blast
  have r: "d = \<lparr>ad_messageId = h,
        ad_approved = (\<not> si_isBot i \<and> si_approved i
          \<and> fst (consume (sd_now D (sk_ticks w)) (si_nonce i) h (sk_nonces w)) = Consumed),
        ad_decidedBy = si_userId i\<rparr>"
    "sk_nonces w' = (if si_isBot i then sk_nonces w
        else snd (consume (sd_now D (sk_ticks w)) (si_nonce i) h (sk_nonces w)))"
    using slack_await_click [OF a] assms by auto
  have c: "fst (consume now n m s) = Consumed \<longleftrightarrow>
      (\<exists>e. map_of s n = Some e \<and> \<not> ne_consumed e \<and> now \<le> ne_expiresAt e \<and> ne_messageId e = m)" for now n m s
    by (auto simp: consume_def split: option.splits)
  have u: "fst (consume now n m s) = Consumed \<Longrightarrow>
      map_option ne_consumed (map_of (snd (consume now n m s)) n) = Some True" for now n m s
    by (auto simp: consume_def split: option.splits if_splits)
  show ?thesis
    using a r u by (intro exI [of _ nonce] exI [of _ ts] exI [of _ i] exI [of _ src]) (auto simp: c)
qed

text \<open>
  A projection over Slack never throws, and a prompt or projection is posted only when the
  guard accepts what it says: when the guard throws, the transport is not touched.
\<close>

theorem slack_screen_first:
  "(\<exists>b w'. slack_project D kind summary w = (Inr b, w')
      \<and> (sd_screen D (JObj [(''eventKind'', JStr kind), (''summary'', JStr summary)]) \<noteq> Inr () \<longrightarrow>
           \<not> b \<and> w' = w))
   \<and> (\<forall>e. sd_screen D (approval_request_json r) = Inl e \<longrightarrow> slack_post D r w = (Inl e, w))"
proof (intro conjI allI impI)
  show "\<exists>b w'. slack_project D kind summary w = (Inr b, w')
      \<and> (sd_screen D (JObj [(''eventKind'', JStr kind), (''summary'', JStr summary)]) \<noteq> Inr () \<longrightarrow>
           \<not> b \<and> w' = w)"
    by (cases "sd_screen D (JObj [(''eventKind'', JStr kind), (''summary'', JStr summary)])")
      (auto simp: slack_project_def act_defs split: prod.split sum.split)
  show "slack_post D r w = (Inl e, w)" if "sd_screen D (approval_request_json r) = Inl e" for e
    using that by (simp add: slack_post_def act_seq_def act_bind_def act_lift_def)
qed

text \<open>
  A click on a button of the prompt that was posted is read back as exactly that: the nonce
  of the request, and an approval for the Approve button and for no other.
\<close>

theorem click_roundtrip:
  assumes "nonce \<noteq> []" "userId \<noteq> []" "el \<in> set (approval_buttons nonce)"
  shows "parseBlockAction (Some (click_payload el userId))
      = Some \<lparr>si_nonce = nonce, si_approved = (property el ''action_id'' = Some (JStr ACTION_APPROVE)),
          si_userId = userId, si_isBot = False\<rparr>
    \<and> (\<exists>sec blk. buildApprovalBlocks r nonce = [sec, blk]
         \<and> property blk ''elements'' = Some (JArr (approval_buttons nonce)))"
  using assms by (auto simp: parseBlockAction_def click_payload_def approval_buttons_def button_def
      nonempty_string_def ACTION_APPROVE_def ACTION_DENY_def buildApprovalBlocks_def)

text \<open>A concrete Slack for the witnesses: every call succeeds and one user clicks Approve.\<close>

definition demo_slack :: "(json list list, unit) slack_deps" where
  "demo_slack = \<lparr>sd_post = (\<lambda>ch blocks text out. (Inr ''17.1'', out @ [blocks])),
     sd_update = (\<lambda>ch ts text out. (Inr (), out)),
     sd_await = (\<lambda>nonce u. (Inr \<lparr>si_nonce = nonce, si_approved = True, si_userId = ''U1'', si_isBot = False\<rparr>, u)),
     sd_channelId = ''C1'', sd_screen = (\<lambda>p. if p = JObj [(''eventKind'', JStr ''k''), (''summary'', JStr ''s'')]
        then Inl (SecretExfiltrationError ''slack'') else Inr ()),
     sd_ttlMs = 300000, sd_now = (\<lambda>n. n), sd_gen = (\<lambda>n. ''n0'')\<rparr>"

definition demo_request :: approval_request where
  "demo_request = \<lparr>ar_messageId = ''m1'', ar_sessionId = ''s1'', ar_tool = ''Bash'',
     ar_verdict = \<lparr>pv_decision = require, pv_reason = ''r'', pv_ruleId = Some ''r1'', pv_tier = None\<rparr>\<rparr>"

definition demo_state :: "(json list list, unit) slack" where
  "demo_state = \<lparr>sk_nonces = [], sk_pending = [], sk_transport = [], sk_source = (), sk_ticks = 0, sk_gens = 0\<rparr>"


lemma demo_posted:
  "slack_post demo_slack demo_request demo_state = (Inr ''m1'', snd (slack_post demo_slack demo_request demo_state))"
  "sk_pending (snd (slack_post demo_slack demo_request demo_state)) = [(''m1'', ''n0'', ''17.1'')]"
  "sk_nonces (snd (slack_post demo_slack demo_request demo_state))
     = [(''n0'', \<lparr>ne_messageId = ''m1'', ne_sessionId = ''s1'', ne_expiresAt = 300000, ne_consumed = False\<rparr>)]"
  "sk_ticks (snd (slack_post demo_slack demo_request demo_state)) = 1"
  by (simp_all add: slack_post_def demo_slack_def demo_request_def demo_state_def act_defs slack_mint_def
      mint_def on_transport_def approval_request_json_def Let_def)

text \<open>
  The prompt of \<open>demo_request\<close>, once posted, is approved by the click of \<open>U1\<close>.
\<close>

theorem slack_approval_human_witness:
  "\<exists>d w'. slack_await demo_slack ''m1'' (snd (slack_post demo_slack demo_request demo_state)) = (Inr d, w')
     \<and> ad_approved d \<and> ad_decidedBy d = ''U1''"
proof -
  let ?w = "snd (slack_post demo_slack demo_request demo_state)"
  have click: "sd_await demo_slack ''n0'' (sk_source ?w)
      = (Inr \<lparr>si_nonce = ''n0'', si_approved = True, si_userId = ''U1'', si_isBot = False\<rparr>, sk_source ?w)"
    by (simp add: demo_slack_def)
  obtain d w' where d: "slack_await demo_slack ''m1'' ?w = (Inr d, w')"
    using slack_await_click [OF _ click, of "''m1''" "''17.1''"] demo_posted(2) by auto
  have "sd_now demo_slack (sk_ticks ?w) \<le> 300000" using demo_posted(4) by (simp add: demo_slack_def)
  then show ?thesis
    using d slack_approval_human [OF d] click demo_posted(2,3) by auto
qed

theorem slack_screen_first_witness:
  "slack_project demo_slack ''k'' ''s'' demo_state = (Inr False, demo_state)"
  using slack_screen_first [of demo_slack "''k''" "''s''" demo_state demo_request] by (auto simp: demo_slack_def)

theorem click_roundtrip_witness:
  "parseBlockAction (Some (click_payload (button ACTION_DENY ''danger'' ''Deny'' ''n0'') ''U1''))
     = Some \<lparr>si_nonce = ''n0'', si_approved = False, si_userId = ''U1'', si_isBot = False\<rparr>"
  using click_roundtrip [of "''n0''" "''U1''" "button ACTION_DENY ''danger'' ''Deny'' ''n0''" demo_request]
  by (simp add: approval_buttons_def button_def ACTION_APPROVE_def ACTION_DENY_def)

end
