(* ===== verification/Runtime.thy ===== *)
theory Runtime
  imports Contracts
begin

text \<open>
  The interfaces the daemon drives and their reference implementations: the sandbox provider
  (\<open>src/contracts/sandbox-provider.ts\<close>) with the recording sandbox of
  \<open>src/runtime/sandbox.ts\<close>, and the intendant adapter
  (\<open>src/contracts/intendant-adapter.ts\<close>) with the scripted intendant of
  \<open>src/runtime/intendant.ts\<close>. Every method is an action over the provider's own state. The
  laws a driver needs from a sandbox are the locale \<open>sandbox_contract\<close>.
\<close>

section \<open>Sandboxes\<close>

record 'b sandbox_provider =
  sb_isolation :: isolation_guarantees
  sb_spawn :: "sandbox_spec \<Rightarrow> ('b, sandbox_handle) act"
  sb_exec :: "sandbox_handle \<Rightarrow> string list \<Rightarrow> ('b, exec_result) act"
  sb_teardown :: "sandbox_handle \<Rightarrow> ('b, unit) act"

text \<open>
  A handle serves the session it was spawned for, and no provider claims the grade of a
  virtual machine.
\<close>

locale sandbox_contract =
  fixes prov :: "'b sandbox_provider"
  assumes spawn_session: "sb_spawn prov spec b = (Inr h, b') \<Longrightarrow> sh_sessionId h = sp_sessionId spec"
    and honest: "\<not> ig_vmGrade (sb_isolation prov)"
begin

text \<open>A command run in a freshly spawned sandbox runs under the session of its specification.\<close>

lemma exec_in_session:
  assumes "act_bind (sb_spawn prov spec) (\<lambda>h. act_bind (sb_exec prov h cmd) (\<lambda>r. act_ret (h, r))) b = (Inr (h, r), b')"
  shows "sh_sessionId h = sp_sessionId spec"
  using assms by (auto simp: act_bind_eq_Inr act_ret_def dest: spawn_session)

end

section \<open>The recording sandbox\<close>

record recording =
  rc_handle :: string
  rc_command :: "string list"

definition recording_isolation :: isolation_guarantees where
  "recording_isolation = \<lparr>ig_kind = ''recording-reference'',
     ig_boundary = ''none '' @ [CHR 0xE2, CHR 0x80, CHR 0x94]
       @ '' records exec requests and runs nothing; not for production use'',
     ig_vmGrade = False\<rparr>"

definition recording_spawn :: "sandbox_spec \<Rightarrow> (recording list, sandbox_handle) act" where
  "recording_spawn spec = act_ret \<lparr>sh_id = ''ref-'' @ sp_sessionId spec, sh_sessionId = sp_sessionId spec\<rparr>"

definition recording_exec :: "sandbox_handle \<Rightarrow> string list \<Rightarrow> (recording list, exec_result) act" where
  "recording_exec handle command recorded =
     (Inr \<lparr>er_exitCode = 0, er_stdout = ''[recording-sandbox] would run: '' @ str_join '' '' command,
        er_stderr = []\<rparr>,
      recorded @ [\<lparr>rc_handle = sh_id handle, rc_command = command\<rparr>])"

definition recording_teardown :: "sandbox_handle \<Rightarrow> (recording list, unit) act" where
  "recording_teardown handle = act_ret ()"

definition RecordingSandbox :: "recording list sandbox_provider" where
  "RecordingSandbox = \<lparr>sb_isolation = recording_isolation, sb_spawn = recording_spawn,
     sb_exec = recording_exec, sb_teardown = recording_teardown\<rparr>"

interpretation recording: sandbox_contract RecordingSandbox
  by unfold_locales
    (auto simp: RecordingSandbox_def recording_spawn_def recording_isolation_def act_ret_def)

section \<open>Intendants\<close>

record 'i intendant_adapter =
  ia_identity :: intendant_identity
  ia_start :: "string \<Rightarrow> ('i, unit) act"
  ia_deliver :: "gateway_message \<Rightarrow> ('i, unit) act"
  ia_stop :: "('i, unit) act"

text \<open>
  A runnable intendant (\<open>RunnableIntendant\<close> of \<open>src/daemon/daemon.ts\<close>) also has \<open>run\<close>. It
  blocks on every call it emits, so its run is the sequence of its steps: each emits one more
  call, ends the run (\<open>None\<close>) or throws, and may depend on all that was delivered before.
\<close>

record 'i runnable_intendant = "'i intendant_adapter" +
  ri_next :: "string \<Rightarrow> ('i, tool_call_request option) act"

section \<open>The scripted intendant\<close>

type_synonym script = "(string \<times> json obj) list"

record scripted =
  sc_handler :: bool
  sc_delivered :: "gateway_message list"

definition scripted_identity :: intendant_identity where
  "scripted_identity = \<lparr>ii_name = ''scripted-reference'', ii_version = ''0.0.0'', ii_uri = None\<rparr>"

definition default_script :: script where
  "default_script = [(''Read'', [(''path'', JStr ''/work/README.md'')]),
     (''Bash'', [(''command'', JStr ''rm -rf /'')])]"

definition scripted_onToolCall :: "(scripted, unit) act" where
  "scripted_onToolCall = act_modify (\<lambda>s. s\<lparr>sc_handler := True\<rparr>)"

definition scripted_deliver :: "gateway_message \<Rightarrow> (scripted, unit) act" where
  "scripted_deliver m = act_modify (\<lambda>s. s\<lparr>sc_delivered := sc_delivered s @ [m]\<rparr>)"

text \<open>The calls of a script: \<open>i\<close> counts from the first step's index.\<close>

fun script_requests :: "string \<Rightarrow> nat \<Rightarrow> script \<Rightarrow> tool_call_request list" where
  "script_requests sid i [] = []"
| "script_requests sid i ((tool, args) # steps) =
     \<lparr>tcr_id = sid @ ''-call-'' @ show_nat (i + 1), tcr_sessionId = sid, tcr_tool = tool,
        tcr_args = args, tcr_actor = claude_process\<rparr> # script_requests sid (i + 1) steps"

definition emitAll :: "script \<Rightarrow> string \<Rightarrow> (scripted, tool_call_request list) act" where
  "emitAll script sid s =
     (if sc_handler s then (Inr (script_requests sid 0 script), s)
      else (Inl (Error ''no tool-call handler registered''), s))"

definition ScriptedIntendant :: "scripted intendant_adapter" where
  "ScriptedIntendant = \<lparr>ia_identity = scripted_identity, ia_start = (\<lambda>_. act_ret ()),
     ia_deliver = scripted_deliver, ia_stop = act_ret ()\<rparr>"

lemma script_requests_shape:
  "r \<in> set (script_requests sid i steps) \<Longrightarrow>
     tcr_sessionId r = sid \<and> tcr_actor r = claude_process \<and> (tcr_tool r, tcr_args r) \<in> set steps"
  by (induction sid i steps rule: script_requests.induct) auto

lemma length_script_requests [simp]: "length (script_requests sid i steps) = length steps"
  by (induction sid i steps rule: script_requests.induct) auto

end
