(* ===== verification/Egress.thy ===== *)
theory Egress
  imports Runtime
begin

text \<open>
  The pure core of \<open>src/sandbox/docker\<close>: the image pin (\<open>image-pin.ts\<close>), the egress policy
  (\<open>egress-policy.ts\<close>) and the verdicts of the two preflights (\<open>network-preflight.ts\<close>,
  \<open>allowlist-preflight.ts\<close>). The docker CLI is a parameter: a runner maps the arguments of a
  command to its result, or throws.
\<close>

section \<open>Image pins\<close>

definition MOVING_TAG :: string where
  "MOVING_TAG = ''lat'' @ ''est''"

definition single_quoted :: "string \<Rightarrow> string" where
  "single_quoted s = [CHR 0x27] @ s @ [CHR 0x27]"

definition assertPinnedImage :: "string \<Rightarrow> unit result" where
  "assertPinnedImage img =
     (if sublist ''@sha256:'' img then Inr ()
      else
        let lastColon = last_index_of (CHR '':'') img; lastSlash = last_index_of (CHR ''/'') img in
        if \<not> lastColon > lastSlash
        then Inl (Error (''image '' @ single_quoted img @ '' is unpinned (no tag or digest); pin it for reproducibility''))
        else if drop (nat (lastColon + 1)) img = MOVING_TAG
        then Inl (Error (''image '' @ single_quoted img @ '' uses the moving '' @ single_quoted MOVING_TAG
          @ '' tag; pin a specific version or digest''))
        else Inr ())"

section \<open>The egress policy\<close>

datatype egress_mode = egress_none | egress_full | egress_allowlist

fun egress_name :: "egress_mode \<Rightarrow> string" where
  "egress_name egress_none = ''none''"
| "egress_name egress_full = ''full''"
| "egress_name egress_allowlist = ''allowlist''"

definition VALID_MODES :: "egress_mode list" where
  "VALID_MODES = [egress_none, egress_full, egress_allowlist]"

record egress_policy =
  eg_mode :: egress_mode
  eg_allowlist :: "string list"

text \<open>A label of the pattern \<open>HOSTNAME\<close>, and the pattern.\<close>

definition host_label :: "string \<Rightarrow> bool" where
  "host_label l \<longleftrightarrow> l \<noteq> [] \<and> length l \<le> 63 \<and> is_alnum (hd l) \<and> is_alnum (last l)
     \<and> list_all (\<lambda>c. is_alnum c \<or> c = CHR ''-'') l"

definition HOSTNAME :: "string \<Rightarrow> bool" where
  "HOSTNAME s \<longleftrightarrow> s \<noteq> [] \<and> length s \<le> 253 \<and> list_all host_label (str_split ''.'' s)"

definition ipv4_shaped :: "string \<Rightarrow> bool" where
  "ipv4_shaped s \<longleftrightarrow> length (str_split ''.'' s) = 4
     \<and> list_all (\<lambda>p. p \<noteq> [] \<and> length p \<le> 3 \<and> list_all is_digit p) (str_split ''.'' s)"

definition isPlausibleHost :: "string \<Rightarrow> bool" where
  "isPlausibleHost host \<longleftrightarrow> \<not> (CHR ''/'' \<in> set host \<or> CHR '':'' \<in> set host \<or> list_ex is_ws host)
     \<and> \<not> ipv4_shaped host \<and> HOSTNAME host"

definition is_separator :: "char \<Rightarrow> bool" where
  "is_separator c \<longleftrightarrow> c = CHR '','' \<or> is_ws c"

text \<open>\<open>split(/[,\s]+/)\<close>: the pieces between maximal runs of separators.\<close>

function split_runs :: "string \<Rightarrow> string list" where
  "split_runs s =
     (let r = dropWhile (\<lambda>c. \<not> is_separator c) s in
      if r = [] then [s]
      else takeWhile (\<lambda>c. \<not> is_separator c) s # split_runs (dropWhile is_separator r))"
  by pat_completeness auto
termination
proof (relation "measure length", simp)
  fix s r assume r: "r = dropWhile (\<lambda>c. \<not> is_separator c) s" "r \<noteq> []"
  then have "is_separator (hd r)" using hd_dropWhile [of "\<lambda>c. \<not> is_separator c" s] by simp
  then have "length (dropWhile is_separator r) < length r"
    using r(2) by (cases r) (simp_all add: length_dropWhile_le less_Suc_eq_le)
  also have "length r \<le> length s" using r(1) by (simp add: length_dropWhile_le)
  finally show "(dropWhile is_separator r, s) \<in> measure length" by simp
qed

declare split_runs.simps [simp del]

definition host_tokens :: "string \<Rightarrow> string list" where
  "host_tokens raw = filter (\<lambda>h. h \<noteq> []) (map str_trim (split_runs raw))"

definition parseModelAllowlist :: "string option \<Rightarrow> string list result" where
  "parseModelAllowlist raw =
     (case raw of
        None \<Rightarrow> Inr []
      | Some s \<Rightarrow>
          if s = [] then Inr []
          else (case find (\<lambda>h. \<not> isPlausibleHost h) (host_tokens s) of
                  Some h \<Rightarrow> Inl (Error (''invalid egress allowlist host '' @ single_quoted h
                    @ '' (expected a bare hostname '' @ [CHR 0xE2, CHR 0x80, CHR 0x94] @ '' no scheme, port, or path)''))
                | None \<Rightarrow> Inr (host_tokens s)))"

definition parseEgressMode :: "string option \<Rightarrow> egress_mode option result" where
  "parseEgressMode raw =
     (case raw of
        None \<Rightarrow> Inr None
      | Some s \<Rightarrow>
          let mode = to_lower (str_trim s) in
          if mode = [] then Inr None
          else (case find (\<lambda>m. egress_name m = mode) VALID_MODES of
                  None \<Rightarrow> Inl (Error (''invalid AGP_SANDBOX_EGRESS '' @ single_quoted s @ '' (expected one of: ''
                    @ str_join '', '' (map egress_name VALID_MODES) @ '')''))
                | Some m \<Rightarrow> Inr (Some m)))"

type_synonym environment = "string \<Rightarrow> string option"

definition resolveEgressPolicy :: "environment \<Rightarrow> egress_policy option result" where
  "resolveEgressPolicy env =
     res_bind (parseEgressMode (env ''AGP_SANDBOX_EGRESS'')) (\<lambda>mode.
       case mode of
         None \<Rightarrow> Inr None
       | Some m \<Rightarrow>
           res_bind (parseModelAllowlist (env ''AGP_SANDBOX_EGRESS_ALLOWLIST'')) (\<lambda>allowlist.
             if m = egress_allowlist \<and> allowlist = []
             then Inl (Error (''AGP_SANDBOX_EGRESS=allowlist requires AGP_SANDBOX_EGRESS_ALLOWLIST (the model host(s)) ''
               @ [CHR 0xE2, CHR 0x80, CHR 0x94] @ '' refusing an empty allowlist''))
             else Inr (Some \<lparr>eg_mode = m, eg_allowlist = allowlist\<rparr>)))"

section \<open>The network preflight\<close>

type_synonym run_result = exec_result
type_synonym 'd docker_runner = "string list \<Rightarrow> ('d, run_result) act"

record isolation_verdict =
  iv_isolated :: bool
  iv_detail :: string

definition egressProbeArgv :: "string list" where
  "egressProbeArgv = [''nc'', ''-w'', ''3'', ''-z'', ''192.0.2.1'', ''80'']"

definition mentions :: "string list \<Rightarrow> string \<Rightarrow> bool" where
  "mentions phrases s \<longleftrightarrow> list_ex (\<lambda>p. sublist p (to_lower s)) phrases"

definition reachability_phrases :: "string list" where
  "reachability_phrases = [''connection refused'', ''no route'', ''network is unreachable'', ''bad address'',
     ''name does not resolve'', ''timed out'', ''timeout'']"

definition REACHABILITY_STDERR :: "string \<Rightarrow> bool" where
  "REACHABILITY_STDERR s \<longleftrightarrow> mentions reachability_phrases s"

definition emdash :: string where
  "emdash = [CHR '' '', CHR 0xE2, CHR 0x80, CHR 0x94, CHR '' '']"

definition classifyEgressProbe :: "run_result \<Rightarrow> bool \<Rightarrow> isolation_verdict" where
  "classifyEgressProbe res networkRequested =
     (if networkRequested
      then \<lparr>iv_isolated = False, iv_detail = ''network was explicitly enabled; isolation not expected''\<rparr>
      else if er_exitCode res = 0
      then \<lparr>iv_isolated = False, iv_detail = ''egress probe reached 192.0.2.1:80 (exit 0)'' @ emdash
              @ ''network isolation NOT enforced''\<rparr>
      else
        let stderr = str_trim (er_stderr res) in
        if er_exitCode res = 127
        then \<lparr>iv_isolated = False, iv_detail = ''egress probe could not run (nc absent, exit 127); cannot prove isolation''
                @ emdash @ ''fail closed''\<rparr>
        else if stderr \<noteq> [] \<and> \<not> REACHABILITY_STDERR stderr
        then \<lparr>iv_isolated = False, iv_detail = ''egress probe failed with an unrecognized error (exit ''
                @ show_int (er_exitCode res) @ ''): '' @ stderr @ ''; cannot prove isolation'' @ emdash @ ''fail closed''\<rparr>
        else \<lparr>iv_isolated = True, iv_detail = ''egress probe could not reach 192.0.2.1:80 (exit ''
                @ show_int (er_exitCode res) @ '')'' @ emdash @ ''isolation confirmed''\<rparr>)"

definition verifyNetworkIsolation :: "'d docker_runner \<Rightarrow> sandbox_handle \<Rightarrow> bool \<Rightarrow> ('d, isolation_verdict) act" where
  "verifyNetworkIsolation run handle networkRequested =
     act_bind (run ([''exec'', sh_id handle] @ egressProbeArgv)) (\<lambda>res.
       act_ret (classifyEgressProbe res networkRequested))"

section \<open>The allowlist preflight\<close>

record allowlist_verdict =
  av_enforced :: bool
  av_detail :: string

definition DEFAULT_NON_MODEL_PROBE :: "string \<times> string" where
  "DEFAULT_NON_MODEL_PROBE = (''example.com'', ''443'')"

definition allowlistProbeArgv :: "string \<Rightarrow> string \<Rightarrow> string list" where
  "allowlistProbeArgv host port = [''nc'', ''-w'', ''3'', ''-z'', host, port]"

text \<open>\<open>proxy[: ]+denied\<close> at the start of a text, and anywhere in it.\<close>

definition proxy_denied_at :: "string \<Rightarrow> bool" where
  "proxy_denied_at s \<longleftrightarrow> prefix ''proxy'' s \<and>
     (let r = drop 5 s; r' = dropWhile (\<lambda>c. c = CHR '':'' \<or> c = CHR '' '') r in r' \<noteq> r \<and> prefix ''denied'' r')"

definition BLOCKED_STDERR :: "string \<Rightarrow> bool" where
  "BLOCKED_STDERR s \<longleftrightarrow> mentions (reachability_phrases @ [''403 forbidden'']) s
     \<or> list_ex proxy_denied_at (suffixes (to_lower s))"

definition classifyAllowlistProbe :: "run_result \<Rightarrow> run_result \<Rightarrow> allowlist_verdict" where
  "classifyAllowlistProbe nonModel model =
     (if er_exitCode model \<noteq> 0 then
        let trimmed = str_trim (er_stderr model);
            why = (if trimmed \<noteq> [] then trimmed else ''exit '' @ show_int (er_exitCode model)) in
        \<lparr>av_enforced = False, av_detail = ''model endpoint probe failed ('' @ why @ '')'' @ emdash
           @ ''harness cannot reach the model; allowlist mis-set or model host wrong''\<rparr>
      else if er_exitCode nonModel = 0
      then \<lparr>av_enforced = False, av_detail = ''non-model endpoint reachable (exit 0)'' @ emdash
              @ ''egress allowlist NOT enforced''\<rparr>
      else if er_exitCode nonModel = 127
      then \<lparr>av_enforced = False, av_detail = ''non-model probe could not run (nc absent, exit 127); ''
              @ ''cannot prove allowlist enforcement'' @ emdash @ ''fail closed''\<rparr>
      else
        let stderr = str_trim (er_stderr nonModel) in
        if stderr \<noteq> [] \<and> \<not> BLOCKED_STDERR stderr
        then \<lparr>av_enforced = False, av_detail = ''non-model probe failed with an unrecognized error (exit ''
                @ show_int (er_exitCode nonModel) @ ''): '' @ stderr @ ''; cannot prove enforcement'' @ emdash @ ''fail closed''\<rparr>
        else \<lparr>av_enforced = True, av_detail = ''non-model endpoint blocked (exit '' @ show_int (er_exitCode nonModel)
                @ '') and model endpoint reachable'' @ emdash @ ''egress allowlist enforced''\<rparr>)"

definition verifyEgressAllowlist :: "'d docker_runner \<Rightarrow> sandbox_handle \<Rightarrow> string \<Rightarrow> ('d, allowlist_verdict) act" where
  "verifyEgressAllowlist run handle modelHost =
     act_bind (run ([''exec'', sh_id handle]
         @ allowlistProbeArgv (fst DEFAULT_NON_MODEL_PROBE) (snd DEFAULT_NON_MODEL_PROBE))) (\<lambda>nonModelRes.
       act_bind (run ([''exec'', sh_id handle] @ allowlistProbeArgv modelHost (snd DEFAULT_NON_MODEL_PROBE))) (\<lambda>modelRes.
         act_ret (classifyAllowlistProbe nonModelRes modelRes)))"


section \<open>Facts about pins and hosts\<close>

lemma last_index_of_none: "c \<notin> set s \<Longrightarrow> last_index_of c s = -1"
  using index_of_char_none [of c "rev s"] by (simp add: last_index_of_def Let_def)

lemma last_index_of_last: "c \<notin> set b \<Longrightarrow> last_index_of c (a @ c # b) = int (length a)"
  using index_of_char_first [of c "rev b" "rev a"] by (simp add: last_index_of_def Let_def)

lemma last_index_of_cases:
  obtains (none) "c \<notin> set s" "last_index_of c s = -1"
  | (last) a b where "s = a @ c # b" "c \<notin> set b" "last_index_of c s = int (length a)"
proof (cases "c \<in> set s")
  case True
  then obtain a b where "s = a @ c # b" "c \<notin> set b" by (metis split_list_last)
  then show ?thesis using last last_index_of_last by blast
qed (use none last_index_of_none in blast)

text \<open>
  The image pin is exact. A reference passes exactly when it carries a digest or ends in a
  tag, after the last slash, that is not the moving one; a colon of a registry port is no tag.
\<close>

theorem pin_exact:
  "assertPinnedImage img = Inr () \<longleftrightarrow> sublist ''@sha256:'' img \<or>
     (\<exists>repo tag. img = repo @ '':'' @ tag \<and> CHR '':'' \<notin> set tag \<and> CHR ''/'' \<notin> set tag \<and> tag \<noteq> ''latest'')"
proof (cases "sublist ''@sha256:'' img")
  case True
  then show ?thesis by (simp add: assertPinnedImage_def)
next
  case False
  have uniq: "repo = a \<and> tag = b" if "img = a @ CHR '':'' # b" "CHR '':'' \<notin> set b" "img = repo @ CHR '':'' # tag" "CHR '':'' \<notin> set tag"
    for a b repo tag
  proof -
    have "last_index_of (CHR '':'') img = int (length a)" unfolding that(1) by (rule last_index_of_last [OF that(2)])
    moreover have "last_index_of (CHR '':'') img = int (length repo)"
      unfolding that(3) by (rule last_index_of_last [OF that(4)])
    ultimately have "length a = length repo" by linarith
    moreover have "a @ CHR '':'' # b = repo @ CHR '':'' # tag" using that(1,3) by argo
    ultimately show ?thesis by simp
  qed
  show ?thesis
  proof (cases rule: last_index_of_cases [of "CHR '':''" img])
    case none
    then have "last_index_of (CHR '':'') img \<le> last_index_of (CHR ''/'') img"
      by (cases rule: last_index_of_cases [of "CHR ''/''" img]) auto
    then have "assertPinnedImage img \<noteq> Inr ()" using False by (simp add: assertPinnedImage_def Let_def)
    then show ?thesis using none False by auto
  next
    case (last a b)
    have slash: "last_index_of (CHR ''/'') img < int (length a) \<longleftrightarrow> CHR ''/'' \<notin> set b"
    proof (cases rule: last_index_of_cases [of "CHR ''/''" img])
      case none
      then show ?thesis using last(1) by auto
    next
      case (last c d)
      then show ?thesis
        using \<open>img = a @ CHR '':'' # b\<close>
        by (auto simp: append_eq_append_conv2 Cons_eq_append_conv append_eq_Cons_conv)
    qed
    have "assertPinnedImage img = Inr () \<longleftrightarrow> CHR ''/'' \<notin> set b \<and> b \<noteq> ''latest''"
      using False last slash by (simp add: assertPinnedImage_def Let_def MOVING_TAG_def nat_add_distrib)
    moreover have "(\<exists>repo tag. img = repo @ '':'' @ tag \<and> CHR '':'' \<notin> set tag \<and> CHR ''/'' \<notin> set tag \<and> tag \<noteq> ''latest'')
      \<longleftrightarrow> CHR ''/'' \<notin> set b \<and> b \<noteq> ''latest''" (is "(\<exists>repo tag. ?P repo tag) \<longleftrightarrow> ?Q")
    proof
      assume "\<exists>repo tag. ?P repo tag"
      then obtain repo tag where t: "?P repo tag" by blast
      then have "tag = b" using uniq [OF last(1,2), of repo tag] by simp
      then show ?Q using t by blast
    next
      assume ?Q
      then have "?P a b" using last(1,2) by simp
      then show "\<exists>repo tag. ?P repo tag" by blast
    qed
    ultimately show ?thesis using False by argo
  qed
qed

lemma str_split_chars: "set s \<subseteq> insert c (\<Union> (set ` set (str_split [c] s)))"
proof (induction s rule: length_induct)
  case (1 s)
  show ?case
  proof (cases "c \<in> set s")
    case True
    then obtain a b where "s = a @ c # b" "c \<notin> set a" by (metis split_list_first)
    then have "set b \<subseteq> insert c (\<Union> (set ` set (str_split [c] b)))" using 1 by simp
    then show ?thesis using \<open>s = a @ c # b\<close> \<open>c \<notin> set a\<close> by (auto simp: str_split_char)
  qed (auto simp: str_split_char_none)
qed

definition host_char :: "char \<Rightarrow> bool" where
  "host_char c \<longleftrightarrow> is_alnum c \<or> c = CHR ''-'' \<or> c = CHR ''.''"

lemma plausible_chars: "isPlausibleHost h \<Longrightarrow> h \<noteq> [] \<and> list_all host_char h"
  using str_split_chars [of h "CHR ''.''"]
  by (fastforce simp: isPlausibleHost_def HOSTNAME_def host_label_def host_char_def list_all_iff)

lemma host_char_plain: "host_char c \<Longrightarrow> \<not> is_separator c \<and> \<not> is_ws c"
  by (auto simp: host_char_def is_separator_def is_ws_def is_alnum_def is_digit_def)

lemma split_runs_plain: "list_all host_char h \<Longrightarrow> split_runs h = [h]"
  by (subst split_runs.simps) (auto simp: Let_def list_all_iff dropWhile_eq_Nil_conv host_char_plain)

lemma split_runs_joined:
  assumes "list_all host_char h" "list_all host_char k" "k \<noteq> []"
  shows "split_runs (h @ '','' @ k @ rest) = h # split_runs (k @ rest)"
proof -
  have sep: "\<forall>c \<in> set h. \<not> is_separator c" using assms(1) by (auto simp: list_all_iff host_char_plain)
  have "is_separator (CHR '','')" by (simp add: is_separator_def)
  moreover have "\<not> is_separator (hd (k @ rest))" using assms(2,3) by (cases k) (auto simp: host_char_plain)
  ultimately have d: "dropWhile (\<lambda>c. \<not> is_separator c) (h @ '','' @ k @ rest) = '','' @ k @ rest"
    "takeWhile (\<lambda>c. \<not> is_separator c) (h @ '','' @ k @ rest) = h"
    "dropWhile is_separator ('','' @ k @ rest) = k @ rest"
    using sep assms(3) by (auto simp: dropWhile_append2 takeWhile_append2 neq_Nil_conv)
  show ?thesis by (subst split_runs.simps) (simp only: d Let_def, simp)
qed

lemma str_trim_plain: "list_all host_char h \<Longrightarrow> str_trim h = h"
proof -
  assume "list_all host_char h"
  then have "\<forall>c \<in> set h. \<not> is_ws c" "\<forall>c \<in> set (rev h). \<not> is_ws c" by (auto simp: list_all_iff host_char_plain)
  moreover have "dropWhile is_ws s = s" if "\<forall>c \<in> set s. \<not> is_ws c" for s
    using that by (cases s) auto
  ultimately have "dropWhile is_ws h = h" "dropWhile is_ws (rev h) = rev h" by blast+
  then show "str_trim h = h" by (simp add: str_trim_def)
qed

lemma split_runs_join:
  "\<forall>h \<in> set hs. h \<noteq> [] \<and> list_all host_char h \<Longrightarrow> hs \<noteq> [] \<Longrightarrow> split_runs (str_join '','' hs) = hs"
proof (induction "'',''" hs rule: str_join.induct)
  case (2 x)
  then show ?case by (simp add: split_runs_plain)
next
  case (3 x y ys)
  have "\<exists>rest. str_join '','' (y # ys) = y @ rest" by (cases ys) auto
  then show ?case using 3 split_runs_joined [of x y] by auto
qed simp

lemma find_none: "find P xs = None \<longleftrightarrow> (\<forall>x \<in> set xs. \<not> P x)"
  by (induction xs) auto

lemma find_some: "find P xs = Some x \<Longrightarrow> x \<in> set xs \<and> P x"
  by (induction xs) (auto split: if_splits)

text \<open>
  The host list. What the parser accepts consists of bare host names, made of letters,
  digits, hyphens and dots only, so no entry can carry anything else into the configuration of
  the proxy; and a list of such names, joined by commas as the proxy is given it, reads back as
  itself.
\<close>

theorem allowlist_clean:
  "(parseModelAllowlist raw = Inr hosts \<longrightarrow> (\<forall>h \<in> set hosts. isPlausibleHost h \<and> h \<noteq> [] \<and> list_all host_char h))
   \<and> ((\<forall>h \<in> set hosts. isPlausibleHost h) \<longrightarrow> parseModelAllowlist (Some (str_join '','' hosts)) = Inr hosts)"
proof (intro conjI impI ballI)
  fix h assume "parseModelAllowlist raw = Inr hosts" "h \<in> set hosts"
  then have p: "isPlausibleHost h"
    by (auto simp: parseModelAllowlist_def find_none split: option.splits if_splits)
  then show "isPlausibleHost h" .
  show "h \<noteq> []" "list_all host_char h" using plausible_chars [OF p] by simp_all
next
  assume p: "\<forall>h \<in> set hosts. isPlausibleHost h"
  then have c: "\<forall>h \<in> set hosts. h \<noteq> [] \<and> list_all host_char h" using plausible_chars by blast
  show "parseModelAllowlist (Some (str_join '','' hosts)) = Inr hosts"
  proof (cases "hosts = []")
    case False
    have t: "host_tokens (str_join '','' hosts) = hosts"
      unfolding host_tokens_def split_runs_join [OF c False]
      using c by (simp add: map_idI str_trim_plain filter_id_conv)
    have "str_join '','' hosts \<noteq> []" using False c by (cases hosts; cases "tl hosts") auto
    then show ?thesis using t p by (auto simp: parseModelAllowlist_def find_none split: option.split dest: find_some)
  qed (simp add: parseModelAllowlist_def)
qed

lemma allowlist_clean_witness:
  "list_all isPlausibleHost [''api.anthropic.com'', ''a.io'']
   \<and> parseModelAllowlist (Some (str_join '','' [''api.anthropic.com'', ''a.io''])) = Inr [''api.anthropic.com'', ''a.io'']"
proof -
  have p: "\<forall>h \<in> set [''api.anthropic.com'', ''a.io'']. isPlausibleHost h" by code_simp
  then show ?thesis
    using allowlist_clean [of None "[''api.anthropic.com'', ''a.io'']"] by (auto simp: list_all_iff)
qed

end
