(* ===== verification/Docker.thy ===== *)
theory Docker
  imports Egress
begin

text \<open>
  \<open>src/sandbox/docker/topology-c.ts\<close> and \<open>docker-sandbox.ts\<close>: the sandbox over the docker
  CLI. The runner is a parameter; the state keeps, beside the runner's own, the commands it was
  given (\<open>dk_calls\<close>, which the code does not read) and the warnings. Environment, home and
  working directory are read from the options. A port is an integer.
\<close>

section \<open>Running docker\<close>

record 'd docker =
  dk_state :: 'd
  dk_calls :: "(string list \<times> run_result result) list"
  dk_warnings :: "string list"

definition docker_run :: "'d docker_runner \<Rightarrow> string list \<Rightarrow> ('d docker, run_result) act" where
  "docker_run run args w =
     (case run args (dk_state w) of
        (r, s) \<Rightarrow> (r, w\<lparr>dk_state := s, dk_calls := dk_calls w @ [(args, r)]\<rparr>))"

definition docker_warn :: "string \<Rightarrow> ('d docker, unit) act" where
  "docker_warn m = act_modify (\<lambda>w. w\<lparr>dk_warnings := dk_warnings w @ [m]\<rparr>)"

definition errText :: "run_result \<Rightarrow> string" where
  "errText r = (if str_trim (er_stderr r) \<noteq> [] then str_trim (er_stderr r) else str_trim (er_stdout r))"

definition run_failure :: "string \<Rightarrow> run_result \<Rightarrow> js_error" where
  "run_failure what r = Error (what @ '' failed (exit '' @ show_int (er_exitCode r) @ ''): '' @ errText r)"

section \<open>Topology C\<close>

definition DEFAULT_EGRESS_PROXY_IMAGE :: string where
  "DEFAULT_EGRESS_PROXY_IMAGE = ''ubuntu/squid:6.6-24.04_edge''"

definition DEFAULT_PROXY_PORT :: int where
  "DEFAULT_PROXY_PORT = 3128"

record topology_names =
  tn_network :: string
  tn_proxy :: string

definition topologyCNames :: "string \<Rightarrow> topology_names" where
  "topologyCNames sessionId = \<lparr>tn_network = ''agp-egress-'' @ sessionId, tn_proxy = ''agp-proxy-'' @ sessionId\<rparr>"

definition internalNetworkCreateArgv :: "string \<Rightarrow> string list" where
  "internalNetworkCreateArgv name = [''network'', ''create'', ''--internal'', name]"

definition proxyRunArgv :: "string \<Rightarrow> string \<Rightarrow> string list \<Rightarrow> int \<Rightarrow> string list result" where
  "proxyRunArgv name img allowlist proxyPort =
     res_bind (assertPinnedImage img) (\<lambda>_.
       let hosts = str_join '','' allowlist in
       Inr [''run'', ''-d'', ''--name'', name, ''--network'', ''bridge'', ''--security-opt'', ''no-new-privileges'',
         ''--label'', ''agp.role=egress-proxy'', ''--env'', ''AGP_EGRESS_ALLOWLIST='' @ hosts,
         ''--env'', ''AGP_EGRESS_CONNECT_ALLOWLIST='' @ hosts,
         ''--env'', ''AGP_EGRESS_PROXY_PORT='' @ show_int proxyPort, img])"

definition proxyNetworkConnectArgv :: "string \<Rightarrow> string \<Rightarrow> string list" where
  "proxyNetworkConnectArgv network proxyName = [''network'', ''connect'', network, proxyName]"

definition harnessRunArgv :: "string \<Rightarrow> string \<Rightarrow> string \<Rightarrow> string \<Rightarrow> int \<Rightarrow> string list \<Rightarrow> string list result" where
  "harnessRunArgv img sessionId network proxyName proxyPort keepAlive =
     res_bind (assertPinnedImage img) (\<lambda>_.
       let proxyUrl = ''http://'' @ proxyName @ '':'' @ show_int proxyPort in
       Inr ([''run'', ''-d'', ''--network'', network, ''--cap-drop'', ''ALL'', ''--security-opt'', ''no-new-privileges'',
         ''--label'', ''agp.session='' @ sessionId, ''--env'', ''HTTPS_PROXY='' @ proxyUrl, ''--env'', ''HTTP_PROXY='' @ proxyUrl,
         ''--env'', ''https_proxy='' @ proxyUrl, ''--env'', ''http_proxy='' @ proxyUrl, img] @ keepAlive))"

record spawn_options =
  so_image :: string
  so_sessionId :: string
  so_egress :: egress_policy
  so_keepAlive :: "string list"
  so_proxyImage :: "string option"
  so_proxyPort :: "int option"

record topology_handle =
  th_handle :: sandbox_handle
  th_names :: topology_names
  th_proxyId :: string

definition teardownTopologyC :: "'d docker_runner \<Rightarrow> topology_names \<Rightarrow> string option \<Rightarrow> ('d docker, unit) act" where
  "teardownTopologyC run names harnessId =
     act_seq (case harnessId of
         Some h \<Rightarrow> if h \<noteq> [] then act_seq (docker_run run [''rm'', ''-f'', h]) (act_ret ()) else act_ret ()
       | None \<Rightarrow> act_ret ())
       (act_seq (docker_run run [''rm'', ''-f'', tn_proxy names])
         (act_seq (docker_run run [''network'', ''rm'', tn_network names]) (act_ret ())))"

definition checkAllowlistHost :: "string \<Rightarrow> unit result" where
  "checkAllowlistHost host =
     res_bind (parseModelAllowlist (Some host)) (\<lambda>parsed.
       if parsed \<noteq> [host]
       then Inl (Error (''invalid egress allowlist host '' @ single_quoted host
         @ '' (must be a single bare hostname, no embedded whitespace)''))
       else Inr ())"

text \<open>The checks before the first command; the port on success.\<close>

definition topology_checks :: "spawn_options \<Rightarrow> int result" where
  "topology_checks opts =
     (if eg_mode (so_egress opts) \<noteq> egress_allowlist
      then Inl (Error (''spawnTopologyC requires egress mode '' @ single_quoted ''allowlist'' @ '', got ''
        @ single_quoted (egress_name (eg_mode (so_egress opts)))))
      else if eg_allowlist (so_egress opts) = []
      then Inl (Error ''spawnTopologyC requires a non-empty model-host allowlist (fail closed)'')
      else res_bind (res_map checkAllowlistHost (eg_allowlist (so_egress opts))) (\<lambda>_.
        let proxyPort = (case so_proxyPort opts of None \<Rightarrow> DEFAULT_PROXY_PORT | Some p \<Rightarrow> p) in
        if proxyPort < 1 \<or> 65535 < proxyPort
        then Inl (Error (''topology C: invalid proxy port '' @ show_int proxyPort @ '' (must be an integer 1-65535)''))
        else Inr proxyPort))"

definition abandon :: "'d docker_runner \<Rightarrow> topology_names \<Rightarrow> js_error \<Rightarrow> ('d docker, 'a) act" where
  "abandon run names e = act_seq (teardownTopologyC run names None) (act_throw e)"

definition spawnTopologyC :: "'d docker_runner \<Rightarrow> spawn_options \<Rightarrow> ('d docker, topology_handle) act" where
  "spawnTopologyC run opts =
     act_bind (act_lift (topology_checks opts)) (\<lambda>proxyPort.
       let names = topologyCNames (so_sessionId opts);
           proxyImage = (case so_proxyImage opts of None \<Rightarrow> DEFAULT_EGRESS_PROXY_IMAGE | Some i \<Rightarrow> i) in
       act_bind (docker_run run (internalNetworkCreateArgv (tn_network names))) (\<lambda>net.
         if er_exitCode net \<noteq> 0 then act_throw (run_failure ''topology C: internal network create'' net)
         else act_bind (act_lift (proxyRunArgv (tn_proxy names) proxyImage (eg_allowlist (so_egress opts)) proxyPort)) (\<lambda>proxyArgv.
           act_bind (docker_run run proxyArgv) (\<lambda>proxy.
             if er_exitCode proxy \<noteq> 0
             then abandon run names (run_failure ''topology C: proxy sidecar run'' proxy)
             else act_bind (docker_run run (proxyNetworkConnectArgv (tn_network names) (tn_proxy names))) (\<lambda>connect.
               if er_exitCode connect \<noteq> 0
               then abandon run names (run_failure ''topology C: proxy network connect'' connect)
               else act_bind (act_lift (harnessRunArgv (so_image opts) (so_sessionId opts) (tn_network names)
                   (tn_proxy names) proxyPort (so_keepAlive opts))) (\<lambda>harnessArgv.
                 act_bind (docker_run run harnessArgv) (\<lambda>harness.
                   if er_exitCode harness \<noteq> 0
                   then abandon run names (run_failure ''topology C: harness run'' harness)
                   else
                     let id = str_trim (er_stdout harness) in
                     if id = [] then abandon run names (Error ''topology C: harness run returned no container id'')
                     else act_ret \<lparr>th_handle = \<lparr>sh_id = id, sh_sessionId = so_sessionId opts\<rparr>, th_names = names,
                       th_proxyId = str_trim (er_stdout proxy)\<rparr>)))))))"

section \<open>Paths\<close>

text \<open>\<open>resolve\<close> of \<open>node:path\<close>: an absolute path without empty, \<open>.\<close> and \<open>..\<close> segments.\<close>

fun path_segments :: "string list \<Rightarrow> string list \<Rightarrow> string list" where
  "path_segments acc [] = acc"
| "path_segments acc (seg # segs) =
     (if seg = [] \<or> seg = ''.'' then path_segments acc segs
      else if seg = ''..'' then path_segments (butlast acc) segs
      else path_segments (acc @ [seg]) segs)"

definition path_resolve :: "string \<Rightarrow> string \<Rightarrow> string" where
  "path_resolve cwd path =
     ''/'' @ str_join ''/'' (path_segments []
       (str_split ''/'' (if prefix ''/'' path then path else cwd @ ''/'' @ path)))"

section \<open>The docker sandbox\<close>

record mount =
  mt_source :: string
  mt_target :: string
  mt_readOnly :: "bool option"

record 'd docker_options =
  do_runner :: "'d docker_runner"
  do_mounts :: "mount list"
  do_deniedPrefixes :: "string list"
  do_memory :: string
  do_cpus :: string
  do_pidsLimit :: int
  do_keepAlive :: "string list"
  do_verifyIsolation :: bool
  do_egress :: "egress_policy option"
  do_env :: environment
  do_cwd :: string

definition defaultDeniedPrefixes :: "string \<Rightarrow> string list" where
  "defaultDeniedPrefixes home =
     [path_resolve home ''.ssh'', path_resolve home ''.aws'', path_resolve home ''.gnupg'',
      path_resolve home ''.config'', path_resolve home ''.agp'', ''/etc'', ''/var/run'', ''/run'']"

text \<open>The constructor's defaults.\<close>

definition docker_defaults :: "'d docker_runner \<Rightarrow> string \<Rightarrow> environment \<Rightarrow> string \<Rightarrow> 'd docker_options" where
  "docker_defaults run home env cwd = \<lparr>do_runner = run, do_mounts = [], do_deniedPrefixes = defaultDeniedPrefixes home,
     do_memory = ''512m'', do_cpus = ''1'', do_pidsLimit = 256, do_keepAlive = [''sleep'', ''infinity''],
     do_verifyIsolation = True, do_egress = None, do_env = env, do_cwd = cwd\<rparr>"

definition docker_isolation :: isolation_guarantees where
  "docker_isolation = \<lparr>ig_kind = ''docker-container'',
     ig_boundary = ''Linux namespace + cgroup isolation with dropped capabilities and no-new-privileges. ''
       @ ''NOT a VM or kernel-level boundary: a kernel exploit or container escape defeats it. ''
       @ ''See 020-AT-THRT-docker-isolation-limits.md.'',
     ig_vmGrade = False\<rparr>"

definition mount_denied :: "string \<Rightarrow> string \<Rightarrow> bool" where
  "mount_denied src pre \<longleftrightarrow> src = pre \<or> prefix (pre @ ''/'') src"

definition assertMountAllowed :: "'d docker_options \<Rightarrow> mount \<Rightarrow> unit result" where
  "assertMountAllowed S m =
     (case find (mount_denied (path_resolve (do_cwd S) (mt_source m))) (do_deniedPrefixes S) of
        Some pre \<Rightarrow> Inl (Error (''mount of '' @ single_quoted (mt_source m) @ '' is denied (host-secret path under '' @ pre @ '')''))
      | None \<Rightarrow> Inr ())"

definition spawn_checks :: "'d docker_options \<Rightarrow> sandbox_spec \<Rightarrow> unit result" where
  "spawn_checks S spec =
     res_bind (assertPinnedImage (sp_image spec)) (\<lambda>_.
       res_bind (res_map (assertMountAllowed S) (do_mounts S)) (\<lambda>_. Inr ()))"

definition mount_args :: "'d docker_options \<Rightarrow> mount \<Rightarrow> string list" where
  "mount_args S m = [''-v'', path_resolve (do_cwd S) (mt_source m) @ '':'' @ mt_target m
     @ (if mt_readOnly m = Some False then [] else '':ro'')]"

definition docker_run_args :: "'d docker_options \<Rightarrow> sandbox_spec \<Rightarrow> bool \<Rightarrow> string list" where
  "docker_run_args S spec networkEnabled =
     [''run'', ''-d'', ''--network'', if networkEnabled then ''bridge'' else ''none'', ''--cap-drop'', ''ALL'',
      ''--security-opt'', ''no-new-privileges'', ''--pids-limit'', show_int (do_pidsLimit S),
      ''--memory'', do_memory S, ''--cpus'', do_cpus S, ''--label'', ''agp.session='' @ sp_sessionId spec]
     @ concat (map (mount_args S) (do_mounts S)) @ [sp_image spec] @ do_keepAlive S"

definition docker_teardown :: "'d docker_options \<Rightarrow> sandbox_handle \<Rightarrow> ('d docker, unit) act" where
  "docker_teardown S handle = act_seq (docker_run (do_runner S) [''rm'', ''-f'', sh_id handle]) (act_ret ())"

definition docker_exec :: "'d docker_options \<Rightarrow> sandbox_handle \<Rightarrow> string list \<Rightarrow> ('d docker, exec_result) act" where
  "docker_exec S handle command =
     act_bind (docker_run (do_runner S) ([''exec'', sh_id handle] @ command)) (\<lambda>res.
       act_ret \<lparr>er_exitCode = er_exitCode res, er_stdout = er_stdout res, er_stderr = er_stderr res\<rparr>)"

text \<open>The network preflight after a spawn with the network off.\<close>

definition spawn_preflight :: "'d docker_options \<Rightarrow> sandbox_handle \<Rightarrow> ('d docker, unit) act" where
  "spawn_preflight S handle =
     (if do_env S ''AGP_SANDBOX_SKIP_NETCHECK'' = Some ''1''
      then docker_warn (''[agp] WARNING: network-isolation preflight SKIPPED for container '' @ sh_id handle
        @ '' (AGP_SANDBOX_SKIP_NETCHECK=1)'' @ emdash @ ''egress enforcement is UNVERIFIED. Dev only.'')
      else act_bind (verifyNetworkIsolation (docker_run (do_runner S)) handle False) (\<lambda>verdict.
        if iv_isolated verdict then act_ret ()
        else act_seq (docker_teardown S handle)
          (act_throw (Error (''network isolation not enforced: '' @ iv_detail verdict)))))"

definition topology_options :: "'d docker_options \<Rightarrow> sandbox_spec \<Rightarrow> egress_policy \<Rightarrow> spawn_options" where
  "topology_options S spec egress = \<lparr>so_image = sp_image spec, so_sessionId = sp_sessionId spec, so_egress = egress,
     so_keepAlive = do_keepAlive S, so_proxyImage = None, so_proxyPort = None\<rparr>"

definition spawnTopologyCGated :: "'d docker_options \<Rightarrow> egress_policy \<Rightarrow> sandbox_spec \<Rightarrow> ('d docker, sandbox_handle) act" where
  "spawnTopologyCGated S egress spec =
     (if do_env S ''AGP_TOPOLOGY_C_E2E'' = None \<or> do_env S ''AGP_TOPOLOGY_C_E2E'' = Some []
      then act_throw (Error (''egress mode '' @ single_quoted ''allowlist'' @ '' (Topology C) requires AGP_TOPOLOGY_C_E2E + a validated proxy ''
        @ ''(agp-3s4.3.2/.4.2)'' @ emdash @ ''refusing to run rather than fall back to full egress''))
      else act_seq (act_lift (spawn_checks S spec))
        (act_bind (spawnTopologyC (do_runner S) (topology_options S spec egress)) (\<lambda>built.
          if do_env S ''AGP_TOPOLOGY_C_SKIP'' = Some ''1''
          then act_seq (docker_warn (''[agp] WARNING: Topology C allowlist preflight SKIPPED for container ''
              @ sh_id (th_handle built) @ '' (AGP_TOPOLOGY_C_SKIP=1)'' @ emdash
              @ ''model-only egress enforcement is UNVERIFIED. Dev only.''))
            (act_ret (th_handle built))
          else act_catch
            (act_bind (verifyEgressAllowlist (docker_run (do_runner S)) (th_handle built) (hd (eg_allowlist egress))) (\<lambda>verdict.
              if av_enforced verdict then act_ret (th_handle built)
              else act_throw (Error (''Topology C egress allowlist not enforced: '' @ av_detail verdict))))
            (\<lambda>e. act_seq (teardownTopologyC (do_runner S) (th_names built) (Some (sh_id (th_handle built))))
              (act_throw e)))))"

text \<open>The spawn of a single hardened container.\<close>

definition spawn_container :: "'d docker_options \<Rightarrow> sandbox_spec \<Rightarrow> bool \<Rightarrow> ('d docker, sandbox_handle) act" where
  "spawn_container S spec networkEnabled =
     act_seq (act_lift (spawn_checks S spec))
       (act_bind (docker_run (do_runner S) (docker_run_args S spec networkEnabled)) (\<lambda>res.
         if er_exitCode res \<noteq> 0 then act_throw (run_failure ''docker run'' res)
         else
           let id = str_trim (er_stdout res); handle = \<lparr>sh_id = id, sh_sessionId = sp_sessionId spec\<rparr> in
           if id = [] then act_throw (Error ''docker run returned no container id'')
           else act_seq (if \<not> networkEnabled \<and> do_verifyIsolation S then spawn_preflight S handle else act_ret ())
             (act_ret handle)))"

definition docker_spawn :: "'d docker_options \<Rightarrow> sandbox_spec \<Rightarrow> ('d docker, sandbox_handle) act" where
  "docker_spawn S spec =
     (case do_egress S of
        None \<Rightarrow> spawn_container S spec (sp_networkEnabled spec)
      | Some egress \<Rightarrow>
          if eg_mode egress = egress_allowlist then spawnTopologyCGated S egress spec
          else spawn_container S spec (eg_mode egress = egress_full))"

definition DockerSandbox :: "'d docker_options \<Rightarrow> 'd docker sandbox_provider" where
  "DockerSandbox S = \<lparr>sb_isolation = docker_isolation, sb_spawn = docker_spawn S, sb_exec = docker_exec S,
     sb_teardown = docker_teardown S\<rparr>"

end
