(* ===== verification/DockerSafety.thy ===== *)
theory DockerSafety
  imports Docker
begin

text \<open>
  What the docker sandbox promises: a container with the network off is probed before it is
  handed out, an allowlisted one has passed both probes, a spawn that throws leaves nothing
  behind, and a failed check runs no command.
\<close>

section \<open>Postconditions of actions\<close>

definition act_wp :: "('w, 'a) act \<Rightarrow> ('a result \<Rightarrow> 'w \<Rightarrow> bool) \<Rightarrow> 'w \<Rightarrow> bool" where
  "act_wp m Q w = (case m w of (r, w') \<Rightarrow> Q r w')"

lemma act_wpD: "act_wp m Q w \<Longrightarrow> m w = (r, w') \<Longrightarrow> Q r w'"
  by (simp add: act_wp_def)

lemma act_wp_mono: "act_wp m P w \<Longrightarrow> (\<And>r w'. P r w' \<Longrightarrow> Q r w') \<Longrightarrow> act_wp m Q w"
  by (auto simp: act_wp_def split: prod.splits)

lemma act_wp_conj: "act_wp m P w \<Longrightarrow> act_wp m Q w \<Longrightarrow> act_wp m (\<lambda>r w'. P r w' \<and> Q r w') w"
  by (auto simp: act_wp_def)

named_theorems wp_simps "postconditions through the combinators"

lemma wp_ret [wp_simps]: "act_wp (act_ret x) Q w \<longleftrightarrow> Q (Inr x) w"
  by (simp add: act_wp_def act_defs)

lemma wp_throw [wp_simps]: "act_wp (act_throw e) Q w \<longleftrightarrow> Q (Inl e) w"
  by (simp add: act_wp_def act_defs)

lemma wp_lift [wp_simps]: "act_wp (act_lift r) Q w \<longleftrightarrow> Q r w"
  by (simp add: act_wp_def act_defs)

lemma wp_modify [wp_simps]: "act_wp (act_modify f) Q w \<longleftrightarrow> Q (Inr ()) (f w)"
  by (simp add: act_wp_def act_defs)

lemma wp_bind [wp_simps]:
  "act_wp (act_bind m f) Q w \<longleftrightarrow> act_wp m (\<lambda>r w'. case r of Inl e \<Rightarrow> Q (Inl e) w' | Inr x \<Rightarrow> act_wp (f x) Q w') w"
  by (simp add: act_wp_def act_bind_def split: prod.splits sum.splits)

lemma wp_seq [wp_simps]:
  "act_wp (act_seq m k) Q w \<longleftrightarrow> act_wp m (\<lambda>r w'. case r of Inl e \<Rightarrow> Q (Inl e) w' | Inr _ \<Rightarrow> act_wp k Q w') w"
  by (simp add: act_seq_def wp_bind)

lemma wp_catch [wp_simps]:
  "act_wp (act_catch m h) Q w \<longleftrightarrow> act_wp m (\<lambda>r w'. case r of Inl e \<Rightarrow> act_wp (h e) Q w' | Inr x \<Rightarrow> Q (Inr x) w') w"
  by (simp add: act_wp_def act_catch_def split: prod.splits sum.splits)

section \<open>Resources\<close>

text \<open>
  The networks and containers a list of commands started and did not remove. A named container
  goes by its name, another by the identifier docker printed.
\<close>

datatype resource = Network string | Container string

definition started :: "string list \<Rightarrow> run_result result \<Rightarrow> resource set" where
  "started args res =
     (case res of
        Inl _ \<Rightarrow> {}
      | Inr r \<Rightarrow>
          if er_exitCode r \<noteq> 0 then {}
          else if take 2 args = [''network'', ''create''] then {Network (last args)}
          else if take 3 args = [''run'', ''-d'', ''--name''] then {Container (args ! 3)}
          else if take 1 args = [''run''] \<and> str_trim (er_stdout r) \<noteq> [] then {Container (str_trim (er_stdout r))}
          else {})"

definition removed :: "string list \<Rightarrow> resource set" where
  "removed args =
     (if take 2 args = [''rm'', ''-f''] then {Container (last args)}
      else if take 2 args = [''network'', ''rm''] then {Network (last args)}
      else {})"

fun outstanding :: "resource set \<Rightarrow> (string list \<times> run_result result) list \<Rightarrow> resource set" where
  "outstanding R [] = R"
| "outstanding R ((args, res) # cs) = outstanding (R \<union> started args res - removed args) cs"

lemma outstanding_append [simp]: "outstanding R (cs @ ds) = outstanding (outstanding R cs) ds"
  by (induction R cs rule: outstanding.induct) auto

text \<open>What each command of the code does to them.\<close>

lemma resources_network [simp]:
  "started (internalNetworkCreateArgv n) (Inr r) = (if er_exitCode r = 0 then {Network n} else {})"
  "removed (internalNetworkCreateArgv n) = {}"
  "started (proxyNetworkConnectArgv n p) res = {}" "removed (proxyNetworkConnectArgv n p) = {}"
  "started [''network'', ''rm'', n] res = {}" "removed [''network'', ''rm'', n] = {Network n}"
  by (simp_all add: started_def removed_def internalNetworkCreateArgv_def proxyNetworkConnectArgv_def split: sum.split)

lemma resources_rm [simp]:
  "started [''rm'', ''-f'', h] res = {}" "removed [''rm'', ''-f'', h] = {Container h}"
  by (simp_all add: started_def removed_def split: sum.split)

lemma resources_exec [simp]: "started (''exec'' # args) res = {}" "removed (''exec'' # args) = {}"
  by (simp_all add: started_def removed_def numeral_2_eq_2 numeral_3_eq_3 split: sum.split)

lemma resources_proxy:
  assumes "proxyRunArgv name img hosts port = Inr args"
  shows "started args (Inr r) = (if er_exitCode r = 0 then {Container name} else {})" "removed args = {}"
  using assms by (cases "assertPinnedImage img"; auto simp: started_def removed_def proxyRunArgv_def Let_def)+

lemma resources_harness:
  assumes "harnessRunArgv img sid network proxy port keep = Inr args"
  shows "started args (Inr r) =
      (if er_exitCode r = 0 \<and> str_trim (er_stdout r) \<noteq> [] then {Container (str_trim (er_stdout r))} else {})"
    "removed args = {}"
  using assms by (cases "assertPinnedImage img"; auto simp: started_def removed_def harnessRunArgv_def Let_def)+

lemma resources_container [simp]:
  "started (docker_run_args S spec nw) (Inr r) =
     (if er_exitCode r = 0 \<and> str_trim (er_stdout r) \<noteq> [] then {Container (str_trim (er_stdout r))} else {})"
  "removed (docker_run_args S spec nw) = {}"
  by (simp_all add: started_def removed_def docker_run_args_def)

section \<open>A runner that answers\<close>

definition answers :: "'d docker_runner \<Rightarrow> bool" where
  "answers run \<longleftrightarrow> (\<forall>args s. \<exists>r s'. run args s = (Inr r, s'))"

lemma wp_docker_run:
  assumes "answers run"
    and "\<And>r s. Q (Inr r) (w\<lparr>dk_state := s, dk_calls := dk_calls w @ [(args, Inr r)]\<rparr>)"
  shows "act_wp (docker_run run args) Q w"
proof -
  obtain r s where "run args (dk_state w) = (Inr r, s)" using assms(1) unfolding answers_def by blast
  then show ?thesis using assms(2) by (simp add: act_wp_def docker_run_def)
qed

definition new_calls :: "'d docker \<Rightarrow> 'd docker \<Rightarrow> (string list \<times> run_result result) list" where
  "new_calls w w' = drop (length (dk_calls w)) (dk_calls w')"

section \<open>No leak\<close>

lemma new_calls_eq: "dk_calls w' = dk_calls w @ cs \<Longrightarrow> new_calls w w' = cs"
  by (simp add: new_calls_def)

lemma pinned_argv:
  "assertPinnedImage img = Inr () \<Longrightarrow> \<exists>args. proxyRunArgv name img hosts port = Inr args"
  "assertPinnedImage img = Inr () \<Longrightarrow> \<exists>args. harnessRunArgv img sid network proxy port keep = Inr args"
  by (simp_all add: proxyRunArgv_def harnessRunArgv_def Let_def)

lemma default_proxy_pinned: "assertPinnedImage DEFAULT_EGRESS_PROXY_IMAGE = Inr ()"
  by code_simp

text \<open>What a topology may leave standing: nothing when it throws, its three parts when it is built.\<close>

definition topology_left :: "topology_handle result \<Rightarrow> resource set" where
  "topology_left r = (case r of Inl _ \<Rightarrow> {}
     | Inr th \<Rightarrow> {Network (tn_network (th_names th)), Container (tn_proxy (th_names th)), Container (sh_id (th_handle th))})"

lemma spawnTopologyC_outstanding:
  assumes ans: "answers run" and pin: "assertPinnedImage (so_image opts) = Inr ()"
    "so_proxyImage opts = None \<or> (\<exists>i. so_proxyImage opts = Some i \<and> assertPinnedImage i = Inr ())"
  shows "act_wp (spawnTopologyC run opts) (\<lambda>r w'. \<exists>cs. dk_calls w' = dk_calls w @ cs
     \<and> outstanding {} cs \<subseteq> topology_left r) w"
proof (cases "topology_checks opts")
  case (Inr port)
  let ?names = "topologyCNames (so_sessionId opts)"
  let ?img = "case so_proxyImage opts of None \<Rightarrow> DEFAULT_EGRESS_PROXY_IMAGE | Some i \<Rightarrow> i"
  have "assertPinnedImage ?img = Inr ()" using pin(2) default_proxy_pinned by auto
  then obtain pargs where p: "proxyRunArgv (tn_proxy ?names) ?img (eg_allowlist (so_egress opts)) port = Inr pargs"
    using pinned_argv(1) by blast
  obtain hargs where h: "harnessRunArgv (so_image opts) (so_sessionId opts) (tn_network ?names)
      (tn_proxy ?names) port (so_keepAlive opts) = Inr hargs"
    using pinned_argv(2) [OF pin(1)] by blast
  show ?thesis
    unfolding spawnTopologyC_def Inr Let_def abandon_def teardownTopologyC_def
    by (auto simp: wp_simps p h topology_left_def resources_proxy [OF p] resources_harness [OF h]
      intro!: wp_docker_run [OF ans])
qed (simp add: spawnTopologyC_def wp_simps topology_left_def)

text \<open>A spawn leaves nothing when it throws, and only what its handle names when it returns one.\<close>

definition spawn_left :: "string \<Rightarrow> sandbox_handle result \<Rightarrow> resource set" where
  "spawn_left sid r = (case r of Inl _ \<Rightarrow> {}
     | Inr h \<Rightarrow> {Container (sh_id h), Network (tn_network (topologyCNames sid)), Container (tn_proxy (topologyCNames sid))})"

lemma spawn_checks_pinned: "spawn_checks S spec = Inr x \<Longrightarrow> assertPinnedImage (sp_image spec) = Inr ()"
  by (auto simp: spawn_checks_def result_simps)

lemma docker_run_eq:
  "docker_run run args w = (Inr r, w') \<longleftrightarrow> (\<exists>s. run args (dk_state w) = (Inr r, s)
     \<and> w' = w\<lparr>dk_state := s, dk_calls := dk_calls w @ [(args, Inr r)]\<rparr>)"
  by (auto simp: docker_run_def split: prod.splits)

lemma docker_run_calls: "docker_run run args w = (Inr r, w') \<Longrightarrow> dk_calls w' = dk_calls w @ [(args, Inr r)]"
  by (auto simp: docker_run_eq)

lemma act_lift_eq: "act_lift x w = (y, w') \<longleftrightarrow> x = y \<and> w' = w"
  by (auto simp: act_lift_def)

lemma abandon_throws: "abandon run names e w \<noteq> (Inr x, w')"
  by (auto simp: abandon_def act_seq_def act_bind_def act_throw_def split: prod.splits sum.splits)

lemmas spawn_success = act_bind_eq_Inr act_seq_def act_lift_eq abandon_throws act_ret_def act_throw_def

definition topology_calls :: "spawn_options \<Rightarrow> topology_handle \<Rightarrow> (string list \<times> run_result result) list \<Rightarrow> bool" where
  "topology_calls opts th cs \<longleftrightarrow> (\<exists>port pargs hargs net proxy connect harness.
     topology_checks opts = Inr port
     \<and> proxyRunArgv (tn_proxy (th_names th))
         (case so_proxyImage opts of None \<Rightarrow> DEFAULT_EGRESS_PROXY_IMAGE | Some i \<Rightarrow> i) (eg_allowlist (so_egress opts)) port = Inr pargs
     \<and> harnessRunArgv (so_image opts) (so_sessionId opts) (tn_network (th_names th)) (tn_proxy (th_names th)) port
         (so_keepAlive opts) = Inr hargs
     \<and> cs = [(internalNetworkCreateArgv (tn_network (th_names th)), Inr net), (pargs, Inr proxy),
          (proxyNetworkConnectArgv (tn_network (th_names th)) (tn_proxy (th_names th)), Inr connect), (hargs, Inr harness)]
     \<and> er_exitCode net = 0 \<and> er_exitCode proxy = 0 \<and> er_exitCode connect = 0 \<and> er_exitCode harness = 0
     \<and> sh_id (th_handle th) = str_trim (er_stdout harness) \<and> sh_id (th_handle th) \<noteq> []
     \<and> sh_sessionId (th_handle th) = so_sessionId opts \<and> th_names th = topologyCNames (so_sessionId opts))"

lemma topology_success:
  "spawnTopologyC run opts w = (Inr th, w') \<Longrightarrow> \<exists>cs. dk_calls w' = dk_calls w @ cs \<and> topology_calls opts th cs"
  unfolding spawnTopologyC_def
  by (auto simp: spawn_success Let_def topology_calls_def dest!: docker_run_calls split: if_splits)

lemma built_names:
  "act_wp (spawnTopologyC run opts) (\<lambda>r w'. \<forall>th. r = Inr th \<longrightarrow>
     th_names th = topologyCNames (so_sessionId opts) \<and> sh_id (th_handle th) \<noteq> []) w"
  by (auto simp: act_wp_def topology_calls_def dest!: topology_success split: prod.split)

lemma gated_outstanding:
  assumes ans: "answers (do_runner S)"
  shows "act_wp (spawnTopologyCGated S egress spec) (\<lambda>r w'. \<exists>cs. dk_calls w' = dk_calls w @ cs
     \<and> outstanding {} cs \<subseteq> spawn_left (sp_sessionId spec) r) w"
proof (cases "(do_env S ''AGP_TOPOLOGY_C_E2E'' = None \<or> do_env S ''AGP_TOPOLOGY_C_E2E'' = Some []) \<or> (\<exists>e. spawn_checks S spec = Inl e)")
  case True
  then show ?thesis by (auto simp: spawnTopologyCGated_def wp_simps spawn_left_def)
next
  case False
  then obtain u where c: "spawn_checks S spec = Inr u" by (cases "spawn_checks S spec") auto
  let ?o = "topology_options S spec egress"
  have o: "so_sessionId ?o = sp_sessionId spec" "so_proxyImage ?o = None" "assertPinnedImage (so_image ?o) = Inr ()"
    using spawn_checks_pinned [OF c] by (simp_all add: topology_options_def)
  have b: "act_wp (spawnTopologyC (do_runner S) ?o) (\<lambda>r w'. (\<exists>cs. dk_calls w' = dk_calls w @ cs
      \<and> outstanding {} cs \<subseteq> topology_left r) \<and> (\<forall>th. r = Inr th \<longrightarrow>
        th_names th = topologyCNames (sp_sessionId spec) \<and> sh_id (th_handle th) \<noteq> [])) w"
    by (rule act_wp_conj [OF spawnTopologyC_outstanding [OF ans o(3)] built_names [where opts = ?o, unfolded o(1)]])
      (simp add: o(2))
  show ?thesis
    unfolding spawnTopologyCGated_def using False c
    by (auto simp: wp_simps verifyEgressAllowlist_def docker_warn_def teardownTopologyC_def topology_left_def spawn_left_def
      intro!: act_wp_mono [OF b] wp_docker_run [OF ans] split: sum.split)
qed

lemma container_outstanding:
  assumes ans: "answers (do_runner S)"
  shows "act_wp (spawn_container S spec nw) (\<lambda>r w'. \<exists>cs. dk_calls w' = dk_calls w @ cs
     \<and> outstanding {} cs \<subseteq> spawn_left sid r) w"
  unfolding spawn_container_def Let_def spawn_preflight_def docker_teardown_def verifyNetworkIsolation_def docker_warn_def
  by (cases "spawn_checks S spec") (auto simp: wp_simps spawn_left_def intro!: wp_docker_run [OF ans])

lemma docker_spawn_outstanding:
  assumes ans: "answers (do_runner S)"
  shows "act_wp (docker_spawn S spec) (\<lambda>r w'. \<exists>cs. dk_calls w' = dk_calls w @ cs
     \<and> outstanding {} cs \<subseteq> spawn_left (sp_sessionId spec) r) w"
  unfolding docker_spawn_def
  by (auto intro: gated_outstanding [OF ans] container_outstanding [OF ans] split: option.split)


section \<open>Successful spawns\<close>

lemma topology_outstanding:
  assumes "topology_calls opts th cs"
  shows "outstanding {} cs = {Network (tn_network (th_names th)), Container (tn_proxy (th_names th)), Container (sh_id (th_handle th))}"
  using assms unfolding topology_calls_def by (auto simp: resources_proxy resources_harness)

text \<open>The verdicts, exactly.\<close>

definition probe_blocked :: "(string \<Rightarrow> bool) \<Rightarrow> run_result \<Rightarrow> bool" where
  "probe_blocked known r \<longleftrightarrow> er_exitCode r \<noteq> 0 \<and> er_exitCode r \<noteq> 127
     \<and> (str_trim (er_stderr r) = [] \<or> known (str_trim (er_stderr r)))"

lemma egress_verdict: "iv_isolated (classifyEgressProbe r False) \<longleftrightarrow> probe_blocked REACHABILITY_STDERR r"
  by (simp add: classifyEgressProbe_def probe_blocked_def Let_def)

lemma allowlist_verdict_enforced:
  "av_enforced (classifyAllowlistProbe nm m) \<longleftrightarrow> er_exitCode m = 0 \<and> probe_blocked BLOCKED_STDERR nm"
  by (simp add: classifyAllowlistProbe_def probe_blocked_def Let_def)

lemma spawn_checks_ok:
  "spawn_checks S spec = Inr x \<longleftrightarrow> assertPinnedImage (sp_image spec) = Inr ()
     \<and> (\<forall>m \<in> set (do_mounts S). \<forall>pre \<in> set (do_deniedPrefixes S).
         \<not> mount_denied (path_resolve (do_cwd S) (mt_source m)) pre)"
proof -
  have "(\<exists>us. res_map (assertMountAllowed S) (do_mounts S) = Inr us) \<longleftrightarrow> (\<forall>m \<in> set (do_mounts S). \<forall>pre \<in> set (do_deniedPrefixes S).
         \<not> mount_denied (path_resolve (do_cwd S) (mt_source m)) pre)"
    unfolding res_map_ok by (auto simp: assertMountAllowed_def find_none split: option.splits)
  then show ?thesis by (auto simp: spawn_checks_def result_simps)
qed

lemma gated_success:
  assumes "spawnTopologyCGated S egress spec w = (Inr h, w')"
  obtains th cs ps where "do_env S ''AGP_TOPOLOGY_C_E2E'' \<noteq> None" "do_env S ''AGP_TOPOLOGY_C_E2E'' \<noteq> Some []"
    "spawn_checks S spec = Inr ()" "th_handle th = h" "topology_calls (topology_options S spec egress) th cs"
    "dk_calls w' = dk_calls w @ cs @ ps"
    "if do_env S ''AGP_TOPOLOGY_C_SKIP'' = Some ''1'' then ps = []
     else \<exists>nonModel model.
       ps = [(''exec'' # sh_id h # allowlistProbeArgv (fst DEFAULT_NON_MODEL_PROBE) (snd DEFAULT_NON_MODEL_PROBE), Inr nonModel),
         (''exec'' # sh_id h # allowlistProbeArgv (hd (eg_allowlist egress)) (snd DEFAULT_NON_MODEL_PROBE), Inr model)]
       \<and> er_exitCode model = 0 \<and> probe_blocked BLOCKED_STDERR nonModel"
proof -
  have catch: "act_catch m (\<lambda>e. act_seq (teardownTopologyC run n i) (act_throw e)) v = (Inr x, v') \<longleftrightarrow> m v = (Inr x, v')"
    for m :: "('a docker, sandbox_handle) act" and run n i v x v'
    by (auto simp: act_catch_def act_seq_def act_bind_def act_throw_def split: prod.splits sum.splits)
  let ?verify = "\<lambda>built. act_bind (verifyEgressAllowlist (docker_run (do_runner S)) (th_handle built) (hd (eg_allowlist egress)))
    (\<lambda>verdict. if av_enforced verdict then act_ret (th_handle built)
      else act_throw (Error (''Topology C egress allowlist not enforced: '' @ av_detail verdict)))"
  have e2e: "\<not> (do_env S ''AGP_TOPOLOGY_C_E2E'' = None \<or> do_env S ''AGP_TOPOLOGY_C_E2E'' = Some [])" (is "\<not> ?closed")
  proof
    assume ?closed
    then show False using assms unfolding spawnTopologyCGated_def if_P [OF \<open>?closed\<close>] by (simp add: act_throw_def)
  qed
  obtain u th v where g: "spawn_checks S spec = Inr u"
      "spawnTopologyC (do_runner S) (topology_options S spec egress) w = (Inr th, v)"
    and r': "(if do_env S ''AGP_TOPOLOGY_C_SKIP'' = Some ''1''
        then act_seq (docker_warn (''[agp] WARNING: Topology C allowlist preflight SKIPPED for container ''
              @ sh_id (th_handle th) @ '' (AGP_TOPOLOGY_C_SKIP=1)'' @ emdash
              @ ''model-only egress enforcement is UNVERIFIED. Dev only.''))
            (act_ret (th_handle th))
        else act_catch (?verify th) (\<lambda>e. act_seq (teardownTopologyC (do_runner S) (th_names th) (Some (sh_id (th_handle th))))
              (act_throw e))) v = (Inr h, w')"
    using assms unfolding spawnTopologyCGated_def if_not_P [OF e2e] act_seq_def [of "act_lift (spawn_checks S spec)"]
      act_bind_eq_Inr [of "act_lift (spawn_checks S spec)"] act_bind_eq_Inr [of "spawnTopologyC r o'" for r o'] act_lift_eq
    by blast
  have r: "do_env S ''AGP_TOPOLOGY_C_SKIP'' = Some ''1'' \<Longrightarrow> h = th_handle th \<and> dk_calls w' = dk_calls v"
      "do_env S ''AGP_TOPOLOGY_C_SKIP'' \<noteq> Some ''1'' \<Longrightarrow> ?verify th v = (Inr h, w')"
    using r' by (simp_all add: catch) (auto simp: docker_warn_def act_modify_def act_ret_def act_seq_def act_bind_def)
  obtain cs where cs: "dk_calls v = dk_calls w @ cs" "topology_calls (topology_options S spec egress) th cs"
    using topology_success [OF g(2)] by blast
  show thesis
  proof (cases "do_env S ''AGP_TOPOLOGY_C_SKIP'' = Some ''1''")
    case True
    then show ?thesis using that [of th cs "[]"] e2e g(1) cs r(1) by force
  next
    case False
    have "\<exists>nonModel model. h = th_handle th \<and> dk_calls w' = dk_calls v @
       [(''exec'' # sh_id h # allowlistProbeArgv (fst DEFAULT_NON_MODEL_PROBE) (snd DEFAULT_NON_MODEL_PROBE), Inr nonModel),
         (''exec'' # sh_id h # allowlistProbeArgv (hd (eg_allowlist egress)) (snd DEFAULT_NON_MODEL_PROBE), Inr model)]
       \<and> er_exitCode model = 0 \<and> probe_blocked BLOCKED_STDERR nonModel"
      using r(2) [OF False]
      by (auto simp: spawn_success verifyEgressAllowlist_def allowlist_verdict_enforced dest!: docker_run_calls split: if_splits)
    then show ?thesis using that [of th cs] e2e g(1) cs False by force
  qed
qed

text \<open>
  C33: a sandbox without network is proved so before it is handed out. When the network is off
  and the check is on, a returned handle belongs to a container that was started with no
  network, all capabilities dropped, from a pinned image, with no denied mount, and in which the
  egress probe ran and failed in a recognised way.
\<close>

theorem docker_spawn_isolated:
  assumes "docker_spawn S spec w = (Inr h, w')"
    and "do_egress S = None \<and> \<not> sp_networkEnabled spec \<or> map_option eg_mode (do_egress S) = Some egress_none"
    and "do_verifyIsolation S" "do_env S ''AGP_SANDBOX_SKIP_NETCHECK'' \<noteq> Some ''1''"
  shows "\<exists>r probe. new_calls w w' = [(docker_run_args S spec False, Inr r), (''exec'' # sh_id h # egressProbeArgv, Inr probe)]
    \<and> er_exitCode r = 0 \<and> sh_id h = str_trim (er_stdout r) \<and> sh_id h \<noteq> [] \<and> sh_sessionId h = sp_sessionId spec
    \<and> probe_blocked REACHABILITY_STDERR probe \<and> assertPinnedImage (sp_image spec) = Inr ()
    \<and> (\<forall>m \<in> set (do_mounts S). \<forall>pre \<in> set (do_deniedPrefixes S).
         \<not> mount_denied (path_resolve (do_cwd S) (mt_source m)) pre)"
proof -
  have "spawn_container S spec False w = (Inr h, w')"
    using assms(1,2) by (auto simp: docker_spawn_def split: option.splits)
  then show ?thesis
    using assms(3,4) unfolding spawn_container_def
    by (auto simp: spawn_success Let_def spawn_preflight_def verifyNetworkIsolation_def spawn_checks_ok egress_verdict
      new_calls_def dest!: docker_run_calls split: if_splits)
qed

text \<open>
  C34: the allowlist gate. Without the opt-in nothing is run and the spawn throws; and a returned
  handle is the harness of a topology built by exactly the four commands, whose harness has seen,
  unless the skip is asked for, a blocked foreign host and then the reachable model host.
\<close>

theorem allowlist_gate:
  assumes "do_egress S = Some egress" "eg_mode egress = egress_allowlist" "docker_spawn S spec w = (r, w')"
  shows "if do_env S ''AGP_TOPOLOGY_C_E2E'' \<in> {None, Some []} then (\<exists>e. r = Inl e) \<and> w' = w
    else (\<exists>e. r = Inl e) \<or> (\<exists>th cs ps. r = Inr (th_handle th) \<and> spawn_checks S spec = Inr ()
       \<and> topology_calls (topology_options S spec egress) th cs \<and> new_calls w w' = cs @ ps
       \<and> (if do_env S ''AGP_TOPOLOGY_C_SKIP'' = Some ''1'' then ps = []
          else \<exists>nonModel model.
            ps = [(''exec'' # sh_id (th_handle th) # allowlistProbeArgv ''example.com'' ''443'', Inr nonModel),
              (''exec'' # sh_id (th_handle th) # allowlistProbeArgv (hd (eg_allowlist egress)) ''443'', Inr model)]
            \<and> er_exitCode model = 0 \<and> probe_blocked BLOCKED_STDERR nonModel))"
proof -
  have g: "spawnTopologyCGated S egress spec w = (r, w')" using assms by (simp add: docker_spawn_def)
  show ?thesis
  proof (cases "do_env S ''AGP_TOPOLOGY_C_E2E'' \<in> {None, Some []}")
    case True
    then show ?thesis using g by (auto simp: spawnTopologyCGated_def act_throw_def)
  next
    case False
    show ?thesis
    proof (cases r)
      case (Inr h)
      show ?thesis
      proof (rule gated_success [OF g [unfolded Inr]], goal_cases)
        case (1 th cs ps)
        have "new_calls w w' = cs @ ps" using 1(6) by (simp add: new_calls_def)
        then have "r = Inr (th_handle th) \<and> spawn_checks S spec = Inr ()
          \<and> topology_calls (topology_options S spec egress) th cs \<and> new_calls w w' = cs @ ps"
          using 1(3-5) Inr by blast
        then show ?case
          using 1(7) unfolding if_not_P [OF False] 1(4) [symmetric] DEFAULT_NON_MODEL_PROBE_def fst_conv snd_conv
          by blast
      qed
    qed (use False in auto)
  qed
qed

text \<open>
  The teardown of an allowlisted sandbox leaves its proxy and its network. The provider
  removes only the container of the handle, so after a spawn under an allowlist and the teardown
  of what it returned, the session's proxy still runs and its network still stands.
\<close>

theorem topology_teardown_leak:
  assumes "do_egress S = Some egress" "eg_mode egress = egress_allowlist"
    and "sb_spawn (DockerSandbox S) spec w = (Inr h, w1)" "sb_teardown (DockerSandbox S) h w1 = (Inr u, w2)"
    and "sh_id h \<noteq> tn_proxy (topologyCNames (sp_sessionId spec))"
  shows "outstanding {} (new_calls w w2) = {Network (tn_network (topologyCNames (sp_sessionId spec))),
    Container (tn_proxy (topologyCNames (sp_sessionId spec)))}"
proof -
  have g: "spawnTopologyCGated S egress spec w = (Inr h, w1)"
    using assms by (simp add: DockerSandbox_def docker_spawn_def)
  obtain th cs ps where c: "th_handle th = h" "topology_calls (topology_options S spec egress) th cs"
      "dk_calls w1 = dk_calls w @ cs @ ps" "\<forall>R. outstanding R ps = R"
    by (rule gated_success [OF g]) (auto split: if_splits)
  obtain x where "dk_calls w2 = dk_calls w1 @ [([''rm'', ''-f'', sh_id h], Inr x)]"
    using assms(4) by (auto simp: DockerSandbox_def docker_teardown_def spawn_success dest!: docker_run_calls)
  moreover have "th_names th = topologyCNames (sp_sessionId spec)"
    using c(2) by (auto simp: topology_calls_def topology_options_def)
  ultimately show ?thesis
    using topology_outstanding [OF c(2)] c assms(5) by (auto simp: new_calls_def)
qed

section \<open>The provider's contract\<close>

interpretation docker: sandbox_contract "DockerSandbox S"
proof unfold_locales
  fix spec :: sandbox_spec and b b' :: "'a docker" and h
  assume "sb_spawn (DockerSandbox S) spec b = (Inr h, b')"
  then have "docker_spawn S spec b = (Inr h, b')" by (simp add: DockerSandbox_def)
  then consider e where "spawnTopologyCGated S e spec b = (Inr h, b')" | nw where "spawn_container S spec nw b = (Inr h, b')"
    by (auto simp: docker_spawn_def split: option.splits if_splits)
  then show "sh_sessionId h = sp_sessionId spec"
  proof cases
    case 1
    then show ?thesis by (rule gated_success) (auto simp: topology_calls_def topology_options_def)
  qed (auto simp: spawn_container_def spawn_success Let_def spawn_preflight_def split: if_splits)
qed (simp add: DockerSandbox_def docker_isolation_def)

section \<open>Witnesses\<close>

text \<open>A docker whose containers reach one host only.\<close>

definition one_host :: "unit docker_runner" where
  "one_host args s = (Inr \<lparr>er_exitCode = (if take 1 args = [''exec''] \<and> ''a.io'' \<notin> set args then 1 else 0),
     er_stdout = (if take 1 args = [''run''] then ''c1'' else []), er_stderr = []\<rparr>, s)"

definition box :: "egress_policy option \<Rightarrow> unit docker_options" where
  "box egress = (docker_defaults one_host ''/root'' (\<lambda>k. if k = ''AGP_TOPOLOGY_C_E2E'' then Some ''1'' else None) ''/work'')
     \<lparr>do_egress := egress\<rparr>"

definition box_spec :: sandbox_spec where
  "box_spec = \<lparr>sp_image = ''node:22'', sp_sessionId = ''s1'', sp_networkEnabled = False\<rparr>"

definition box_start :: "unit docker" where
  "box_start = \<lparr>dk_state = (), dk_calls = [], dk_warnings = []\<rparr>"

definition one_host_policy :: egress_policy where
  "one_host_policy = \<lparr>eg_mode = egress_allowlist, eg_allowlist = [''a.io'']\<rparr>"


lemma docker_spawn_isolated_witness:
  "\<exists>r probe. new_calls box_start (snd (docker_spawn (box None) box_spec box_start)) =
       [(docker_run_args (box None) box_spec False, Inr r), (''exec'' # ''c1'' # egressProbeArgv, Inr probe)]
     \<and> probe_blocked REACHABILITY_STDERR probe"
proof -
  have "fst (docker_spawn (box None) box_spec box_start) = Inr \<lparr>sh_id = ''c1'', sh_sessionId = ''s1''\<rparr>" by code_simp
  then have "docker_spawn (box None) box_spec box_start
     = (Inr \<lparr>sh_id = ''c1'', sh_sessionId = ''s1''\<rparr>, snd (docker_spawn (box None) box_spec box_start))"
    by (metis prod.collapse)
  from docker_spawn_isolated [OF this] show ?thesis by (auto simp: box_def docker_defaults_def box_spec_def)
qed

lemma trim_c1: "str_trim ''c1'' = ''c1''" "str_trim [] = []" by code_simp+

lemma one_host_run:
  "docker_run one_host args w = (Inr \<lparr>er_exitCode = (if take 1 args = [''exec''] \<and> ''a.io'' \<notin> set args then 1 else 0),
     er_stdout = (if take 1 args = [''run''] then ''c1'' else []), er_stderr = []\<rparr>,
     w\<lparr>dk_calls := dk_calls w @ [(args, Inr \<lparr>er_exitCode = (if take 1 args = [''exec''] \<and> ''a.io'' \<notin> set args then 1 else 0),
     er_stdout = (if take 1 args = [''run''] then ''c1'' else []), er_stderr = []\<rparr>)]\<rparr>)"
  by (simp add: docker_run_def one_host_def)

lemma box_checks: "topology_checks (topology_options (box (Some one_host_policy)) box_spec one_host_policy) = Inr 3128"
  "spawn_checks (box (Some one_host_policy)) box_spec = Inr ()"
  by code_simp+

lemma box_pins: "assertPinnedImage DEFAULT_EGRESS_PROXY_IMAGE = Inr ()" "assertPinnedImage ''node:22'' = Inr ()"
  "assertPinnedImage ''node'' = Inl (Error (''image '' @ single_quoted ''node'' @ '' is unpinned (no tag or digest); pin it for reproducibility''))"
  by code_simp+

lemma topology_spawn_eval: "fst (spawnTopologyC one_host (topology_options (box (Some one_host_policy)) box_spec one_host_policy) box_start) 
  = Inr \<lparr>th_handle = \<lparr>sh_id = ''c1'', sh_sessionId = ''s1''\<rparr>, th_names = topologyCNames ''s1'', th_proxyId = ''c1''\<rparr>"
  unfolding spawnTopologyC_def box_checks(1)
  by (simp add: act_bind_lift act_bind_run(1) [OF one_host_run] topology_options_def box_spec_def
    internalNetworkCreateArgv_def proxyRunArgv_def harnessRunArgv_def proxyNetworkConnectArgv_def box_pins trim_c1 act_ret_def Let_def)


lemma allowlist_spawn_eval:
  "fst (docker_spawn (box (Some one_host_policy)) box_spec box_start) = Inr \<lparr>sh_id = ''c1'', sh_sessionId = ''s1''\<rparr>"
proof -
  obtain w where "spawnTopologyC one_host (topology_options (box (Some one_host_policy)) box_spec one_host_policy) box_start
     = (Inr \<lparr>th_handle = \<lparr>sh_id = ''c1'', sh_sessionId = ''s1''\<rparr>, th_names = topologyCNames ''s1'', th_proxyId = ''c1''\<rparr>, w)"
    using topology_spawn_eval by (metis prod.collapse)
  moreover have "do_runner (box x) = one_host" "do_egress (box x) = x"
    "do_env (box x) ''AGP_TOPOLOGY_C_E2E'' = Some ''1''" "do_env (box x) ''AGP_TOPOLOGY_C_SKIP'' = None" for x
    by (simp_all add: box_def docker_defaults_def)
  moreover have "eg_mode one_host_policy = egress_allowlist" "eg_allowlist one_host_policy = [''a.io'']"
    by (simp_all add: one_host_policy_def)
  ultimately show ?thesis
    by (simp add: docker_spawn_def spawnTopologyCGated_def box_checks(2) act_seq_lift act_bind_run(1) act_catch_def
      verifyEgressAllowlist_def act_bind_run(1) [OF one_host_run] allowlist_verdict_enforced probe_blocked_def
      allowlistProbeArgv_def DEFAULT_NON_MODEL_PROBE_def trim_c1 act_ret_def)
qed

lemma allowlist_gate_witness:
  "\<exists>th cs ps. Inr \<lparr>sh_id = ''c1'', sh_sessionId = ''s1''\<rparr> = (Inr (th_handle th) :: sandbox_handle result)
     \<and> topology_calls (topology_options (box (Some one_host_policy)) box_spec one_host_policy) th cs
     \<and> new_calls box_start (snd (docker_spawn (box (Some one_host_policy)) box_spec box_start)) = cs @ ps \<and> ps \<noteq> []"
proof -
  have "docker_spawn (box (Some one_host_policy)) box_spec box_start
     = (Inr \<lparr>sh_id = ''c1'', sh_sessionId = ''s1''\<rparr>, snd (docker_spawn (box (Some one_host_policy)) box_spec box_start))"
    using allowlist_spawn_eval by (metis prod.collapse)
  from allowlist_gate [OF _ _ this, of one_host_policy] show ?thesis
    by (auto simp: box_def docker_defaults_def one_host_policy_def)
qed

lemma topology_teardown_leak_witness:
  "\<exists>w. outstanding {} (new_calls box_start w) = {Network ''agp-egress-s1'', Container ''agp-proxy-s1''}"
proof -
  let ?S = "box (Some one_host_policy)" and ?h = "\<lparr>sh_id = ''c1'', sh_sessionId = ''s1''\<rparr>"
  obtain w1 where w1: "sb_spawn (DockerSandbox ?S) box_spec box_start = (Inr ?h, w1)"
    using allowlist_spawn_eval by (metis DockerSandbox_def prod.collapse sandbox_provider.select_convs(2))
  obtain w2 where w2: "sb_teardown (DockerSandbox ?S) ?h w1 = (Inr (), w2)"
    by (simp add: DockerSandbox_def docker_teardown_def box_def docker_defaults_def docker_run_def one_host_def act_defs)
  have "outstanding {} (new_calls box_start w2) = {Network (tn_network (topologyCNames (sp_sessionId box_spec))),
      Container (tn_proxy (topologyCNames (sp_sessionId box_spec)))}"
    by (rule topology_teardown_leak [OF _ _ w1 w2, of one_host_policy])
      (simp_all add: box_def one_host_policy_def box_spec_def topologyCNames_def)
  then show ?thesis by (auto simp: box_spec_def topologyCNames_def)
qed

text \<open>
  Called directly with an unpinned harness image the builder leaves its network and its proxy
  behind: the check of the image throws between the commands, outside every teardown.
\<close>

lemma topology_pin_leak:
  "case spawnTopologyC one_host ((topology_options (box (Some one_host_policy)) box_spec one_host_policy)\<lparr>so_image := ''node''\<rparr>) box_start of
     (r, w) \<Rightarrow> isl r \<and> outstanding {} (dk_calls w) = {Network ''agp-egress-s1'', Container ''agp-proxy-s1''}"
proof -
  have c: "topology_checks ((topology_options (box (Some one_host_policy)) box_spec one_host_policy)\<lparr>so_image := ''node''\<rparr>) = Inr 3128"
    by code_simp
  have p: "proxyRunArgv ''agp-proxy-s1'' DEFAULT_EGRESS_PROXY_IMAGE [''a.io''] 3128 = Inr x \<Longrightarrow> take 1 x = [''run'']" for x
    by (auto simp: proxyRunArgv_def box_pins Let_def)
  obtain a where a: "proxyRunArgv ''agp-proxy-s1'' DEFAULT_EGRESS_PROXY_IMAGE [''a.io''] 3128 = Inr a"
    using pinned_argv(1) box_pins(1) by blast
  have e: "take 1 a \<noteq> [''exec'']" using p [OF a] by simp
  have n: "take 1 (internalNetworkCreateArgv n) \<noteq> [''exec'']" "take 1 (proxyNetworkConnectArgv n p) \<noteq> [''exec'']" for n p
    by (simp_all add: internalNetworkCreateArgv_def proxyNetworkConnectArgv_def)
  show ?thesis
    unfolding spawnTopologyC_def c
    using e n by (simp add: act_bind_lift act_bind_run(1) [OF one_host_run] topology_options_def box_spec_def a one_host_policy_def
      harnessRunArgv_def box_pins topologyCNames_def Let_def box_start_def resources_proxy [OF a] insert_commute)
qed

end
