(* ===== verification/SocketMode.thy ===== *)
theory SocketMode
  imports Channels
begin

text \<open>
  The receiver of Slack clicks over a socket (\<open>src/channels/slack/socket-mode.ts\<close>), as a state
  machine over its method calls, the frames and the close of its connection, and its timers. A
  promise is a number; the awaited nonces and the outcomes are kept beside the state the code has.
\<close>

section \<open>The receiver\<close>

record socket_frame =
  sf_envelope_id :: "json option"
  sf_payload :: "json option"

record rejected_interaction =
  ri_reason :: string
  ri_nonce :: string
  ri_userId :: string

datatype click_outcome = Clicked slack_interaction | Failed js_error

text \<open>
  \<open>sm_timers\<close> holds the running timers, by promise, with the nonce their callback deletes;
  \<open>sm_acks\<close> and \<open>sm_rejected\<close> what was sent and reported.
\<close>

record socket_receiver =
  sm_connected :: bool
  sm_stopped :: bool
  sm_pending :: "(string \<times> nat) list"
  sm_timers :: "(nat \<times> string) list"
  sm_resolved :: "string list"
  sm_acks :: "string list"
  sm_rejected :: "rejected_interaction list"
  sm_awaited :: "string list"
  sm_settled :: "(nat \<times> click_outcome) list"

definition receiver :: socket_receiver where
  "receiver = \<lparr>sm_connected = False, sm_stopped = False, sm_pending = [], sm_timers = [], sm_resolved = [], sm_acks = [],
     sm_rejected = [], sm_awaited = [], sm_settled = []\<rparr>"

definition sm_start :: "socket_receiver \<Rightarrow> socket_receiver" where
  "sm_start s = s\<lparr>sm_connected := True\<rparr>"

definition sm_settle :: "nat \<Rightarrow> click_outcome \<Rightarrow> socket_receiver \<Rightarrow> socket_receiver" where
  "sm_settle n r s = (if n \<in> fst ` set (sm_settled s) then s else s\<lparr>sm_settled := sm_settled s @ [(n, r)]\<rparr>)"

text \<open>\<open>clearTimeout\<close> of the entry and its rejection or resolution.\<close>

definition sm_close_entry :: "nat \<Rightarrow> click_outcome \<Rightarrow> socket_receiver \<Rightarrow> socket_receiver" where
  "sm_close_entry n r s = sm_settle n r (s\<lparr>sm_timers := AList.delete n (sm_timers s)\<rparr>)"

definition rejectAllPending :: "js_error \<Rightarrow> socket_receiver \<Rightarrow> socket_receiver" where
  "rejectAllPending err s = (fold (\<lambda>(_, n). sm_close_entry n (Failed err)) (sm_pending s) s)\<lparr>sm_pending := []\<rparr>"

definition sm_stop :: "socket_receiver \<Rightarrow> socket_receiver" where
  "sm_stop s = (rejectAllPending (Error ''receiver stopped'') (s\<lparr>sm_stopped := True\<rparr>))\<lparr>sm_connected := False\<rparr>"

definition awaitInteraction :: "string \<Rightarrow> socket_receiver \<Rightarrow> socket_receiver" where
  "awaitInteraction nonce s =
     (let n = length (sm_awaited s) in
      s\<lparr>sm_timers := sm_timers s @ [(n, nonce)], sm_pending := AList.update nonce n (sm_pending s),
        sm_awaited := sm_awaited s @ [nonce]\<rparr>)"

definition sm_timeout :: "nat \<Rightarrow> socket_receiver \<Rightarrow> socket_receiver" where
  "sm_timeout n s =
     (case map_of (sm_timers s) n of
        None \<Rightarrow> s
      | Some nonce \<Rightarrow> sm_settle n (Failed (Error (''approval timed out for nonce '' @ nonce)))
          (s\<lparr>sm_timers := AList.delete n (sm_timers s), sm_pending := AList.delete nonce (sm_pending s)\<rparr>))"

definition handleFrame :: "socket_frame \<Rightarrow> socket_receiver \<Rightarrow> socket_receiver" where
  "handleFrame frame s =
     (let s1 = (case sf_envelope_id frame of
          None \<Rightarrow> s
        | Some i \<Rightarrow> if sm_connected s then s\<lparr>sm_acks := sm_acks s @ [json_stringify (JObj [(''envelope_id'', i)])]\<rparr> else s) in
      case parseBlockAction (sf_payload frame) of
        None \<Rightarrow> s1
      | Some i \<Rightarrow>
          (case map_of (sm_pending s1) (si_nonce i) of
             None \<Rightarrow> s1\<lparr>sm_rejected := sm_rejected s1 @ [\<lparr>
               ri_reason = (if si_nonce i \<in> set (sm_resolved s1) then ''nonce already used (replay)'' else ''unknown nonce''),
               ri_nonce = si_nonce i, ri_userId = si_userId i\<rparr>]\<rparr>
           | Some n \<Rightarrow> sm_close_entry n (Clicked i)
               (s1\<lparr>sm_pending := AList.delete (si_nonce i) (sm_pending s1),
                  sm_resolved := List.insert (si_nonce i) (sm_resolved s1)\<rparr>)))"

definition handleClose :: "socket_receiver \<Rightarrow> socket_receiver" where
  "handleClose s = (if sm_stopped s then s else rejectAllPending (Error ''socket closed'') s)"

datatype socket_event =
    SmStart
  | SmAwait string
  | SmFrame socket_frame
  | SmTimeout nat
  | SmClose
  | SmStop

fun sm_step :: "socket_event \<Rightarrow> socket_receiver \<Rightarrow> socket_receiver" where
  "sm_step SmStart s = sm_start s"
| "sm_step (SmAwait nonce) s = awaitInteraction nonce s"
| "sm_step (SmFrame frame) s = handleFrame frame s"
| "sm_step (SmTimeout n) s = sm_timeout n s"
| "sm_step SmClose s = handleClose s"
| "sm_step SmStop s = sm_stop s"

definition sm_run :: "socket_event list \<Rightarrow> socket_receiver" where
  "sm_run es = fold sm_step es receiver"

section \<open>The invariant\<close>

text \<open>
  An open promise has its timer, under its nonce; a pending entry is an open promise of its nonce;
  what a promise resolves with is a click on its own nonce.
\<close>

definition sm_entries_ok :: "socket_receiver \<Rightarrow> bool" where
  "sm_entries_ok s \<longleftrightarrow> obj_ok (sm_pending s) \<and> (\<forall>k n. (k, n) \<in> set (sm_pending s) \<longrightarrow> (n, k) \<in> set (sm_timers s))"

definition sm_timers_ok :: "socket_receiver \<Rightarrow> bool" where
  "sm_timers_ok s \<longleftrightarrow> obj_ok (sm_timers s)
     \<and> (\<forall>n k. (n, k) \<in> set (sm_timers s) \<longrightarrow> n < length (sm_awaited s) \<and> sm_awaited s ! n = k \<and> n \<notin> fst ` set (sm_settled s))"

definition click_fits :: "string list \<Rightarrow> nat \<Rightarrow> click_outcome \<Rightarrow> bool" where
  "click_fits ks n r \<longleftrightarrow> n < length ks \<and> (case r of Clicked i \<Rightarrow> si_nonce i = ks ! n | Failed _ \<Rightarrow> True)"

definition sm_settled_ok :: "socket_receiver \<Rightarrow> bool" where
  "sm_settled_ok s \<longleftrightarrow> distinct (map fst (sm_settled s)) \<and> (\<forall>(n, r) \<in> set (sm_settled s). click_fits (sm_awaited s) n r)
     \<and> (\<forall>n < length (sm_awaited s). n \<in> fst ` set (sm_timers s) \<or> n \<in> fst ` set (sm_settled s))"

definition sm_ok :: "socket_receiver \<Rightarrow> bool" where
  "sm_ok s \<longleftrightarrow> sm_entries_ok s \<and> sm_timers_ok s \<and> sm_settled_ok s"

lemma sm_okD:
  assumes "sm_ok s"
  shows "map_of (sm_pending s) k = Some n \<Longrightarrow> map_of (sm_timers s) n = Some k"
    "map_of (sm_timers s) n = Some k \<Longrightarrow> n < length (sm_awaited s) \<and> sm_awaited s ! n = k \<and> n \<notin> fst ` set (sm_settled s)"
  using assms by (auto simp: sm_ok_def sm_entries_ok_def sm_timers_ok_def dest!: map_of_SomeD)

text \<open>
  What settles an open promise: its timer goes, and with it any pending entries, none of the
  promise staying; its outcome is recorded.
\<close>

lemma close_ok:
  assumes "sm_ok s" "map_of (sm_timers s) n = Some k" "\<forall>i. r = Clicked i \<longrightarrow> si_nonce i = k"
    and ps: "obj_ok ps" "set ps \<subseteq> set (sm_pending s)" "\<forall>j. (j, n) \<notin> set ps"
  shows "sm_ok (sm_settle n r (s\<lparr>sm_timers := AList.delete n (sm_timers s), sm_pending := ps\<rparr>))"
proof -
  have n: "n < length (sm_awaited s)" "sm_awaited s ! n = k" "n \<notin> fst ` set (sm_settled s)"
    using sm_okD(2) [OF assms(1,2)] by simp_all
  let ?s = "s\<lparr>sm_timers := AList.delete n (sm_timers s), sm_pending := ps, sm_settled := sm_settled s @ [(n, r)]\<rparr>"
  have eq: "sm_settle n r (s\<lparr>sm_timers := AList.delete n (sm_timers s), sm_pending := ps\<rparr>) = ?s"
    using n(3) by (simp add: sm_settle_def)
  have "(m, j) \<in> set (AList.delete n (sm_timers s))" if "(j, m) \<in> set ps" for j m
    using that ps assms(1) by (auto simp: set_delete sm_ok_def sm_entries_ok_def)
  then have "sm_entries_ok ?s" using ps(1) by (simp add: sm_entries_ok_def)
  moreover have "sm_timers_ok ?s"
    using assms(1) by (auto simp: sm_ok_def sm_timers_ok_def distinct_delete set_delete)
  moreover have "click_fits (sm_awaited s) n r" using n assms(3) by (auto simp: click_fits_def split: click_outcome.split)
  then have "sm_settled_ok ?s"
    using assms(1) n by (auto simp: sm_ok_def sm_settled_ok_def set_delete)
  ultimately show ?thesis unfolding eq sm_ok_def by simp
qed

lemma close_pending: "sm_close_entry n r (s\<lparr>sm_pending := ps\<rparr>) = (sm_close_entry n r s)\<lparr>sm_pending := ps\<rparr>"
  by (simp add: sm_close_entry_def sm_settle_def)

lemma closes_pending:
  "fold (\<lambda>(_, n). sm_close_entry n r) qs (s\<lparr>sm_pending := ps\<rparr>) = (fold (\<lambda>(_, n). sm_close_entry n r) qs s)\<lparr>sm_pending := ps\<rparr>"
  by (induction qs arbitrary: s) (auto simp: close_pending)

lemma close_keeps [simp]:
  "sm_awaited (sm_close_entry n r s) = sm_awaited s" "sm_pending (sm_close_entry n r s) = sm_pending s"
  "fst ` set (sm_settled (sm_close_entry n r s)) = insert n (fst ` set (sm_settled s))"
  by (auto simp: sm_close_entry_def sm_settle_def)

lemma close_failed_ok:
  assumes "sm_ok s" "sm_pending s = []" "n < length (sm_awaited s)"
  shows "sm_ok (sm_close_entry n (Failed e) s)"
proof (cases "map_of (sm_timers s) n")
  case None
  then have t: "n \<notin> fst ` set (sm_timers s)" by (simp add: map_of_eq_None_iff)
  then have "n \<in> fst ` set (sm_settled s)" using assms(1,3) by (auto simp: sm_ok_def sm_settled_ok_def)
  then show ?thesis using assms(1) t by (simp add: sm_close_entry_def sm_settle_def delete_id)
next
  case (Some k)
  have "s\<lparr>sm_timers := AList.delete n (sm_timers s), sm_pending := []\<rparr> = s\<lparr>sm_timers := AList.delete n (sm_timers s)\<rparr>"
    using assms(2) by (cases s) simp
  then show ?thesis using close_ok [OF assms(1) Some, of "Failed e" "[]"] by (simp add: sm_close_entry_def)
qed

lemma closes_failed_ok:
  "sm_ok s \<Longrightarrow> sm_pending s = [] \<Longrightarrow> \<forall>(k, n) \<in> set qs. n < length (sm_awaited s) \<Longrightarrow>
     sm_ok (fold (\<lambda>(_, n). sm_close_entry n (Failed e)) qs s)
     \<and> sm_awaited (fold (\<lambda>(_, n). sm_close_entry n (Failed e)) qs s) = sm_awaited s
     \<and> fst ` set (sm_settled (fold (\<lambda>(_, n). sm_close_entry n (Failed e)) qs s)) = snd ` set qs \<union> fst ` set (sm_settled s)"
proof (induction qs arbitrary: s)
  case (Cons q qs)
  obtain k n where q: "q = (k, n)" by (cases q)
  then have "sm_ok (sm_close_entry n (Failed e) s)" using Cons.prems by (simp add: close_failed_ok)
  then show ?case using Cons.IH [of "sm_close_entry n (Failed e) s"] Cons.prems(2,3) q by (simp add: Un_commute)
qed simp

lemma reject_all:
  assumes "sm_ok s"
  shows "sm_ok (rejectAllPending e s) \<and> sm_awaited (rejectAllPending e s) = sm_awaited s
    \<and> fst ` set (sm_settled (rejectAllPending e s)) = snd ` set (sm_pending s) \<union> fst ` set (sm_settled s)"
proof -
  let ?s = "s\<lparr>sm_pending := []\<rparr>"
  have "sm_ok ?s" using assms by (simp add: sm_ok_def sm_entries_ok_def sm_timers_ok_def sm_settled_ok_def)
  moreover have "\<forall>(k, n) \<in> set (sm_pending s). n < length (sm_awaited ?s)"
    using assms by (fastforce simp: sm_ok_def sm_entries_ok_def sm_timers_ok_def)
  ultimately show ?thesis
    using closes_failed_ok [of ?s "sm_pending s" e] by (simp add: rejectAllPending_def closes_pending)
qed

lemma sm_ok_flags [simp]:
  "sm_ok (s\<lparr>sm_connected := c\<rparr>) = sm_ok s" "sm_ok (s\<lparr>sm_stopped := c\<rparr>) = sm_ok s" "sm_ok (s\<lparr>sm_acks := a\<rparr>) = sm_ok s"
  "sm_ok (s\<lparr>sm_rejected := r\<rparr>) = sm_ok s" "sm_ok (s\<lparr>sm_resolved := x\<rparr>) = sm_ok s"
  by (simp_all add: sm_ok_def sm_entries_ok_def sm_timers_ok_def sm_settled_ok_def)

lemma delete_entry:
  assumes "sm_ok s" "map_of (sm_timers s) n = Some k"
  shows "obj_ok (AList.delete k (sm_pending s))" "set (AList.delete k (sm_pending s)) \<subseteq> set (sm_pending s)"
    "\<forall>j. (j, n) \<notin> set (AList.delete k (sm_pending s))"
proof -
  have "j = k" if "(j, n) \<in> set (sm_pending s)" for j
  proof -
    have "(n, j) \<in> set (sm_timers s)" "(n, k) \<in> set (sm_timers s)"
      using that assms by (auto simp: sm_ok_def sm_entries_ok_def dest: map_of_SomeD)
    then have "sm_awaited s ! n = j" "sm_awaited s ! n = k" using assms(1) unfolding sm_ok_def sm_timers_ok_def by blast+
    then show ?thesis by simp
  qed
  then show "\<forall>j. (j, n) \<notin> set (AList.delete k (sm_pending s))" by (auto simp: set_delete)
qed (use assms(1) in \<open>auto simp: sm_ok_def sm_entries_ok_def distinct_delete set_delete\<close>)

lemma timeout_step:
  assumes "sm_ok s"
  shows "sm_ok (sm_timeout n s)" "n < length (sm_awaited s) \<Longrightarrow> n \<in> fst ` set (sm_settled (sm_timeout n s))"
proof -
  show "sm_ok (sm_timeout n s)"
    using assms close_ok [OF assms _ _ delete_entry [OF assms]]
    by (auto simp: sm_timeout_def split: option.split)
  assume "n < length (sm_awaited s)"
  then have h: "n \<in> fst ` set (sm_timers s) \<or> n \<in> fst ` set (sm_settled s)"
    using assms by (auto simp: sm_ok_def sm_settled_ok_def)
  show "n \<in> fst ` set (sm_settled (sm_timeout n s))"
  proof (cases "map_of (sm_timers s) n")
    case None
    then have "n \<notin> fst ` set (sm_timers s)" by (simp add: map_of_eq_None_iff)
    then show ?thesis using h None by (simp add: sm_timeout_def)
  qed (auto simp: sm_timeout_def sm_settle_def)
qed

lemma frame_step:
  assumes "sm_ok s"
  shows "sm_ok (handleFrame f s)"
proof -
  have ok: "sm_ok (sm_close_entry n (Clicked i) (s'\<lparr>sm_pending := AList.delete (si_nonce i) (sm_pending s'), sm_resolved := x\<rparr>))"
    if s': "sm_ok s'" "map_of (sm_pending s') (si_nonce i) = Some n" for s' i n x
  proof -
    let ?t = "s'\<lparr>sm_resolved := x\<rparr>"
    have t: "sm_ok ?t" "map_of (sm_timers ?t) n = Some (si_nonce i)" using sm_okD(1) [OF s'] s'(1) by simp_all
    have e: "sm_close_entry n (Clicked i) (s'\<lparr>sm_pending := AList.delete (si_nonce i) (sm_pending s'), sm_resolved := x\<rparr>)
      = sm_settle n (Clicked i) (?t\<lparr>sm_timers := AList.delete n (sm_timers ?t), sm_pending := AList.delete (si_nonce i) (sm_pending ?t)\<rparr>)"
      unfolding sm_close_entry_def by (rule arg_cong [where f = "sm_settle n (Clicked i)"], cases s') simp
    show ?thesis unfolding e by (rule close_ok [OF t _ delete_entry [OF t]]) simp
  qed
  let ?acked = "case sf_envelope_id f of None \<Rightarrow> s
    | Some i \<Rightarrow> if sm_connected s then s\<lparr>sm_acks := sm_acks s @ [json_stringify (JObj [(''envelope_id'', i)])]\<rparr> else s"
  obtain s1 where s1: "?acked = s1" "sm_ok s1" using assms by (cases "sf_envelope_id f") simp_all
  show ?thesis
  proof (cases "parseBlockAction (sf_payload f)")
    case (Some i)
    then show ?thesis
      unfolding handleFrame_def s1(1) Let_def using s1(2) ok [OF s1(2)]
      by (cases "map_of (sm_pending s1) (si_nonce i)") simp_all
  qed (simp add: handleFrame_def s1 Let_def)
qed

lemma await_step:
  assumes "sm_ok s"
  shows "sm_ok (awaitInteraction k s)"
proof -
  let ?n = "length (sm_awaited s)"
  have fresh: "?n \<notin> fst ` set (sm_timers s)" "?n \<notin> fst ` set (sm_settled s)"
  proof -
    have "m < ?n" if "(m, j) \<in> set (sm_timers s)" for m j using that assms unfolding sm_ok_def sm_timers_ok_def by blast
    then show "?n \<notin> fst ` set (sm_timers s)" by fastforce
    have "m < ?n" if "(m, r) \<in> set (sm_settled s)" for m r
      using that assms by (auto simp: sm_ok_def sm_settled_ok_def click_fits_def)
    then show "?n \<notin> fst ` set (sm_settled s)" by fastforce
  qed
  have "(m, j) \<in> set (sm_timers s @ [(?n, k)])" if "(j, m) \<in> set (AList.update k ?n (sm_pending s))" for j m
    using subsetD [OF set_update_subset that] assms unfolding sm_ok_def sm_entries_ok_def by auto
  then have "sm_entries_ok (awaitInteraction k s)"
    using assms unfolding sm_ok_def sm_entries_ok_def awaitInteraction_def Let_def by simp
  moreover have "sm_timers_ok (awaitInteraction k s)"
  proof -
    have old: "m < ?n \<and> sm_awaited s ! m = j \<and> m \<notin> fst ` set (sm_settled s)" if "(m, j) \<in> set (sm_timers s)" for m j
      using assms that unfolding sm_ok_def sm_timers_ok_def by blast
    have "m < Suc ?n \<and> (sm_awaited s @ [k]) ! m = j \<and> m \<notin> fst ` set (sm_settled s)" if "(m, j) \<in> set (sm_timers s @ [(?n, k)])" for m j
      using that old [of m j] fresh(2) by (cases "(m, j) \<in> set (sm_timers s)") (auto simp: nth_append)
    then show ?thesis
      using assms fresh(1) unfolding sm_ok_def sm_timers_ok_def awaitInteraction_def Let_def by simp
  qed
  moreover have "sm_settled_ok (awaitInteraction k s)"
  proof -
  have "click_fits (ks @ [k]) n r" if "click_fits ks n r" for ks n r
    using that by (auto simp: click_fits_def nth_append split: click_outcome.splits)
  then have "\<forall>(n, r) \<in> set (sm_settled s). click_fits (sm_awaited s @ [k]) n r"
    using assms by (auto simp: sm_ok_def sm_settled_ok_def)
  moreover have "n \<in> fst ` set (sm_timers s @ [(?n, k)]) \<or> n \<in> fst ` set (sm_settled s)" if "n < Suc ?n" for n
    using that assms by (auto simp: sm_ok_def sm_settled_ok_def less_Suc_eq)
  ultimately show ?thesis
    using assms by (simp add: sm_ok_def sm_settled_ok_def awaitInteraction_def Let_def)
  qed
  ultimately show ?thesis by (simp add: sm_ok_def)
qed

lemma sm_step_ok: "sm_ok s \<Longrightarrow> sm_ok (sm_step e s)"
  by (cases e) (simp_all add: sm_start_def await_step frame_step timeout_step handleClose_def reject_all sm_stop_def)

lemma receiver_ok: "sm_ok receiver"
  by (simp add: sm_ok_def sm_entries_ok_def sm_timers_ok_def sm_settled_ok_def receiver_def)

lemma sm_run_ok: "sm_ok (sm_run es)"
proof -
  have "sm_ok s \<Longrightarrow> sm_ok (fold sm_step es s)" for s by (induction es arbitrary: s) (auto simp: sm_step_ok)
  then show ?thesis by (simp add: sm_run_def receiver_ok)
qed

text \<open>
  A click reaches its own approval only. Whatever the order of waits, frames, timers, closes
  and stops, no wait settles twice, and one that resolves does so with a click that carries the
  nonce it waits for.
\<close>

theorem socket_correlated:
  "distinct (map fst (sm_settled (sm_run es)))
   \<and> (\<forall>(n, r) \<in> set (sm_settled (sm_run es)). n < length (sm_awaited (sm_run es))
        \<and> (case r of Clicked i \<Rightarrow> si_nonce i = sm_awaited (sm_run es) ! n | Failed _ \<Rightarrow> True))"
  using sm_run_ok [of es] by (auto simp: sm_ok_def sm_settled_ok_def click_fits_def)

text \<open>With distinct nonces, every open wait is a pending entry.\<close>

definition sm_filed :: "socket_receiver \<Rightarrow> bool" where
  "sm_filed s \<longleftrightarrow> (\<forall>n k. (n, k) \<in> set (sm_timers s) \<longrightarrow> (k, n) \<in> set (sm_pending s))"

lemma settle_filed: "sm_filed (sm_settle n r s) = sm_filed s"
  by (simp add: sm_settle_def sm_filed_def)

lemma close_timers: "sm_timers (sm_close_entry n r s) = AList.delete n (sm_timers s)"
  by (simp add: sm_close_entry_def sm_settle_def)

lemma closes_awaited: "sm_awaited (fold (\<lambda>(_, n). sm_close_entry n r) qs t) = sm_awaited t"
  by (induction qs arbitrary: t) auto

lemma closes_timers:
  "sm_timers (fold (\<lambda>(_, n). sm_close_entry n r) qs t) = filter (\<lambda>(n, k). n \<notin> snd ` set qs) (sm_timers t)"
proof (induction qs arbitrary: t)
  case (Cons q qs)
  then show ?case by (cases q) (auto simp: close_timers AList.delete_eq intro!: filter_cong)
qed (simp add: split_beta)

lemma reject_timers: "sm_timers (rejectAllPending e s) = filter (\<lambda>(n, k). n \<notin> snd ` set (sm_pending s)) (sm_timers s)"
  by (simp add: rejectAllPending_def closes_timers)

lemma filed_close:
  assumes "sm_ok s" "distinct (sm_awaited s)" "sm_filed s" "map_of (sm_timers s) n = Some k"
  shows "sm_filed (s\<lparr>sm_timers := AList.delete n (sm_timers s), sm_pending := AList.delete k (sm_pending s)\<rparr>)"
proof -
  have "j \<noteq> k" if "(m, j) \<in> set (sm_timers s)" "m \<noteq> n" for m j
  proof
    assume "j = k"
    then have "sm_awaited s ! m = sm_awaited s ! n" "m < length (sm_awaited s)" "n < length (sm_awaited s)"
      using that(1) assms(1,4) unfolding sm_ok_def sm_timers_ok_def by (metis map_of_SomeD)+
    then show False using assms(2) that(2) by (simp add: nth_eq_iff_index_eq)
  qed
  then show ?thesis using assms(3) by (auto simp: sm_filed_def set_delete)
qed

lemma step_awaited: "\<exists>ks. sm_awaited (sm_step e s) = sm_awaited s @ ks"
proof (cases e)
  case (SmFrame f)
  then show ?thesis
    by (auto simp: handleFrame_def Let_def split: option.split)
next
  case (SmTimeout n)
  then show ?thesis by (auto simp: sm_timeout_def sm_settle_def split: option.split)
qed (auto simp: sm_start_def awaitInteraction_def Let_def handleClose_def sm_stop_def rejectAllPending_def closes_awaited)

lemma step_filed:
  assumes "sm_ok s" "distinct (sm_awaited (sm_step e s))" "sm_filed s"
  shows "sm_filed (sm_step e s)"
proof -
  obtain ks where "sm_awaited (sm_step e s) = sm_awaited s @ ks" using step_awaited by blast
  then have d: "distinct (sm_awaited s)" using assms(2) by simp
  show ?thesis
  proof (cases e)
    case (SmAwait k)
    have "k \<notin> set (sm_awaited s)" using assms(2) SmAwait by (simp add: awaitInteraction_def Let_def)
    moreover have "j \<in> set (sm_awaited s)" if "(m, j) \<in> set (sm_timers s)" for m j
      using that assms(1) unfolding sm_ok_def sm_timers_ok_def by (metis nth_mem)
    ultimately have ne: "j \<noteq> k" if "(m, j) \<in> set (sm_timers s)" for m j using that by blast
    then have "k \<notin> fst ` set (sm_pending s)" using assms(1) by (force simp: sm_ok_def sm_entries_ok_def)
    then show ?thesis using assms(3) SmAwait by (auto simp: sm_filed_def awaitInteraction_def Let_def update_fresh)
  next
    case (SmTimeout n)
    then show ?thesis
      using assms filed_close [OF assms(1) d assms(3)]
      by (auto simp: sm_timeout_def settle_filed split: option.split)
  next
    case (SmFrame f)
    have flags: "sm_filed (s\<lparr>sm_acks := a\<rparr>) = sm_filed s" "sm_filed (t\<lparr>sm_rejected := r\<rparr>) = sm_filed t"
      "sm_filed (t\<lparr>sm_resolved := x\<rparr>) = sm_filed t" for a r x t by (simp_all add: sm_filed_def)
    let ?acked = "case sf_envelope_id f of None \<Rightarrow> s
      | Some i \<Rightarrow> if sm_connected s then s\<lparr>sm_acks := sm_acks s @ [json_stringify (JObj [(''envelope_id'', i)])]\<rparr> else s"
    obtain s1 where s1: "?acked = s1" "sm_ok s1" "sm_filed s1" "distinct (sm_awaited s1)"
      using assms d by (cases "sf_envelope_id f") (simp_all add: flags)
    show ?thesis
    proof (cases "parseBlockAction (sf_payload f)")
      case None
      then show ?thesis using SmFrame s1 by (simp add: handleFrame_def Let_def)
    next
      case (Some i)
      show ?thesis
      proof (cases "map_of (sm_pending s1) (si_nonce i)")
        case None
        then show ?thesis using SmFrame Some s1 by (simp add: handleFrame_def Let_def flags)
      next
        case (Some n)
        have c: "sm_filed (s1\<lparr>sm_timers := AList.delete n (sm_timers s1), sm_pending := AList.delete (si_nonce i) (sm_pending s1)\<rparr>)"
          by (rule filed_close [OF s1(2,4,3) sm_okD(1) [OF s1(2) Some]])
        show ?thesis
          using Some \<open>parseBlockAction (sf_payload f) = Some i\<close> c
          unfolding SmFrame sm_step.simps handleFrame_def Let_def s1(1)
          by (simp add: sm_close_entry_def settle_filed) (simp add: sm_filed_def)
      qed
    qed
  next
    case SmClose
    then show ?thesis using assms(3) by (auto simp: handleClose_def reject_timers sm_filed_def image_iff) force
  next
    case SmStop
    then show ?thesis using assms(3) by (auto simp: sm_stop_def reject_timers sm_filed_def image_iff) force
  qed (use assms in \<open>simp add: sm_start_def sm_filed_def\<close>)
qed

lemma run_filed: "distinct (sm_awaited (sm_run es)) \<Longrightarrow> sm_filed (sm_run es)"
proof (induction es rule: rev_induct)
  case (snoc e es)
  have r: "sm_run (es @ [e]) = sm_step e (sm_run es)" by (simp add: sm_run_def)
  obtain ks where "sm_awaited (sm_run (es @ [e])) = sm_awaited (sm_run es) @ ks" unfolding r using step_awaited by blast
  then show ?case using snoc step_filed [where s = "sm_run es" and e = e] sm_run_ok [of es] by (simp add: r)
qed (simp add: sm_run_def receiver_def sm_filed_def)


section \<open>Witnesses\<close>

definition approve_click :: json where
  "approve_click = JObj [(''type'', JStr ''block_actions''),
     (''actions'', JArr [JObj [(''action_id'', JStr ACTION_APPROVE), (''value'', JStr ''n1'')]]),
     (''user'', JObj [(''id'', JStr ''U1'')])]"

lemma approve_click_parses:
  "parseBlockAction (Some approve_click) = Some \<lparr>si_nonce = ''n1'', si_approved = True, si_userId = ''U1'', si_isBot = False\<rparr>"
  by code_simp

definition two_waits :: "socket_event list" where
  "two_waits = [SmStart, SmAwait ''n1'', SmAwait ''n2'', SmFrame \<lparr>sf_envelope_id = None, sf_payload = Some approve_click\<rparr>]"

lemma two_waits_run:
  "sm_awaited (sm_run two_waits) = [''n1'', ''n2'']"
  "sm_settled (sm_run two_waits) = [(0, Clicked \<lparr>si_nonce = ''n1'', si_approved = True, si_userId = ''U1'', si_isBot = False\<rparr>)]"
  "sm_stopped (sm_run two_waits) = False"
  by (simp_all add: sm_run_def two_waits_def receiver_def sm_start_def awaitInteraction_def handleFrame_def
      approve_click_parses sm_close_entry_def sm_settle_def Let_def)

lemma socket_correlated_witness:
  "sm_settled (sm_run two_waits) = [(0, Clicked \<lparr>si_nonce = ''n1'', si_approved = True, si_userId = ''U1'', si_isBot = False\<rparr>)]
   \<and> distinct (map fst (sm_settled (sm_run two_waits)))"
  using socket_correlated [of two_waits] two_waits_run(2) by simp


end
