(* ===== verification/Dialer.thy ===== *)
theory Dialer
  imports SocketMode
begin

text \<open>
  The dialer of the Slack receiver (\<open>src/channels/slack/slack-dialer.ts\<close>): the request that asks Slack for
  the address of a socket, and the adapter between the socket's events and the receiver. The HTTP
  client and the socket's constructor are parameters.
\<close>

section \<open>Opening a connection\<close>

definition connectionUrlFromResponse :: "json \<Rightarrow> string result" where
  "connectionUrlFromResponse j =
     (if property j ''ok'' \<noteq> Some (JBool True)
      then Inl (Error (''slack apps.connections.open failed: ''
        @ (case property j ''error'' of None \<Rightarrow> ''unknown'' | Some JNull \<Rightarrow> ''unknown'' | Some e \<Rightarrow> json_text e)))
      else (case property j ''url'' of
              Some (JStr url) \<Rightarrow> if url = [] then Inl (Error ''slack apps.connections.open returned no url'') else Inr url
            | _ \<Rightarrow> Inl (Error ''slack apps.connections.open returned no url'')))"

text \<open>\<open>fetch\<close> maps address, method and headers to the parsed answer; \<open>factory\<close> opens the socket.\<close>

record 'f dialer =
  dl_base :: string
  dl_fetch :: "string \<Rightarrow> string \<Rightarrow> (string \<times> string) list \<Rightarrow> ('f, json) act"
  dl_factory :: "string \<Rightarrow> ('f, unit) act"

definition dialer_open :: "'f dialer \<Rightarrow> string \<Rightarrow> ('f, unit) act" where
  "dialer_open D appToken =
     act_bind (dl_fetch D (dl_base D @ ''/apps.connections.open'') ''POST''
         [(''Authorization'', ''Bearer '' @ appToken), (''Content-Type'', ''application/x-www-form-urlencoded'')])
       (\<lambda>j. act_bind (act_lift (connectionUrlFromResponse j)) (dl_factory D))"

text \<open>The start of the receiver over the dialer: without a connection it stays as it is.\<close>

definition dial_receiver :: "'f dialer \<Rightarrow> string \<Rightarrow> ('f \<times> socket_receiver, unit) act" where
  "dial_receiver D appToken = (\<lambda>(f, s). case dialer_open D appToken f of
       (Inl e, f') \<Rightarrow> (Inl e, (f', s))
     | (Inr _, f') \<Rightarrow> (Inr (), (f', sm_start s)))"

text \<open>
  A receiver starts exactly when the request is answered by an object that says ok and names an
  address, and the socket to this address can be opened.
\<close>

theorem dial_fail_closed:
  "fst (dial_receiver D tok (f, s)) = Inr () \<longleftrightarrow>
     (\<exists>j f1 url f2. dl_fetch D (dl_base D @ ''/apps.connections.open'') ''POST''
         [(''Authorization'', ''Bearer '' @ tok), (''Content-Type'', ''application/x-www-form-urlencoded'')] f = (Inr j, f1)
       \<and> property j ''ok'' = Some (JBool True) \<and> property j ''url'' = Some (JStr url) \<and> url \<noteq> []
       \<and> dl_factory D url f1 = (Inr (), f2) \<and> dial_receiver D tok (f, s) = (Inr (), (f2, sm_start s)))"
proof
  assume a: "fst (dial_receiver D tok (f, s)) = Inr ()"
  then obtain f2 where o: "dialer_open D tok f = (Inr (), f2)"
    by (cases "dialer_open D tok f") (auto simp: dial_receiver_def split: sum.splits)
  then obtain j f1 url where s: "dl_fetch D (dl_base D @ ''/apps.connections.open'') ''POST''
         [(''Authorization'', ''Bearer '' @ tok), (''Content-Type'', ''application/x-www-form-urlencoded'')] f = (Inr j, f1)"
      "connectionUrlFromResponse j = Inr url" "dl_factory D url f1 = (Inr (), f2)"
    by (auto simp: dialer_open_def act_bind_eq_Inr act_lift_def)
  then have "property j ''ok'' = Some (JBool True) \<and> property j ''url'' = Some (JStr url) \<and> url \<noteq> []"
    by (auto simp: connectionUrlFromResponse_def split: if_splits option.splits json.splits)
  then show "\<exists>j f1 url f2. dl_fetch D (dl_base D @ ''/apps.connections.open'') ''POST''
         [(''Authorization'', ''Bearer '' @ tok), (''Content-Type'', ''application/x-www-form-urlencoded'')] f = (Inr j, f1)
       \<and> property j ''ok'' = Some (JBool True) \<and> property j ''url'' = Some (JStr url) \<and> url \<noteq> []
       \<and> dl_factory D url f1 = (Inr (), f2) \<and> dial_receiver D tok (f, s) = (Inr (), (f2, sm_start s))"
    using s o by (auto simp: dial_receiver_def)
qed auto

section \<open>The adapter\<close>

text \<open>A parsed text as a frame; reading a member of \<open>null\<close> throws.\<close>

definition json_frame :: "json \<Rightarrow> socket_frame result" where
  "json_frame j = (if j = JNull then Inl (Error ''null is not an object'')
     else Inr \<lparr>sf_envelope_id = property j ''envelope_id'', sf_payload = property j ''payload''\<rparr>)"

text \<open>A message of the socket, \<open>None\<close> when its data is not a string.\<close>

definition socket_message :: "string option \<Rightarrow> (socket_receiver, unit) act" where
  "socket_message data =
     (case data of
        None \<Rightarrow> act_ret ()
      | Some text \<Rightarrow>
          if text = [] then act_ret ()
          else (case json_parse text of
                  None \<Rightarrow> act_ret ()
                | Some j \<Rightarrow> act_bind (act_lift (json_frame j)) (\<lambda>frame. act_modify (handleFrame frame))))"

text \<open>What happens to a connected receiver: messages of the wire, and the calls, timers and closes.\<close>

datatype wire_event =
    WireMessage "string option"
  | WireClose
  | WireAwait string
  | WireTimeout nat
  | WireStop

fun wire_step :: "wire_event \<Rightarrow> socket_receiver \<Rightarrow> socket_receiver" where
  "wire_step (WireMessage d) s = snd (socket_message d s)"
| "wire_step WireClose s = handleClose s"
| "wire_step (WireAwait nonce) s = awaitInteraction nonce s"
| "wire_step (WireTimeout n) s = sm_timeout n s"
| "wire_step WireStop s = sm_stop s"

definition wire_run :: "wire_event list \<Rightarrow> socket_receiver" where
  "wire_run es = fold wire_step es (sm_start receiver)"

text \<open>Every event of the wire is an event of the receiver, or none.\<close>

lemma wire_step_sm: "wire_step e s = s \<or> (\<exists>e'. wire_step e s = sm_step e' s)"
proof (cases e)
  case (WireMessage d)
  then show ?thesis
    by (auto simp: socket_message_def json_frame_def act_defs split: option.splits if_splits intro: exI [of _ "SmFrame f" for f])
qed (auto intro: exI [of _ SmClose] exI [of _ "SmAwait n" for n] exI [of _ "SmTimeout n" for n] exI [of _ SmStop])

lemma wire_run_sm: "\<exists>es'. wire_run es = sm_run es'"
proof (induction es rule: rev_induct)
  case Nil
  show ?case by (rule exI [of _ "[SmStart]"]) (simp add: wire_run_def sm_run_def)
next
  case (snoc e es)
  then obtain es' where "wire_run es = sm_run es'" by blast
  then show ?case using wire_step_sm [of e "wire_run es"]
    by (auto simp: wire_run_def sm_run_def intro: exI [of _ "es' @ [x]" for x] exI [of _ es'])
qed

text \<open>A settled click was read from a text of the wire.\<close>

definition click_text :: "string \<Rightarrow> slack_interaction \<Rightarrow> bool" where
  "click_text text i \<longleftrightarrow> (\<exists>j. json_parse text = Some j \<and> parseBlockAction (property j ''payload'') = Some i)"

definition from_wire :: "string set \<Rightarrow> socket_receiver \<Rightarrow> bool" where
  "from_wire ts s \<longleftrightarrow> (\<forall>n i. (n, Clicked i) \<in> set (sm_settled s) \<longrightarrow> (\<exists>t \<in> ts. click_text t i))"

lemma close_settled: "set (sm_settled (sm_close_entry n r s)) \<subseteq> insert (n, r) (set (sm_settled s))"
  by (auto simp: sm_close_entry_def sm_settle_def)

lemma reject_from_wire: "from_wire ts s \<Longrightarrow> from_wire ts (rejectAllPending e s)"
proof -
  have "from_wire ts s \<Longrightarrow> from_wire ts (fold (\<lambda>(_, n). sm_close_entry n (Failed e)) qs s)" for qs s
  proof (induction qs arbitrary: s)
    case (Cons q qs)
    have "from_wire ts (sm_close_entry (snd q) (Failed e) s)"
      using Cons.prems by (auto simp: from_wire_def dest!: subsetD [OF close_settled])
    then show ?case using Cons.IH by (cases q) simp
  qed simp
  then show "from_wire ts s \<Longrightarrow> from_wire ts (rejectAllPending e s)" by (simp add: rejectAllPending_def from_wire_def)
qed

lemma frame_from_wire:
  assumes "from_wire ts s" "\<And>i. parseBlockAction (sf_payload f) = Some i \<Longrightarrow> \<exists>t \<in> ts. click_text t i"
  shows "from_wire ts (handleFrame f s)"
  using assms
  by (auto simp: handleFrame_def from_wire_def Let_def dest!: subsetD [OF close_settled] split: option.splits)

definition wire_texts :: "wire_event list \<Rightarrow> string set" where
  "wire_texts es = {t. WireMessage (Some t) \<in> set es}"

lemma calls_from_wire:
  "from_wire ts s \<Longrightarrow> from_wire ts (handleClose s)" "from_wire ts s \<Longrightarrow> from_wire ts (awaitInteraction k s)"
  "from_wire ts s \<Longrightarrow> from_wire ts (sm_timeout n s)" "from_wire ts s \<Longrightarrow> from_wire ts (sm_stop s)"
proof -
  assume w: "from_wire ts s"
  then show "from_wire ts (handleClose s)" by (simp add: handleClose_def reject_from_wire)
  show "from_wire ts (awaitInteraction k s)" using w by (simp add: from_wire_def awaitInteraction_def Let_def)
  show "from_wire ts (sm_timeout n s)"
    using w by (auto simp: from_wire_def sm_timeout_def sm_settle_def split: option.split)
  have "from_wire ts (rejectAllPending (Error ''receiver stopped'') (s\<lparr>sm_stopped := True\<rparr>))"
    using w by (intro reject_from_wire) (simp add: from_wire_def)
  then show "from_wire ts (sm_stop s)" by (simp add: from_wire_def sm_stop_def)
qed

lemma wire_step_from:
  assumes "from_wire ts s" "\<And>t. e = WireMessage (Some t) \<Longrightarrow> t \<in> ts"
  shows "from_wire ts (wire_step e s)"
proof (cases e)
  case (WireMessage d)
  show ?thesis
  proof (cases d)
    case (Some t)
    have "from_wire ts (handleFrame f s)" if "json_parse t = Some j" "json_frame j = Inr f" for j f
      using that assms(2) WireMessage Some
      by (intro frame_from_wire [OF assms(1)]) (fastforce simp: json_frame_def click_text_def split: if_splits)
    then show ?thesis using WireMessage Some assms(1)
      by (auto simp: socket_message_def act_defs split: option.splits sum.splits)
  qed (use assms(1) WireMessage in \<open>simp add: socket_message_def act_defs\<close>)
qed (use assms(1) in \<open>simp_all add: calls_from_wire\<close>)

text \<open>
  C20: where a click comes from. A receiver that is fed by the adapter resolves a wait only with a click
  that stood, for the nonce of that wait, in the payload of a JSON text that arrived on the socket;
  data that is not text, empty or no JSON changes nothing, and the text \<open>null\<close> makes the listener throw.
\<close>

theorem clicks_from_wire:
  "(\<forall>(n, r) \<in> set (sm_settled (wire_run es)). case r of Failed _ \<Rightarrow> True
      | Clicked i \<Rightarrow> si_nonce i = sm_awaited (wire_run es) ! n \<and> (\<exists>t \<in> wire_texts es. click_text t i))
   \<and> (\<forall>d s. d = None \<or> d = Some [] \<or> (\<exists>t. d = Some t \<and> json_parse t = None) \<longrightarrow> socket_message d s = (Inr (), s))
   \<and> (\<forall>s. socket_message (Some ''null'') s = (Inl (Error ''null is not an object''), s))"
proof (intro conjI)
  have "from_wire (wire_texts es) (wire_run es)"
  proof (induction es rule: rev_induct)
    case (snoc e es)
    have "from_wire (wire_texts (es @ [e])) (wire_run es)" using snoc.IH by (force simp: from_wire_def wire_texts_def)
    then show ?case using wire_step_from [of "wire_texts (es @ [e])" "wire_run es" e] by (simp add: wire_run_def wire_texts_def)
  qed (simp add: wire_run_def from_wire_def receiver_def sm_start_def)
  then show "\<forall>(n, r) \<in> set (sm_settled (wire_run es)). case r of Failed _ \<Rightarrow> True
      | Clicked i \<Rightarrow> si_nonce i = sm_awaited (wire_run es) ! n \<and> (\<exists>t \<in> wire_texts es. click_text t i)"
    using wire_run_sm [of es] sm_run_ok
    by (fastforce simp: from_wire_def sm_ok_def sm_settled_ok_def click_fits_def split: click_outcome.split)
  have "json_parse ''null'' = Some JNull" by code_simp
  then show "\<forall>s. socket_message (Some ''null'') s = (Inl (Error ''null is not an object''), s)"
    by (simp add: socket_message_def json_frame_def act_defs)
qed (auto simp: socket_message_def act_defs)

section \<open>Witness\<close>

definition one_click :: "wire_event list" where
  "one_click = [WireAwait ''n1'', WireMessage (Some (json_stringify (JObj [(''payload'', approve_click)])))]"

lemma clicks_from_wire_witness:
  "(0, Clicked \<lparr>si_nonce = ''n1'', si_approved = True, si_userId = ''U1'', si_isBot = False\<rparr>) \<in> set (sm_settled (wire_run one_click))
   \<and> (\<exists>t \<in> wire_texts one_click. click_text t \<lparr>si_nonce = ''n1'', si_approved = True, si_userId = ''U1'', si_isBot = False\<rparr>)"
proof -
  have "json_parse (json_stringify (JObj [(''payload'', approve_click)])) = Some (JObj [(''payload'', approve_click)])"
    by (intro json_parse_stringify) code_simp
  moreover have "json_stringify (JObj [(''payload'', approve_click)]) \<noteq> []" by code_simp
  ultimately have "(0, Clicked \<lparr>si_nonce = ''n1'', si_approved = True, si_userId = ''U1'', si_isBot = False\<rparr>) \<in> set (sm_settled (wire_run one_click))"
    by (simp add: wire_run_def one_click_def socket_message_def json_frame_def act_defs receiver_def sm_start_def awaitInteraction_def
        handleFrame_def approve_click_parses sm_close_entry_def sm_settle_def Let_def)
  then show ?thesis using clicks_from_wire [of one_click] by fastforce
qed

end
