(* ===== verification/Daemon.thy ===== *)
theory Daemon
  imports Policy Journal Credentials Verifier Sessions Channels Runtime
begin

text \<open>
  \<open>src/daemon/daemon.ts\<close>: the governance loop. The daemon's collaborators are the fields of a
  record, as in \<open>DaemonDeps\<close>; the world it acts on is the state of each of them, with the
  clock readings so far and a log of the calls made on them (\<open>w_log\<close>), which nothing in the
  code reads: it is there to state orderings. An asynchronous call is the action that settles
  its promise. Calls of a live intendant are handled one at a time, in the order of emission,
  as the harness blocks on each of them.
\<close>

section \<open>The world and the daemon\<close>

datatype effect =
    Journaled append_input
  | Posted approval_request
  | Decided "js_error + approval_decision"
  | Spawned sandbox_spec "sandbox_handle option"
  | Executed sandbox_handle "string list"
  | TornDown sandbox_handle
  | Started string
  | Delivered gateway_message
  | Stopped

record ('s, 'c, 'b, 'i) world =
  w_journal :: journal_files
  w_store :: 's
  w_channel :: 'c
  w_sandbox :: 'b
  w_intendant :: 'i
  w_stamps :: nat
  w_ticks :: nat
  w_log :: "effect list"

datatype identity_mode = mode_off | mode_warn | mode_enforce

fun mode_name :: "identity_mode \<Rightarrow> string" where
  "mode_name mode_off = ''off''"
| "mode_name mode_warn = ''warn''"
| "mode_name mode_enforce = ''enforce''"

record ('sk, 'pk, 's, 'c, 'b) daemon =
  dd_policy :: "policy_rule list"
  dd_lib :: "('sk, 'pk) crypto_lib"
  dd_key :: 'sk
  dd_screen :: "journal_event \<Rightarrow> unit result"
  dd_stamp :: "nat \<Rightarrow> string"
  dd_sandbox :: "'b sandbox_provider"
  dd_channel :: "'c channel_adapter"
  dd_vault :: "vault option"
  dd_sessionStore :: "'s session_store option"
  dd_instanceId :: string
  dd_nowMs :: "nat \<Rightarrow> nat"
  dd_leaseTtlMs :: nat
  dd_verifier :: "verifier option"
  dd_identityMode :: identity_mode
  dd_tenantContext :: tenant_context

record run_options =
  ro_sessionId :: string
  ro_image :: "string option"
  ro_manifest :: "intendant_manifest option"
  ro_signatureB64 :: "string option"
  ro_networkEnabled :: "bool option"

definition EMPTY_VAULT :: vault where
  "EMPTY_VAULT = \<lparr>vault_get = (\<lambda>_. None), vault_values = []\<rparr>"

record mediation_outcome =
  mo_request :: tool_call_request
  mo_verdict :: policy_verdict
  mo_approved :: "bool option"
  mo_executed :: bool

record session_result =
  sr_sessionId :: string
  sr_outcomes :: "mediation_outcome list"
  sr_refused :: bool

section \<open>Calls on the collaborators\<close>

definition noted :: "effect \<Rightarrow> ('s, 'c, 'b, 'i) world \<Rightarrow> ('s, 'c, 'b, 'i) world" where
  "noted e w = w\<lparr>w_log := w_log w @ [e]\<rparr>"

text \<open>\<open>journal.append\<close>: noted when the event is accepted.\<close>

definition record_event ::
    "('sk, 'pk, 's, 'c, 'b) daemon \<Rightarrow> append_input \<Rightarrow> (('s, 'c, 'b, 'i) world, unit) act" where
  "record_event D i w =
     (let w' = w\<lparr>w_stamps := w_stamps w + 1\<rparr> in
      case journal_append (dd_lib D) (dd_key D) (dd_screen D) (dd_stamp D (w_stamps w)) i (w_journal w) of
        (Inl e, J) \<Rightarrow> (Inl e, w'\<lparr>w_journal := J\<rparr>)
      | (Inr _, J) \<Rightarrow> (Inr (), noted (Journaled i) (w'\<lparr>w_journal := J\<rparr>)))"

definition post_request ::
    "('sk, 'pk, 's, 'c, 'b) daemon \<Rightarrow> approval_request \<Rightarrow> (('s, 'c, 'b, 'i) world, string) act" where
  "post_request D r w =
     (case ca_post (dd_channel D) r (w_channel w) of
        (res, c) \<Rightarrow> (res, noted (Posted r) (w\<lparr>w_channel := c\<rparr>)))"

definition await_decision ::
    "('sk, 'pk, 's, 'c, 'b) daemon \<Rightarrow> string \<Rightarrow> (('s, 'c, 'b, 'i) world, approval_decision) act" where
  "await_decision D h w =
     (case ca_await (dd_channel D) h (w_channel w) of
        (res, c) \<Rightarrow> (res, noted (Decided res) (w\<lparr>w_channel := c\<rparr>)))"

definition spawn_sandbox ::
    "('sk, 'pk, 's, 'c, 'b) daemon \<Rightarrow> sandbox_spec \<Rightarrow> (('s, 'c, 'b, 'i) world, sandbox_handle) act" where
  "spawn_sandbox D spec w =
     (case sb_spawn (dd_sandbox D) spec (w_sandbox w) of
        (res, b) \<Rightarrow> (res, noted (Spawned spec (case res of Inl _ \<Rightarrow> None | Inr h \<Rightarrow> Some h)) (w\<lparr>w_sandbox := b\<rparr>)))"

definition exec_command ::
    "('sk, 'pk, 's, 'c, 'b) daemon \<Rightarrow> sandbox_handle \<Rightarrow> string list \<Rightarrow> (('s, 'c, 'b, 'i) world, exec_result) act" where
  "exec_command D h cmd w =
     (case sb_exec (dd_sandbox D) h cmd (w_sandbox w) of
        (res, b) \<Rightarrow> (res, noted (Executed h cmd) (w\<lparr>w_sandbox := b\<rparr>)))"

definition teardown_sandbox ::
    "('sk, 'pk, 's, 'c, 'b) daemon \<Rightarrow> sandbox_handle \<Rightarrow> (('s, 'c, 'b, 'i) world, unit) act" where
  "teardown_sandbox D h w =
     (case sb_teardown (dd_sandbox D) h (w_sandbox w) of
        (res, b) \<Rightarrow> (res, noted (TornDown h) (w\<lparr>w_sandbox := b\<rparr>)))"

definition on_intendant :: "effect list \<Rightarrow> ('i, 'a) act \<Rightarrow> (('s, 'c, 'b, 'i) world, 'a) act" where
  "on_intendant es m w =
     (case m (w_intendant w) of
        (res, i) \<Rightarrow> (res, w\<lparr>w_intendant := i, w_log := w_log w @ es\<rparr>))"

definition deliver_message ::
    "('i, 'x) intendant_adapter_scheme \<Rightarrow> gateway_message \<Rightarrow> (('s, 'c, 'b, 'i) world, unit) act" where
  "deliver_message I m = on_intendant [Delivered m] (ia_deliver I m)"

definition start_intendant ::
    "('i, 'x) intendant_adapter_scheme \<Rightarrow> string \<Rightarrow> (('s, 'c, 'b, 'i) world, unit) act" where
  "start_intendant I sid = on_intendant [Started sid] (ia_start I sid)"

definition stop_intendant :: "('i, 'x) intendant_adapter_scheme \<Rightarrow> (('s, 'c, 'b, 'i) world, unit) act" where
  "stop_intendant I = on_intendant [Stopped] (ia_stop I)"

text \<open>A reading of \<open>nowMs\<close> handed to an operation of the session store.\<close>

definition with_store ::
    "('sk, 'pk, 's, 'c, 'b) daemon \<Rightarrow> (nat \<Rightarrow> ('s, 'a) act) \<Rightarrow> (('s, 'c, 'b, 'i) world, 'a) act" where
  "with_store D m w =
     (case m (dd_nowMs D (w_ticks w)) (w_store w) of
        (res, s) \<Rightarrow> (res, w\<lparr>w_store := s, w_ticks := w_ticks w + 1\<rparr>))"

definition event_input :: "string \<Rightarrow> actor \<Rightarrow> json obj \<Rightarrow> append_input" where
  "event_input kind act payload = \<lparr>ai_kind = kind, ai_actor = act, ai_payload = payload,
     ai_intendant_identity_uri = None, ai_tenant_id = None, ai_correlation_id = None,
     ai_gsb_receipt_tip_hash = None\<rparr>"

section \<open>The stages of a call\<close>

text \<open>The policy's verdict and its record.\<close>

definition call_event :: "tool_call_request \<Rightarrow> policy_verdict \<Rightarrow> append_input" where
  "call_event req v = event_input (''tool_call.'' @ decision_name (pv_decision v)) (tcr_actor req)
     [(''messageId'', JStr (tcr_id req)), (''tool'', JStr (tcr_tool req)),
      (''ruleId'', json_opt JStr (pv_ruleId v)), (''reason'', JStr (pv_reason v))]"

definition judge_call ::
    "('sk, 'pk, 's, 'c, 'b) daemon \<Rightarrow> tool_call_request \<Rightarrow> (('s, 'c, 'b, 'i) world, policy_verdict) act" where
  "judge_call D req =
     act_bind (act_lift (evaluate (dd_policy D) \<lparr>tc_tool = tcr_tool req, tc_actor = tcr_actor req\<rparr>)) (\<lambda>v.
       act_seq (record_event D (call_event req v)) (act_ret v))"

definition call_approval :: "tool_call_request \<Rightarrow> policy_verdict \<Rightarrow> approval_request" where
  "call_approval req v = \<lparr>ar_messageId = tcr_id req, ar_sessionId = tcr_sessionId req,
     ar_tool = tcr_tool req, ar_verdict = v\<rparr>"

definition no_decision :: "js_error \<Rightarrow> string" where
  "no_decision e = ''no decision: '' @ err_message e"

text \<open>The event for what the channel answered, an error being a denial with its reason.\<close>

definition approval_event :: "tool_call_request \<Rightarrow> js_error + approval_decision \<Rightarrow> append_input" where
  "approval_event req d = (case d of
     Inr a \<Rightarrow> event_input (if ad_approved a then ''approval.granted'' else ''approval.denied'') session_owner
       [(''messageId'', JStr (tcr_id req)), (''decidedBy'', JStr (ad_decidedBy a))]
   | Inl e \<Rightarrow> event_input ''approval.denied'' session_owner
       [(''messageId'', JStr (tcr_id req)), (''decidedBy'', JNull), (''reason'', JStr (no_decision e))])"

definition granted :: "js_error + approval_decision \<Rightarrow> bool" where
  "granted d = (case d of Inl _ \<Rightarrow> False | Inr a \<Rightarrow> ad_approved a)"

text \<open>The human's word where the policy asks for it: whether approved, and the effective decision.\<close>

definition settle_call ::
    "('sk, 'pk, 's, 'c, 'b) daemon \<Rightarrow> tool_call_request \<Rightarrow> policy_verdict \<Rightarrow>
     (('s, 'c, 'b, 'i) world, bool option \<times> policy_decision) act" where
  "settle_call D req v =
     (if pv_decision v = require then
        act_bind (post_request D (call_approval req v)) (\<lambda>h.
          act_bind (act_catch (act_bind (await_decision D h) (\<lambda>a. act_ret (Inr a))) (\<lambda>e. act_ret (Inl e))) (\<lambda>d.
            act_seq (record_event D (approval_event req d))
              (act_ret (Some (granted d), if granted d then allow else deny))))
      else act_ret (None, if pv_decision v = allow then allow else deny))"

definition toCommand :: "tool_call_request \<Rightarrow> string list" where
  "toCommand req = (case map_of (tcr_args req) ''command'' of
     Some (JStr cmd) \<Rightarrow> [''sh'', ''-c'', cmd]
   | _ \<Rightarrow> [tcr_tool req, json_stringify (JObj (tcr_args req))])"

fun as_string :: "json \<Rightarrow> string" where
  "as_string (JStr s) = s"
| "as_string j = json_text j"

fun as_strings :: "json \<Rightarrow> string list" where
  "as_strings (JArr xs) = map as_string xs"
| "as_strings j = []"

definition executed_event :: "tool_call_request \<Rightarrow> string list \<Rightarrow> int \<Rightarrow> append_input" where
  "executed_event req secretsUsed exitCode = event_input ''tool_call.executed'' (tcr_actor req)
     ([(''messageId'', JStr (tcr_id req)), (''exitCode'', JNum exitCode)]
        @ (if secretsUsed \<noteq> [] then [(''secretsUsed'', JArr (map JStr secretsUsed))] else []))"

definition daemon_vault :: "('sk, 'pk, 's, 'c, 'b) daemon \<Rightarrow> vault" where
  "daemon_vault D = (case dd_vault D of None \<Rightarrow> EMPTY_VAULT | Some v \<Rightarrow> v)"

text \<open>The credential seam and the execution of an allowed call.\<close>

definition execute_call ::
    "('sk, 'pk, 's, 'c, 'b) daemon \<Rightarrow> ('i, 'x) intendant_adapter_scheme \<Rightarrow> tool_call_request \<Rightarrow> sandbox_handle \<Rightarrow>
     (('s, 'c, 'b, 'i) world, unit) act" where
  "execute_call D I req handle =
     (let cmd = JArr (map JStr (toCommand req)); secretsUsed = findPlaceholders cmd in
      act_bind (act_lift (resolvePlaceholders (daemon_vault D) cmd)) (\<lambda>resolved.
        let secretValues = resolvedSecretValues cmd (daemon_vault D) in
        act_bind (exec_command D handle (as_strings resolved)) (\<lambda>result.
          act_seq (record_event D (executed_event req secretsUsed (er_exitCode result)))
            (deliver_message I (ToolCallResult (tcr_id req) (tcr_sessionId req) (er_exitCode result = 0)
               (Some (redactSecrets (JStr (er_stdout result)) secretValues)))))))"

definition mediate ::
    "('sk, 'pk, 's, 'c, 'b) daemon \<Rightarrow> ('i, 'x) intendant_adapter_scheme \<Rightarrow> tool_call_request \<Rightarrow> sandbox_handle \<Rightarrow>
     (('s, 'c, 'b, 'i) world, mediation_outcome) act" where
  "mediate D I req handle =
     act_seq (act_lift (assertTenantContext (dd_tenantContext D)))
       (act_bind (judge_call D req) (\<lambda>v.
         act_bind (settle_call D req v) (\<lambda>(approved, effective).
           if effective = allow then
             act_seq (execute_call D I req handle)
               (act_ret \<lparr>mo_request = req, mo_verdict = v, mo_approved = approved, mo_executed = True\<rparr>)
           else
             act_seq (deliver_message I (VerdictMessage (tcr_id req) (tcr_sessionId req) v))
               (act_ret \<lparr>mo_request = req, mo_verdict = v, mo_approved = approved, mo_executed = False\<rparr>))))"

section \<open>Gating a live call\<close>

definition gate_event :: "tool_call_request \<Rightarrow> policy_decision \<Rightarrow> append_input" where
  "gate_event req effective = event_input (''gate.'' @ decision_name effective) (tcr_actor req)
     [(''messageId'', JStr (tcr_id req)), (''tool'', JStr (tcr_tool req))]"

definition effective_verdict :: "policy_verdict \<Rightarrow> policy_decision \<Rightarrow> policy_verdict" where
  "effective_verdict v effective = \<lparr>pv_decision = effective,
     pv_reason = (if effective = pv_decision v then pv_reason v
       else decision_name (pv_decision v) @ arrow @ decision_name effective @ '' (operator decision)''),
     pv_ruleId = pv_ruleId v, pv_tier = pv_tier v\<rparr>"

definition gate ::
    "('sk, 'pk, 's, 'c, 'b) daemon \<Rightarrow> ('i, 'x) intendant_adapter_scheme \<Rightarrow> tool_call_request \<Rightarrow>
     (('s, 'c, 'b, 'i) world, mediation_outcome) act" where
  "gate D I req =
     act_bind (judge_call D req) (\<lambda>v.
       act_bind (settle_call D req v) (\<lambda>(approved, effective).
         act_seq (record_event D (gate_event req effective))
           (act_bind (act_lift (PolicyVerdict_parse (effective_verdict v effective))) (\<lambda>ev.
             act_seq (deliver_message I (VerdictMessage (tcr_id req) (tcr_sessionId req) ev))
               (act_ret \<lparr>mo_request = req, mo_verdict = v, mo_approved = approved, mo_executed = False\<rparr>)))))"

section \<open>Runs that may not end\<close>

text \<open>
  A live harness may emit calls for ever. A run maps a state to \<open>None\<close> when it never settles,
  and to its result and final state otherwise.
\<close>

type_synonym ('w, 'a) run = "'w \<Rightarrow> ('a result \<times> 'w) option"

definition run_act :: "('w, 'a) act \<Rightarrow> ('w, 'a) run" where
  "run_act m w = Some (m w)"

definition run_bind :: "('w, 'a) run \<Rightarrow> ('a \<Rightarrow> ('w, 'b) run) \<Rightarrow> ('w, 'b) run" where
  "run_bind m f w = (case m w of
     None \<Rightarrow> None
   | Some (Inl e, w') \<Rightarrow> Some (Inl e, w')
   | Some (Inr x, w') \<Rightarrow> f x w')"

definition run_finally :: "('w, 'a) run \<Rightarrow> ('w, unit) act \<Rightarrow> ('w, 'a) run" where
  "run_finally m k w = (case m w of None \<Rightarrow> None | Some (r, w') \<Rightarrow> Some (act_finally (\<lambda>_. (r, w')) k w))"

named_theorems run_defs "definitions of the run combinators"

declare run_act_def [run_defs] run_bind_def [run_defs] run_finally_def [run_defs]

section \<open>Sessions\<close>

text \<open>The identity gate: whether to proceed, and the URI to record.\<close>

definition verify_failed ::
    "('sk, 'pk, 's, 'c, 'b) daemon \<Rightarrow> string \<Rightarrow> string \<Rightarrow> (('s, 'c, 'b, 'i) world, bool \<times> string option) act" where
  "verify_failed D sid reason =
     act_seq (record_event D (event_input ''intendant.verify.failed'' session_owner
         [(''sessionId'', JStr sid), (''reason'', JStr reason), (''mode'', JStr (mode_name (dd_identityMode D)))]))
       (act_ret (dd_identityMode D \<noteq> mode_enforce, None))"

definition gateIdentity ::
    "('sk, 'pk, 's, 'c, 'b) daemon \<Rightarrow> intendant_identity \<Rightarrow> string \<Rightarrow> run_options \<Rightarrow>
     (('s, 'c, 'b, 'i) world, bool \<times> string option) act" where
  "gateIdentity D identity sid opts =
     (if dd_identityMode D = mode_off then act_ret (True, ii_uri identity)
      else case (dd_verifier D, ro_manifest opts, ro_signatureB64 opts) of
        (Some verify, Some manifest, Some signature) \<Rightarrow>
          (case verify manifest signature of
             Verified i \<Rightarrow> act_ret (True, ii_uri i)
           | Unverified reason \<Rightarrow> verify_failed D sid (failure_name reason))
      | _ \<Rightarrow> verify_failed D sid ''no-verification-material'')"

definition reaped_event :: "('sk, 'pk, 's, 'c, 'b) daemon \<Rightarrow> session_lease \<Rightarrow> append_input" where
  "reaped_event D lease = event_input ''session.reaped'' session_owner
     [(''sessionId'', JStr (sl_sessionId lease)), (''fencingToken'', JNum (int (sl_fencingToken lease))),
      (''reapedBy'', JStr (dd_instanceId D))]"

fun record_all ::
    "('sk, 'pk, 's, 'c, 'b) daemon \<Rightarrow> append_input list \<Rightarrow> (('s, 'c, 'b, 'i) world, unit) act" where
  "record_all D [] = act_ret ()"
| "record_all D (i # is) = act_seq (record_event D i) (record_all D is)"

definition recoverSessions ::
    "('sk, 'pk, 's, 'c, 'b) daemon \<Rightarrow> (('s, 'c, 'b, 'i) world, session_lease list) act" where
  "recoverSessions D =
     (case dd_sessionStore D of
        None \<Rightarrow> act_ret []
      | Some store \<Rightarrow>
          act_bind (with_store D (reapExpired store)) (\<lambda>reaped.
            act_seq (record_all D (map (reaped_event D) reaped)) (act_ret reaped)))"

definition acquire_lease ::
    "('sk, 'pk, 's, 'c, 'b) daemon \<Rightarrow> string \<Rightarrow> (('s, 'c, 'b, 'i) world, session_lease option) act" where
  "acquire_lease D sid =
     (case dd_sessionStore D of
        None \<Rightarrow> act_ret None
      | Some store \<Rightarrow>
          act_bind (with_store D (\<lambda>now. acquire store sid (dd_instanceId D) now (dd_leaseTtlMs D)))
            (\<lambda>l. act_ret (Some l)))"

definition heartbeat_lease ::
    "('sk, 'pk, 's, 'c, 'b) daemon \<Rightarrow> session_lease option \<Rightarrow> (('s, 'c, 'b, 'i) world, session_lease option) act" where
  "heartbeat_lease D lease =
     (case (lease, dd_sessionStore D) of
        (Some l, Some store) \<Rightarrow>
          act_bind (with_store D (\<lambda>now. heartbeat store l now (dd_leaseTtlMs D))) (\<lambda>l'. act_ret (Some l'))
      | _ \<Rightarrow> act_ret lease)"

definition release_lease ::
    "('sk, 'pk, 's, 'c, 'b) daemon \<Rightarrow> session_lease option \<Rightarrow> (('s, 'c, 'b, 'i) world, unit) act" where
  "release_lease D lease =
     (case (lease, dd_sessionStore D) of
        (Some l, Some store) \<Rightarrow> with_store D (release store l)
      | _ \<Rightarrow> act_ret ())"

definition identity_json :: "intendant_identity \<Rightarrow> json" where
  "identity_json i = JObj [(''name'', JStr (ii_name i)), (''version'', JStr (ii_version i)),
     (''uri'', json_opt JStr (ii_uri i))]"

definition started_event :: "string \<Rightarrow> intendant_identity \<Rightarrow> string option \<Rightarrow> append_input" where
  "started_event sid identity uri =
     (event_input ''session.started'' session_owner
       [(''sessionId'', JStr sid), (''intendant'', identity_json identity)])
     \<lparr>ai_intendant_identity_uri := uri\<rparr>"

definition ended_event :: "string \<Rightarrow> nat \<Rightarrow> append_input" where
  "ended_event sid calls = event_input ''session.ended'' session_owner
     [(''sessionId'', JStr sid), (''calls'', JNum (int calls))]"

text \<open>What the three drivers do before the first call: lease, record, start, sandbox.\<close>

definition open_session ::
    "('sk, 'pk, 's, 'c, 'b) daemon \<Rightarrow> ('i, 'x) intendant_adapter_scheme \<Rightarrow> run_options \<Rightarrow> string option \<Rightarrow> bool \<Rightarrow>
     (('s, 'c, 'b, 'i) world, session_lease option \<times> sandbox_handle) act" where
  "open_session D I opts uri net =
     (let sid = ro_sessionId opts in
      act_bind (acquire_lease D sid) (\<lambda>lease.
        act_seq (record_event D (started_event sid (ia_identity I) uri))
          (act_seq (start_intendant I sid)
            (act_bind (spawn_sandbox D \<lparr>sp_image = (case ro_image opts of None \<Rightarrow> ''agp-sandbox:v0'' | Some i \<Rightarrow> i),
                sp_sessionId = sid, sp_networkEnabled = net\<rparr>)
              (\<lambda>h. act_ret (lease, h))))))"

definition end_session ::
    "('sk, 'pk, 's, 'c, 'b) daemon \<Rightarrow> string \<Rightarrow> session_lease option \<Rightarrow> mediation_outcome list \<Rightarrow>
     (('s, 'c, 'b, 'i) world, session_result) act" where
  "end_session D sid lease outs =
     act_seq (record_event D (ended_event sid (length outs)))
       (act_seq (release_lease D lease)
         (act_ret \<lparr>sr_sessionId = sid, sr_outcomes = outs, sr_refused = False\<rparr>))"

definition shut_down ::
    "('sk, 'pk, 's, 'c, 'b) daemon \<Rightarrow> ('i, 'x) intendant_adapter_scheme \<Rightarrow> sandbox_handle \<Rightarrow>
     (('s, 'c, 'b, 'i) world, unit) act" where
  "shut_down D I h = act_seq (teardown_sandbox D h) (stop_intendant I)"

definition refused_session :: "string \<Rightarrow> session_result" where
  "refused_session sid = \<lparr>sr_sessionId = sid, sr_outcomes = [], sr_refused = True\<rparr>"

text \<open>
  A call's handler: the outcome is pushed, then the lease refreshed; an error of either settles
  the call's promise as rejected and leaves the session going. The state is the current lease,
  the outcomes and the rejections, in order.
\<close>

type_synonym live = "session_lease option \<times> mediation_outcome list \<times> js_error list"

definition handle_call ::
    "('sk, 'pk, 's, 'c, 'b) daemon \<Rightarrow> (tool_call_request \<Rightarrow> (('s, 'c, 'b, 'i) world, mediation_outcome) act) \<Rightarrow>
     tool_call_request \<Rightarrow> live \<Rightarrow> ('s, 'c, 'b, 'i) world \<Rightarrow> live \<times> ('s, 'c, 'b, 'i) world" where
  "handle_call D body req st w =
     (case st of (lease, outs, errs) \<Rightarrow>
        (case body req w of
           (Inl e, w') \<Rightarrow> ((lease, outs, errs @ [e]), w')
         | (Inr out, w') \<Rightarrow>
             (case heartbeat_lease D lease w' of
                (Inl e, w'') \<Rightarrow> ((lease, outs @ [out], errs @ [e]), w'')
              | (Inr lease', w'') \<Rightarrow> ((lease', outs @ [out], errs), w''))))"

partial_function (option) drive ::
    "('w, tool_call_request option) act \<Rightarrow> (tool_call_request \<Rightarrow> 'st \<Rightarrow> 'w \<Rightarrow> 'st \<times> 'w) \<Rightarrow> 'st \<Rightarrow> ('w, 'st) run" where
  "drive nxt handler st w =
     (case nxt w of
        (Inl e, w') \<Rightarrow> Some (Inl e, w')
      | (Inr None, w') \<Rightarrow> Some (Inr st, w')
      | (Inr (Some req), w') \<Rightarrow> (case handler req st w' of (st', w'') \<Rightarrow> drive nxt handler st' w''))"

text \<open>\<open>await intendant.run(sessionId); await Promise.all(inflight)\<close>\<close>

definition run_calls ::
    "('sk, 'pk, 's, 'c, 'b) daemon \<Rightarrow> ('i, 'x) runnable_intendant_scheme \<Rightarrow> string \<Rightarrow>
     (tool_call_request \<Rightarrow> (('s, 'c, 'b, 'i) world, mediation_outcome) act) \<Rightarrow> session_lease option \<Rightarrow>
     (('s, 'c, 'b, 'i) world, session_lease option \<times> mediation_outcome list) run" where
  "run_calls D I sid body lease =
     run_bind (drive (on_intendant [] (ri_next I sid)) (handle_call D body) (lease, [], [])) (\<lambda>(lease', outs, errs).
       run_act (if errs = [] then act_ret (lease', outs) else act_throw (hd errs)))"

definition runLive ::
    "('sk, 'pk, 's, 'c, 'b) daemon \<Rightarrow> ('i, 'x) runnable_intendant_scheme \<Rightarrow> run_options \<Rightarrow>
     (('s, 'c, 'b, 'i) world, session_result) run" where
  "runLive D I opts =
     run_bind (run_act (act_lift (assertTenantContext (dd_tenantContext D)))) (\<lambda>_.
       run_bind (run_act (gateIdentity D (ia_identity I) (ro_sessionId opts) opts)) (\<lambda>(proceed, uri).
         if \<not> proceed then run_act (act_ret (refused_session (ro_sessionId opts)))
         else run_bind (run_act (open_session D I opts uri False)) (\<lambda>(lease, h).
           run_bind (run_calls D I (ro_sessionId opts) (gate D I) lease) (\<lambda>(lease', outs).
             run_act (act_seq (shut_down D I h) (end_session D (ro_sessionId opts) lease' outs))))))"

definition runMediated ::
    "('sk, 'pk, 's, 'c, 'b) daemon \<Rightarrow> ('i, 'x) runnable_intendant_scheme \<Rightarrow> run_options \<Rightarrow>
     (('s, 'c, 'b, 'i) world, session_result) run" where
  "runMediated D I opts =
     run_bind (run_act (act_lift (assertTenantContext (dd_tenantContext D)))) (\<lambda>_.
       run_bind (run_act (gateIdentity D (ia_identity I) (ro_sessionId opts) opts)) (\<lambda>(proceed, uri).
         if \<not> proceed then run_act (act_ret (refused_session (ro_sessionId opts)))
         else run_bind (run_act (open_session D I opts uri (ro_networkEnabled opts = Some True))) (\<lambda>(lease, h).
           run_bind (run_finally (run_calls D I (ro_sessionId opts) (\<lambda>req. mediate D I req h) lease) (shut_down D I h))
             (\<lambda>(lease', outs). run_act (end_session D (ro_sessionId opts) lease' outs)))))"

fun mediate_all ::
    "('sk, 'pk, 's, 'c, 'b) daemon \<Rightarrow> ('i, 'x) intendant_adapter_scheme \<Rightarrow> sandbox_handle \<Rightarrow>
     tool_call_request list \<Rightarrow> session_lease option \<Rightarrow> mediation_outcome list \<Rightarrow>
     (('s, 'c, 'b, 'i) world, session_lease option \<times> mediation_outcome list) act" where
  "mediate_all D I h [] lease outs = act_ret (lease, outs)"
| "mediate_all D I h (req # reqs) lease outs =
     act_bind (mediate D I req h) (\<lambda>out.
       act_bind (heartbeat_lease D lease) (\<lambda>lease'. mediate_all D I h reqs lease' (outs @ [out])))"

definition runScripted ::
    "('sk, 'pk, 's, 'c, 'b) daemon \<Rightarrow> script \<Rightarrow> run_options \<Rightarrow> (('s, 'c, 'b, scripted) world, session_result) act" where
  "runScripted D script opts =
     act_seq (act_lift (assertTenantContext (dd_tenantContext D)))
       (act_bind (gateIdentity D (ia_identity ScriptedIntendant) (ro_sessionId opts) opts) (\<lambda>(proceed, uri).
         if \<not> proceed then act_ret (refused_session (ro_sessionId opts))
         else act_bind (open_session D ScriptedIntendant opts uri False) (\<lambda>(lease, h).
           act_seq (on_intendant [] scripted_onToolCall)
             (act_bind (on_intendant [] (emitAll script (ro_sessionId opts))) (\<lambda>reqs.
               act_bind (mediate_all D ScriptedIntendant h reqs lease []) (\<lambda>(lease', outs).
                 act_seq (shut_down D ScriptedIntendant h) (end_session D (ro_sessionId opts) lease' outs)))))))"

end
