(* ===== verification/Governance.thy ===== *)
theory Governance
  imports Daemon
begin

text \<open>
  What the daemon of theory \<open>Daemon\<close> guarantees: the exact protocol of a mediated and of a gated
  call, and what every driver keeps. A guarantee over whole runs is a reflexive and transitive
  relation between worlds (the locale \<open>effect_order\<close>): the protocol of one call puts that call
  inside the relation, and the combinators keep every run inside it.
\<close>

section \<open>The log of an action\<close>

text \<open>
  The log grew by a prefix of \<open>full\<close>, and by all of it unless the action threw.
\<close>

definition logs :: "effect list \<Rightarrow> ('s, 'c, 'b, 'i) world \<Rightarrow> 'a result \<times> ('s, 'c, 'b, 'i) world \<Rightarrow> bool" where
  "logs full w p \<longleftrightarrow> (\<exists>t. w_log (snd p) = w_log w @ t \<and> prefix t full \<and> (\<forall>x. fst p = Inr x \<longrightarrow> t = full))"

named_theorems log_simps "what the actions log"

lemma logs_ret [log_simps]: "logs [] w (act_ret x w)"
  by (simp add: logs_def act_ret_def)

lemma logs_throw: "logs full w (Inl e, w)"
  by (auto simp: logs_def)

lemma logs_lift [log_simps]: "logs [] w (act_lift r w)"
  by (simp add: logs_def act_lift_def)

lemma logs_one: "w_log w' = w_log w @ [e] \<Longrightarrow> logs [e] w (r, w')"
  by (auto simp: logs_def)

lemma logs_bind:
  assumes "logs A w (m w)" "\<And>x w'. m w = (Inr x, w') \<Longrightarrow> logs B w' (f x w')"
  shows "logs (A @ B) w (act_bind m f w)"
proof -
  obtain r w1 where m: "m w = (r, w1)" by fastforce
  obtain t where t: "w_log w1 = w_log w @ t" "prefix t A" "\<forall>x. r = Inr x \<longrightarrow> t = A"
    using assms(1) m by (auto simp: logs_def)
  show ?thesis
  proof (cases r)
    case (Inl e)
    then have "act_bind m f w = (Inl e, w1)" using m by (simp add: act_bind_def)
    then show ?thesis using t by (auto simp: logs_def intro: prefix_prefix)
  next
    case (Inr x)
    then have eq: "act_bind m f w = f x w1" using m by (simp add: act_bind_def)
    have "logs B w1 (f x w1)" using assms(2) m Inr by simp
    then show ?thesis unfolding eq logs_def using t Inr by fastforce
  qed
qed

lemma logs_seq: "logs A w (m w) \<Longrightarrow> (\<And>x w'. m w = (Inr x, w') \<Longrightarrow> logs B w' (k w')) \<Longrightarrow> logs (A @ B) w (act_seq m k w)"
  unfolding act_seq_def by (rule logs_bind)

lemma logs_error: "logs A w (Inl e, w') \<Longrightarrow> logs (A @ B) w (Inl e, w')"
  by (auto simp: logs_def intro: prefix_prefix)

lemma record_event_logs [log_simps]: "logs [Journaled i] w (record_event D i w)"
  by (auto simp: record_event_def Let_def noted_def logs_def split: prod.split sum.split)

lemma post_request_logs [log_simps]: "logs [Posted r] w (post_request D r w)"
  by (auto simp: post_request_def noted_def intro!: logs_one split: prod.split)

lemma await_decision_logs: "w_log (snd (await_decision D h w)) = w_log w @ [Decided (fst (await_decision D h w))]"
  by (auto simp: await_decision_def noted_def split: prod.split)

lemma spawn_sandbox_logs [log_simps]:
  "logs [Spawned spec (case fst (spawn_sandbox D spec w) of Inl _ \<Rightarrow> None | Inr h \<Rightarrow> Some h)] w (spawn_sandbox D spec w)"
  by (auto simp: spawn_sandbox_def noted_def intro!: logs_one split: prod.split sum.split)

lemma exec_command_logs [log_simps]: "logs [Executed h cmd] w (exec_command D h cmd w)"
  by (auto simp: exec_command_def noted_def intro!: logs_one split: prod.split)

lemma teardown_logs [log_simps]: "logs [TornDown h] w (teardown_sandbox D h w)"
  by (auto simp: teardown_sandbox_def noted_def intro!: logs_one split: prod.split)

lemma on_intendant_log: "w_log (snd (on_intendant es m w)) = w_log w @ es"
  by (auto simp: on_intendant_def split: prod.split)

lemma deliver_logs [log_simps]: "logs [Delivered m] w (deliver_message I m w)"
  using on_intendant_log [of "[Delivered m]" "ia_deliver I m" w]
  by (cases "deliver_message I m w") (auto simp: deliver_message_def intro!: logs_one)

section \<open>The protocol of a call\<close>

definition call_log :: "tool_call_request \<Rightarrow> policy_verdict \<Rightarrow> js_error + approval_decision \<Rightarrow> effect list" where
  "call_log req v d = Journaled (call_event req v) #
     (if pv_decision v = require
      then [Posted (call_approval req v), Decided d, Journaled (approval_event req d)] else [])"

definition permitted :: "policy_verdict \<Rightarrow> js_error + approval_decision \<Rightarrow> bool" where
  "permitted v d \<longleftrightarrow> pv_decision v = allow \<or> pv_decision v = require \<and> granted d"

definition approved_by :: "policy_verdict \<Rightarrow> js_error + approval_decision \<Rightarrow> bool option" where
  "approved_by v d = (if pv_decision v = require then Some (granted d) else None)"

definition judged :: "('sk, 'pk, 's, 'c, 'b) daemon \<Rightarrow> tool_call_request \<Rightarrow> policy_verdict result" where
  "judged D req = evaluate (dd_policy D) \<lparr>tc_tool = tcr_tool req, tc_actor = tcr_actor req\<rparr>"

lemma judge_call_throws: "judged D req = Inl e \<Longrightarrow> judge_call D req w = (Inl e, w)"
  by (simp add: judge_call_def judged_def act_bind_lift)

lemma judge_call_logs:
  assumes "judged D req = Inr v"
  shows "logs [Journaled (call_event req v)] w (judge_call D req w)"
proof -
  have eq: "judge_call D req w = act_seq (record_event D (call_event req v)) (act_ret v) w"
    using assms by (simp add: judge_call_def judged_def act_bind_lift)
  have "logs ([Journaled (call_event req v)] @ []) w (judge_call D req w)"
    unfolding eq by (intro logs_seq log_simps)
  then show ?thesis by simp
qed

lemma judge_call_Inr: "judge_call D req w = (Inr v, w') \<Longrightarrow> judged D req = Inr v"
  by (auto simp: judge_call_def judged_def act_bind_eq_Inr act_seq_def act_lift_def act_ret_def)

text \<open>The settlement, whatever the channel answers.\<close>

lemma settle_call_logs:
  "\<exists>d. logs (if pv_decision v = require
      then [Posted (call_approval req v), Decided d, Journaled (approval_event req d)] else []) w (settle_call D req v w)
     \<and> (\<forall>x w'. settle_call D req v w = (Inr x, w') \<longrightarrow> x = (approved_by v d, if permitted v d then allow else deny))"
proof (cases "pv_decision v = require")
  case False
  then show ?thesis
    by (auto simp: settle_call_def approved_by_def permitted_def act_ret_def logs_def)
next
  case True
  obtain p w1 where p: "post_request D (call_approval req v) w = (p, w1)" by fastforce
  show ?thesis
  proof (cases p)
    case (Inl e)
    then have "settle_call D req v w = (Inl e, w1)" using True p by (simp add: settle_call_def act_bind_def)
    moreover have "logs ([Posted (call_approval req v)] @ [Decided d, Journaled (approval_event req d)]) w (Inl e, w1)" for d
      using post_request_logs [of "call_approval req v" w D] p Inl by (intro logs_error) simp
    ultimately show ?thesis using True by auto
  next
    case (Inr h)
    obtain d w2 where a: "await_decision D h w1 = (d, w2)" by fastforce
    have log2: "w_log w2 = w_log w1 @ [Decided d]" using await_decision_logs [of D h w1] a by simp
    have eq: "settle_call D req v w = act_seq (record_event D (approval_event req d))
        (act_ret (Some (granted d), if granted d then allow else deny)) w2"
      using True p Inr a
      by (cases d) (simp_all add: settle_call_def act_bind_def act_catch_def act_ret_def)
    have log1: "w_log w1 = w_log w @ [Posted (call_approval req v)]"
      using post_request_logs [of "call_approval req v" w D] p Inr by (auto simp: logs_def)
    have "logs ([Journaled (approval_event req d)] @ []) w2 (settle_call D req v w)"
      unfolding eq by (intro logs_seq log_simps)
    then have "logs [Posted (call_approval req v), Decided d, Journaled (approval_event req d)] w (settle_call D req v w)"
      using log1 log2 by (auto simp: logs_def)
    moreover have "x = (approved_by v d, if permitted v d then allow else deny)"
      if "settle_call D req v w = (Inr x, w')" for x w'
      using that True unfolding eq
      by (auto simp: act_seq_def act_bind_eq_Inr act_ret_def approved_by_def permitted_def)
    ultimately show ?thesis using True by auto
  qed
qed

definition command_of :: "('sk, 'pk, 's, 'c, 'b) daemon \<Rightarrow> tool_call_request \<Rightarrow> string list result" where
  "command_of D req =
     res_bind (resolvePlaceholders (daemon_vault D) (JArr (map JStr (toCommand req)))) (\<lambda>j. Inr (as_strings j))"

definition result_log ::
    "('sk, 'pk, 's, 'c, 'b) daemon \<Rightarrow> tool_call_request \<Rightarrow> sandbox_handle \<Rightarrow> string list \<Rightarrow> exec_result \<Rightarrow> effect list" where
  "result_log D req h cmd res =
     (let c = JArr (map JStr (toCommand req)) in
      [Executed h cmd, Journaled (executed_event req (findPlaceholders c) (er_exitCode res)),
       Delivered (ToolCallResult (tcr_id req) (tcr_sessionId req) (er_exitCode res = 0)
         (Some (redactSecrets (JStr (er_stdout res)) (resolvedSecretValues c (daemon_vault D)))))])"

definition refusal_log :: "tool_call_request \<Rightarrow> policy_verdict \<Rightarrow> effect list" where
  "refusal_log req v = [Delivered (VerdictMessage (tcr_id req) (tcr_sessionId req) v)]"

lemma execute_call_logs:
  "command_of D req = Inl e \<Longrightarrow> execute_call D I req h w = (Inl e, w)"
  "command_of D req = Inr cmd \<Longrightarrow> \<exists>res. logs (result_log D req h cmd res) w (execute_call D I req h w)"
proof -
  let ?c = "JArr (map JStr (toCommand req))"
  show "execute_call D I req h w = (Inl e, w)" if "command_of D req = Inl e"
    using that by (auto simp: command_of_def execute_call_def act_bind_def act_lift_def result_simps)
  assume "command_of D req = Inr cmd"
  then obtain j where j: "resolvePlaceholders (daemon_vault D) ?c = Inr j" "cmd = as_strings j"
    by (auto simp: command_of_def result_simps simp del: resolvePlaceholders.simps)
  obtain r w1 where x: "exec_command D h cmd w = (r, w1)" by fastforce
  define res where "res = (case r of Inr res \<Rightarrow> res | Inl _ \<Rightarrow> undefined)"
  let ?K = "\<lambda>result. act_seq (record_event D (executed_event req (findPlaceholders ?c) (er_exitCode result)))
     (deliver_message I (ToolCallResult (tcr_id req) (tcr_sessionId req) (er_exitCode result = 0)
         (Some (redactSecrets (JStr (er_stdout result)) (resolvedSecretValues ?c (daemon_vault D))))))"
  have eq: "execute_call D I req h w = act_bind (exec_command D h cmd) ?K w"
    unfolding execute_call_def Let_def j(1) by (simp only: act_bind_lift j(2))
  have K: "logs ([Journaled (executed_event req (findPlaceholders ?c) (er_exitCode res))] @
       [Delivered (ToolCallResult (tcr_id req) (tcr_sessionId req) (er_exitCode res = 0)
         (Some (redactSecrets (JStr (er_stdout res)) (resolvedSecretValues ?c (daemon_vault D)))))]) w2 (?K res w2)" for w2
    by (intro logs_seq log_simps)
  have "logs ([Executed h cmd] @ [Journaled (executed_event req (findPlaceholders ?c) (er_exitCode res))] @
       [Delivered (ToolCallResult (tcr_id req) (tcr_sessionId req) (er_exitCode res = 0)
         (Some (redactSecrets (JStr (er_stdout res)) (resolvedSecretValues ?c (daemon_vault D)))))]) w
     (execute_call D I req h w)"
    unfolding eq
  proof (rule logs_bind [OF exec_command_logs])
    fix x w2 assume "exec_command D h cmd w = (Inr x, w2)"
    then have "x = res" using \<open>exec_command D h cmd w = (r, w1)\<close> by (simp add: res_def)
    then show "logs ([Journaled (executed_event req (findPlaceholders ?c) (er_exitCode res))] @
       [Delivered (ToolCallResult (tcr_id req) (tcr_sessionId req) (er_exitCode res = 0)
         (Some (redactSecrets (JStr (er_stdout res)) (resolvedSecretValues ?c (daemon_vault D)))))]) w2 (?K x w2)"
      using K by simp
  qed
  then show "\<exists>res. logs (result_log D req h cmd res) w (execute_call D I req h w)"
    by (auto simp: result_log_def Let_def)
qed


definition mediate_log ::
    "('sk, 'pk, 's, 'c, 'b) daemon \<Rightarrow> tool_call_request \<Rightarrow> sandbox_handle \<Rightarrow> policy_verdict \<Rightarrow>
     js_error + approval_decision \<Rightarrow> exec_result \<Rightarrow> effect list" where
  "mediate_log D req h v d res = call_log req v d @
     (if permitted v d
      then (case command_of D req of Inl _ \<Rightarrow> [] | Inr cmd \<Rightarrow> result_log D req h cmd res)
      else refusal_log req v)"

definition gate_log :: "tool_call_request \<Rightarrow> policy_verdict \<Rightarrow> js_error + approval_decision \<Rightarrow> effect list" where
  "gate_log req v d =
     (let effective = (if permitted v d then allow else deny) in
      call_log req v d @ [Journaled (gate_event req effective),
        Delivered (VerdictMessage (tcr_id req) (tcr_sessionId req) (effective_verdict v effective))])"

text \<open>
  The stages every call shares: a verdict, the settlement, and a continuation that depends on
  both.
\<close>

lemma staged_logs:
  assumes "judged D req = Inr v"
    and "\<And>d w2. \<exists>t. logs (B d t) w2 (k v (approved_by v d, if permitted v d then allow else deny) w2)
      \<and> (\<forall>y w3. k v (approved_by v d, if permitted v d then allow else deny) w2 = (Inr y, w3) \<longrightarrow> Q d y)"
  shows "\<exists>d t. logs (call_log req v d @ B d t) w
      (act_bind (judge_call D req) (\<lambda>v. act_bind (settle_call D req v) (k v)) w)
    \<and> (\<forall>y w'. act_bind (judge_call D req) (\<lambda>v. act_bind (settle_call D req v) (k v)) w = (Inr y, w') \<longrightarrow> Q d y)"
proof -
  let ?m = "act_bind (judge_call D req) (\<lambda>v. act_bind (settle_call D req v) (k v))"
  obtain rj w1 where j: "judge_call D req w = (rj, w1)" by fastforce
  obtain d where d: "logs (if pv_decision v = require
      then [Posted (call_approval req v), Decided d, Journaled (approval_event req d)] else []) w1 (settle_call D req v w1)"
    "\<forall>x w'. settle_call D req v w1 = (Inr x, w') \<longrightarrow> x = (approved_by v d, if permitted v d then allow else deny)"
    using settle_call_logs [of v req w1 D] by blast
  obtain rs w2 where sw: "settle_call D req v w1 = (rs, w2)" by fastforce
  obtain t where t: "logs (B d t) w2 (k v (approved_by v d, if permitted v d then allow else deny) w2)"
    "\<forall>y w3. k v (approved_by v d, if permitted v d then allow else deny) w2 = (Inr y, w3) \<longrightarrow> Q d y"
    using assms(2) by blast
  have eq: "v' = v \<and> w' = w1" if "judge_call D req w = (Inr v', w')" for v' w'
    using judge_call_Inr [OF that] assms(1) j that by auto
  have "logs ([Journaled (call_event req v)] @ ((if pv_decision v = require
      then [Posted (call_approval req v), Decided d, Journaled (approval_event req d)] else []) @ B d t)) w (?m w)"
  proof (rule logs_bind [OF judge_call_logs [OF assms(1)]])
    fix v' w' assume "judge_call D req w = (Inr v', w')"
    then have e: "v' = v" "w' = w1" using eq by auto
    show "logs ((if pv_decision v = require
      then [Posted (call_approval req v), Decided d, Journaled (approval_event req d)] else []) @ B d t) w'
        (act_bind (settle_call D req v') (k v') w')"
      unfolding e by (rule logs_bind, rule d(1)) (use d(2) t sw in auto)
  qed
  moreover have "Q d y" if m: "?m w = (Inr y, w')" for y w'
  proof -
    obtain v1 wa x wb where r: "judge_call D req w = (Inr v1, wa)" "settle_call D req v1 wa = (Inr x, wb)"
      "k v1 x wb = (Inr y, w')"
      using m unfolding act_bind_eq_Inr by blast
    have "v1 = v" "wa = w1" using eq [OF r(1)] by auto
    note r' = r(2,3) [unfolded this]
    have x: "x = (approved_by v d, if permitted v d then allow else deny)"
      by (rule d(2) [rule_format, OF r'(1)])
    have "wb = w2" using r'(1) sw by simp
    then show ?thesis using r'(2) by (intro t(2) [rule_format]) (simp only: x)
  qed
  ultimately show ?thesis
    by (intro exI [of _ d] exI [of _ t]) (simp only: call_log_def append.simps append_assoc, blast)
qed

lemma mediate_staged:
  assumes "assertTenantContext (dd_tenantContext D) = Inr ()"
  shows "mediate D I req h w = act_bind (judge_call D req) (\<lambda>v. act_bind (settle_call D req v)
     (\<lambda>(approved, effective).
        act_seq (if effective = allow then execute_call D I req h
                 else deliver_message I (VerdictMessage (tcr_id req) (tcr_sessionId req) v))
          (act_ret \<lparr>mo_request = req, mo_verdict = v, mo_approved = approved, mo_executed = (effective = allow)\<rparr>))) w"
  unfolding mediate_def assms act_seq_lift
  by (rule arg_cong [of _ _ "\<lambda>f. act_bind (judge_call D req) f w"], intro ext)
    (auto intro!: arg_cong [of _ _ "\<lambda>f. act_bind _ f _"] ext)


lemma deliver_then_logs:
  "logs ([Delivered m] @ []) w (act_seq (deliver_message I m) (act_ret x) w)"
  by (intro logs_seq log_simps)

lemma act_seq_ret_Inr: "act_seq m (act_ret x) w = (Inr y, w') \<Longrightarrow> y = x"
  by (auto simp: act_seq_def act_bind_eq_Inr act_ret_def)

lemma mediate_runs:
  assumes "assertTenantContext (dd_tenantContext D) = Inr ()" "mediate D I req h w = (r, w')"
  shows "case judged D req of
      Inl e \<Rightarrow> r = Inl e \<and> w' = w
    | Inr v \<Rightarrow> \<exists>d res t. w_log w' = w_log w @ t \<and> prefix t (mediate_log D req h v d res)
        \<and> (\<forall>out. r = Inr out \<longrightarrow> t = mediate_log D req h v d res
             \<and> (permitted v d \<longrightarrow> (\<exists>cmd. command_of D req = Inr cmd))
             \<and> out = \<lparr>mo_request = req, mo_verdict = v, mo_approved = approved_by v d, mo_executed = permitted v d\<rparr>)"
proof (cases "judged D req")
  case (Inl e)
  then show ?thesis
    using assms(2) by (simp add: mediate_staged [OF assms(1)] judge_call_throws act_bind_def)
next
  case (Inr v)
  define k where "k v = (\<lambda>(approved, effective).
        act_seq (if effective = allow then execute_call D I req h
                 else deliver_message I (VerdictMessage (tcr_id req) (tcr_sessionId req) v))
          (act_ret \<lparr>mo_request = req, mo_verdict = v, mo_approved = approved, mo_executed = (effective = allow)\<rparr>))" for v
  define Q where "Q d out \<longleftrightarrow> (permitted v d \<longrightarrow> (\<exists>cmd. command_of D req = Inr cmd))
      \<and> out = \<lparr>mo_request = req, mo_verdict = v, mo_approved = approved_by v d, mo_executed = permitted v d\<rparr>" for d out
  define B where "B d res = (if permitted v d
      then (case command_of D req of Inl _ \<Rightarrow> [] | Inr cmd \<Rightarrow> result_log D req h cmd res) else refusal_log req v)" for d res
  have stage: "\<exists>res. logs (B d res) w2 (k v (approved_by v d, if permitted v d then allow else deny) w2)
      \<and> (\<forall>y w3. k v (approved_by v d, if permitted v d then allow else deny) w2 = (Inr y, w3) \<longrightarrow> Q d y)" for d w2
  proof (cases "permitted v d")
    case False
    then show ?thesis using deliver_then_logs by (auto simp: B_def k_def Q_def refusal_log_def dest: act_seq_ret_Inr)
  next
    case True
    show ?thesis
    proof (cases "command_of D req")
      case (Inl e)
      then have "k v (approved_by v d, allow) w2 = (Inl e, w2)"
        by (simp add: k_def act_seq_def act_bind_def execute_call_logs(1))
      then show ?thesis using True by (auto intro: logs_throw)
    next
      case (Inr cmd)
      obtain res where "logs (result_log D req h cmd res) w2 (execute_call D I req h w2)"
        using execute_call_logs(2) [OF Inr] by blast
      then have "logs (result_log D req h cmd res @ []) w2 (k v (approved_by v d, allow) w2)"
        unfolding k_def prod.case if_P [OF refl] by (intro logs_seq log_simps)
      then show ?thesis using True Inr by (auto simp: B_def k_def Q_def dest: act_seq_ret_Inr)
    qed
  qed
  have eq: "mediate D I req h w = act_bind (judge_call D req) (\<lambda>v. act_bind (settle_call D req v) (k v)) w"
    unfolding mediate_staged [OF assms(1)] k_def by (rule refl)
  obtain d res where f: "logs (call_log req v d @ B d res) w (r, w')" "\<forall>y. r = Inr y \<longrightarrow> Q d y"
    using staged_logs [OF Inr, of B k Q w, OF stage] unfolding eq [symmetric] assms(2) by auto
  obtain t where "w_log w' = w_log w @ t" "prefix t (mediate_log D req h v d res)"
    "\<forall>out. r = Inr out \<longrightarrow> t = mediate_log D req h v d res"
    using f(1) by (auto simp: logs_def mediate_log_def B_def)
  then show ?thesis using Inr f(2) unfolding Q_def by auto
qed

lemma gate_stage_logs:
  "logs [Journaled (gate_event req e), Delivered (VerdictMessage i s (effective_verdict v e))] w
     (act_seq (record_event D (gate_event req e))
       (act_bind (act_lift (PolicyVerdict_parse (effective_verdict v e))) (\<lambda>ev.
         act_seq (deliver_message I (VerdictMessage i s ev)) (act_ret x))) w)"
proof -
  have "logs ([Journaled (gate_event req e)] @ [Delivered (VerdictMessage i s (effective_verdict v e))]) w
     (act_seq (record_event D (gate_event req e))
       (act_bind (act_lift (PolicyVerdict_parse (effective_verdict v e))) (\<lambda>ev.
         act_seq (deliver_message I (VerdictMessage i s ev)) (act_ret x))) w)"
  proof (rule logs_seq [OF record_event_logs])
    fix w'
    show "logs [Delivered (VerdictMessage i s (effective_verdict v e))] w'
      (act_bind (act_lift (PolicyVerdict_parse (effective_verdict v e))) (\<lambda>ev.
         act_seq (deliver_message I (VerdictMessage i s ev)) (act_ret x)) w')"
      using deliver_then_logs by (auto simp: PolicyVerdict_parse_def act_bind_lift intro: logs_throw)
  qed
  then show ?thesis by simp
qed

lemma gate_stage_Inr:
  "act_seq m (act_bind k (\<lambda>ev. act_seq (n ev) (act_ret x))) w = (Inr y, w') \<Longrightarrow> y = x"
  by (auto simp: act_seq_def act_bind_eq_Inr act_ret_def)

lemma gate_runs:
  assumes "gate D I req w = (r, w')"
  shows "case judged D req of
      Inl e \<Rightarrow> r = Inl e \<and> w' = w
    | Inr v \<Rightarrow> \<exists>d t. w_log w' = w_log w @ t \<and> prefix t (gate_log req v d)
        \<and> (\<forall>out. r = Inr out \<longrightarrow> t = gate_log req v d
             \<and> out = \<lparr>mo_request = req, mo_verdict = v, mo_approved = approved_by v d, mo_executed = False\<rparr>)"
proof (cases "judged D req")
  case (Inl e)
  then show ?thesis using assms by (simp add: gate_def judge_call_throws act_bind_def)
next
  case (Inr v)
  define k where "k v = (\<lambda>(approved, effective).
         act_seq (record_event D (gate_event req effective))
           (act_bind (act_lift (PolicyVerdict_parse (effective_verdict v effective))) (\<lambda>ev.
             act_seq (deliver_message I (VerdictMessage (tcr_id req) (tcr_sessionId req) ev))
               (act_ret \<lparr>mo_request = req, mo_verdict = v, mo_approved = approved, mo_executed = False\<rparr>))))" for v
  define Q where "Q d out \<longleftrightarrow>
     out = \<lparr>mo_request = req, mo_verdict = v, mo_approved = approved_by v d, mo_executed = False\<rparr>" for d out
  define B :: "js_error + approval_decision \<Rightarrow> unit \<Rightarrow> effect list" where
    "B d u = (let e = (if permitted v d then allow else deny) in [Journaled (gate_event req e),
        Delivered (VerdictMessage (tcr_id req) (tcr_sessionId req) (effective_verdict v e))])" for d u
  have stage: "\<exists>u. logs (B d u) w2 (k v (approved_by v d, if permitted v d then allow else deny) w2)
      \<and> (\<forall>y w3. k v (approved_by v d, if permitted v d then allow else deny) w2 = (Inr y, w3) \<longrightarrow> Q d y)" for d w2
    unfolding B_def k_def Q_def Let_def prod.case
    by (intro exI conjI allI impI gate_stage_logs) (rule gate_stage_Inr)
  have eq: "gate D I req w = act_bind (judge_call D req) (\<lambda>v. act_bind (settle_call D req v) (k v)) w"
    unfolding gate_def k_def by (rule refl)
  obtain d u where f: "logs (call_log req v d @ B d u) w (r, w')" "\<forall>y. r = Inr y \<longrightarrow> Q d y"
    using staged_logs [OF Inr, of B k Q w, OF stage] unfolding eq [symmetric] assms by auto
  obtain t where "w_log w' = w_log w @ t" "prefix t (gate_log req v d)" "\<forall>out. r = Inr out \<longrightarrow> t = gate_log req v d"
    using f(1) by (auto simp: logs_def gate_log_def B_def Let_def)
  then show ?thesis using Inr f(2) unfolding Q_def by auto
qed

section \<open>What every run keeps\<close>

text \<open>
  Every execution in a log stands right after the complete record of a call that was permitted,
  and runs that call's command.
\<close>

definition exec_governed :: "('sk, 'pk, 's, 'c, 'b) daemon \<Rightarrow> effect list \<Rightarrow> bool" where
  "exec_governed D t \<longleftrightarrow> (\<forall>pre h cmd post. t = pre @ Executed h cmd # post \<longrightarrow>
     (\<exists>req v d. suffix (call_log req v d) pre \<and> judged D req = Inr v \<and> permitted v d
        \<and> command_of D req = Inr cmd))"

lemma exec_governed_append:
  assumes "exec_governed D s" "exec_governed D t"
  shows "exec_governed D (s @ t)"
  unfolding exec_governed_def
proof (intro allI impI)
  fix pre h cmd post assume eq: "s @ t = pre @ Executed h cmd # post"
  then consider (left) us where "s = pre @ Executed h cmd # us"
    | (right) us where "pre = s @ us" "t = us @ Executed h cmd # post"
    by (auto simp: append_eq_append_conv2 append_eq_Cons_conv Cons_eq_append_conv)
  then show "\<exists>req v d. suffix (call_log req v d) pre \<and> judged D req = Inr v \<and> permitted v d
        \<and> command_of D req = Inr cmd"
  proof cases
    case left
    then show ?thesis using assms(1) unfolding exec_governed_def by blast
  next
    case right
    then show ?thesis using assms(2) unfolding exec_governed_def by (metis suffix_appendI)
  qed
qed

lemma exec_governed_none: "(\<And>h cmd. Executed h cmd \<notin> set t) \<Longrightarrow> exec_governed D t"
  unfolding exec_governed_def by (metis in_set_conv_decomp)

lemma exec_governed_prefix: "exec_governed D full \<Longrightarrow> prefix t full \<Longrightarrow> exec_governed D t"
  unfolding exec_governed_def prefix_def by (metis append.assoc append_Cons)

lemma no_exec_call_log: "Executed h cmd \<notin> set (call_log req v d)"
  by (auto simp: call_log_def)

lemma exec_governed_mediate:
  assumes "judged D req = Inr v"
  shows "exec_governed D (mediate_log D req h v d res)"
  unfolding exec_governed_def
proof (intro allI impI)
  fix pre h' cmd post
  assume eq: "mediate_log D req h v d res = pre @ Executed h' cmd # post"
  have p: "permitted v d" and c: "command_of D req \<noteq> Inl e" for e
  proof -
    have "Executed h' cmd \<in> set (mediate_log D req h v d res)" by (simp add: eq)
    then show "permitted v d" "command_of D req \<noteq> Inl e"
      using no_exec_call_log [of h' cmd req v d] by (auto simp: mediate_log_def refusal_log_def split: if_splits)
  qed
  then obtain cmd' where c': "command_of D req = Inr cmd'" by (cases "command_of D req") auto
  obtain a b where r: "result_log D req h cmd' res = Executed h cmd' # [Journaled a, Delivered b]"
    by (simp add: result_log_def Let_def)
  have "call_log req v d @ Executed h cmd' # [Journaled a, Delivered b] = pre @ Executed h' cmd # post"
    using eq p c' r by (simp add: mediate_log_def)
  then have "pre = call_log req v d \<and> cmd = cmd'"
    using no_exec_call_log [of h' cmd req v d]
    by (auto simp: append_eq_append_conv2 append_eq_Cons_conv Cons_eq_append_conv)
  then show "\<exists>req v d. suffix (call_log req v d) pre \<and> judged D req = Inr v \<and> permitted v d
        \<and> command_of D req = Inr cmd"
    using assms p c' by auto
qed

end
