(* ===== verification/Drivers.thy ===== *)
theory Drivers
  imports Governance
begin

text \<open>
  What whole sessions keep. A guarantee is a reflexive and transitive relation between worlds;
  the locale \<open>daemon_effects\<close> shows that the three drivers, the recovery and the identity gate
  stay inside any relation that admits the daemon's single effects, and it is interpreted on
  three relations: every execution is governed, nothing is executed, and the journal stays
  sound. The properties at the end put these and the protocols of theory \<open>Governance\<close>
  together.
\<close>

section \<open>Runs inside a relation\<close>

definition run_within :: "('w \<Rightarrow> 'w \<Rightarrow> bool) \<Rightarrow> ('w, 'a) run \<Rightarrow> bool" where
  "run_within R m \<longleftrightarrow> (\<forall>w r w'. m w = Some (r, w') \<longrightarrow> R w w')"

lemma run_within_act: "act_within R m \<Longrightarrow> run_within R (run_act m)"
  by (auto simp: run_within_def run_act_def dest: act_withinD)

context effect_order
begin

lemma run_within_bind:
  assumes "run_within R m" "\<And>x. run_within R (f x)"
  shows "run_within R (run_bind m f)"
  unfolding run_within_def
proof (intro allI impI)
  fix w r w' assume r: "run_bind m f w = Some (r, w')"
  then obtain q w1 where m: "m w = Some (q, w1)" by (auto simp: run_bind_def split: option.splits)
  have "R w w1" using assms(1) m unfolding run_within_def by blast
  moreover have "R w1 w'" using r m assms(2) R_refl
    by (cases q) (auto simp: run_bind_def run_within_def)
  ultimately show "R w w'" by (rule R_trans)
qed

lemma run_within_finally:
  assumes "run_within R m" "act_within R k"
  shows "run_within R (run_finally m k)"
  unfolding run_within_def
proof (intro allI impI)
  fix w r w' assume r: "run_finally m k w = Some (r, w')"
  then obtain q w1 where m: "m w = Some (q, w1)" by (auto simp: run_finally_def split: option.splits)
  have "R w w1" using assms(1) m unfolding run_within_def by blast
  moreover have "R w1 w'" using r m act_withinD [OF assms(2)]
    by (auto simp: run_finally_def act_finally_def split: prod.splits sum.splits)
  ultimately show "R w w'" by (rule R_trans)
qed

lemma drive_within:
  assumes "act_within R nxt" "\<And>req st w. R w (snd (handler req st w))"
  shows "run_within R (drive nxt handler st)"
proof -
  have "act_within R nxt \<Longrightarrow> (\<forall>req st w. R w (snd (handler req st w))) \<Longrightarrow> R w (snd p)"
    if "drive nxt handler st w = Some p" for nxt :: "('w, tool_call_request option) act" and handler st w p
  proof (induction rule: drive.raw_induct [OF _ that])
    case (1 drv nxt handler st w p)
    obtain r w1 where n: "nxt w = (r, w1)" by fastforce
    have s: "R w w1" using 1(3) n by (rule act_withinD)
    show ?case
    proof (cases r)
      case (Inl e)
      then show ?thesis using 1 n s by auto
    next
      case (Inr q)
      show ?thesis
      proof (cases q)
        case None
        then show ?thesis using 1 n Inr s by auto
      next
        case (Some req)
        obtain st' w2 where h: "handler req st w1 = (st', w2)" by fastforce
        have "R w1 w2" using 1(4) h by (metis snd_conv)
        moreover have "R w2 (snd p)" using 1 n Inr Some h by auto
        ultimately show ?thesis using s by (blast intro: R_trans)
      qed
    qed
  qed
  then show ?thesis using assms unfolding run_within_def by (metis snd_conv)
qed

end

text \<open>The effects on an intendant and on the sandbox other than an execution.\<close>

fun intendant_effect :: "effect \<Rightarrow> bool" where
  "intendant_effect (Started _) = True"
| "intendant_effect (Delivered _) = True"
| "intendant_effect Stopped = True"
| "intendant_effect _ = False"

fun sandbox_effect :: "effect \<Rightarrow> bool" where
  "sandbox_effect (Spawned _ _) = True"
| "sandbox_effect (TornDown _) = True"
| "sandbox_effect _ = False"

locale daemon_effects = effect_order R
  for R :: "('s, 'c, 'b, 'i) world \<Rightarrow> ('s, 'c, 'b, 'i) world \<Rightarrow> bool" +
  fixes D :: "('sk, 'pk, 's, 'c, 'b) daemon"
  assumes R_record: "payload_ok (ai_payload i) \<Longrightarrow> act_within R (record_event D i)"
    and R_store: "R w (w\<lparr>w_store := s, w_ticks := n\<rparr>)"
    and R_intendant: "list_all intendant_effect es \<Longrightarrow> R w (w\<lparr>w_intendant := u, w_log := w_log w @ es\<rparr>)"
begin

lemma store_within: "act_within R (with_store D m)"
  by (rule act_withinI) (auto simp: with_store_def R_store split: prod.splits)

lemma intendant_within: "list_all intendant_effect es \<Longrightarrow> act_within R (on_intendant es m)"
  by (rule act_withinI) (auto simp: on_intendant_def intro: R_intendant split: prod.splits)

lemmas daemon_withins = within_intros R_record store_within intendant_within

end

text \<open>Relations that also admit sandboxes coming and going.\<close>

locale session_effects = daemon_effects +
  assumes R_sandbox: "sandbox_effect e \<Longrightarrow> R w (noted e (w\<lparr>w_sandbox := b\<rparr>))"
begin

lemma spawn_within: "act_within R (spawn_sandbox D spec)"
  by (rule act_withinI) (auto simp: spawn_sandbox_def intro: R_sandbox split: prod.splits)

lemma teardown_within: "act_within R (teardown_sandbox D h)"
  by (rule act_withinI) (auto simp: teardown_sandbox_def intro: R_sandbox split: prod.splits)

end

lemma list_all_json_ok_JStr [simp]: "list_all json_ok (map JStr ns)"
  by (induction ns) auto

lemma payload_ok_events [simp]:
  "payload_ok (ai_payload (call_event req v))"
  "payload_ok (ai_payload (approval_event req d))"
  "payload_ok (ai_payload (executed_event req ns x))"
  "payload_ok (ai_payload (gate_event req e))"
  "payload_ok (ai_payload (started_event sid i uri))"
  "payload_ok (ai_payload (ended_event sid n))"
  "payload_ok (ai_payload (reaped_event D l))"
  "payload_ok (ai_payload (event_input k a [(''sessionId'', JStr x1), (''reason'', JStr x2), (''mode'', JStr x3)]))"
  by (auto simp: call_event_def approval_event_def executed_event_def gate_event_def started_event_def
      ended_event_def reaped_event_def event_input_def payload_ok_def identity_json_def json_opt_def
      split: sum.split option.split)

context daemon_effects
begin

lemma gateIdentity_within: "act_within R (gateIdentity D identity sid opts)"
  by (auto simp: gateIdentity_def verify_failed_def intro!: daemon_withins split: option.split verify_verdict.split)

lemma record_all_within: "(\<And>i. i \<in> set is \<Longrightarrow> payload_ok (ai_payload i)) \<Longrightarrow> act_within R (record_all D is)"
  by (induction "is") (auto intro!: daemon_withins)

lemma recoverSessions_within: "act_within R (recoverSessions D)"
  by (auto simp: recoverSessions_def intro!: daemon_withins record_all_within split: option.split)

lemma lease_within:
  "act_within R (acquire_lease D sid)" "act_within R (heartbeat_lease D lease)" "act_within R (release_lease D lease)"
  by (auto simp: acquire_lease_def heartbeat_lease_def release_lease_def intro!: daemon_withins split: option.split)

lemma end_session_within: "act_within R (end_session D sid lease outs)"
  by (auto simp: end_session_def intro!: daemon_withins lease_within)

lemma handle_call_within:
  assumes "\<And>req. act_within R (body req)"
  shows "R w (snd (handle_call D body req st w))"
proof -
  obtain lease outs errs where st: "st = (lease, outs, errs)" by (cases st)
  show ?thesis
    using act_withinD [OF assms] act_withinD [OF lease_within(2)]
    by (auto simp: handle_call_def st split: prod.split sum.split) (blast intro: R_trans)+
qed

lemma calls_within:
  assumes "\<And>req. act_within R (body req)"
  shows "run_within R (drive (on_intendant [] (ri_next I sid)) (handle_call D body) st)"
  by (intro drive_within intendant_within handle_call_within assms) auto

lemma run_calls_within:
  assumes "\<And>req. act_within R (body req)"
  shows "run_within R (run_calls D I sid body lease)"
  unfolding run_calls_def
  by (rule run_within_bind [OF calls_within [OF assms]])
    (auto intro!: run_within_act within_ret within_throw split: prod.split)

lemma mediate_all_within:
  assumes "\<And>req h. act_within R (mediate D I req h)"
  shows "act_within R (mediate_all D I h reqs lease outs)"
  by (induction reqs arbitrary: lease outs) (auto intro!: daemon_withins lease_within assms)

end

context session_effects
begin

lemma session_within:
  "act_within R (open_session D I opts uri net)"
  "act_within R (shut_down D I h)"
  by (auto simp: open_session_def Let_def shut_down_def start_intendant_def stop_intendant_def
      intro!: daemon_withins spawn_within teardown_within lease_within split: prod.split)

lemma runMediated_within:
  assumes "\<And>req h. act_within R (mediate D I req h)"
  shows "run_within R (runMediated D I opts)"
  unfolding runMediated_def
  by (intro run_within_bind run_within_act within_lift gateIdentity_within)
    (auto intro!: run_within_bind run_within_act within_ret session_within end_session_within run_within_finally run_calls_within assms
      split: prod.split)

lemma runLive_within:
  assumes "\<And>req. act_within R (gate D I req)"
  shows "run_within R (runLive D I opts)"
  unfolding runLive_def
  by (intro run_within_bind run_within_act within_lift gateIdentity_within)
    (auto intro!: run_within_bind run_within_act within_ret within_seq session_within end_session_within run_calls_within assms
      split: prod.split)

end

lemma runScripted_within:
  assumes "session_effects R D" "\<And>req h. act_within R (mediate D ScriptedIntendant req h)"
  shows "act_within R (runScripted D script opts)"
proof -
  note d = session_effects.axioms(1) [OF assms(1)]
  note e = daemon_effects.axioms(1) [OF d]
  show ?thesis
    unfolding runScripted_def
    by (intro effect_order.within_seq [OF e] effect_order.within_bind [OF e] effect_order.within_lift [OF e]
        daemon_effects.gateIdentity_within [OF d])
      (auto intro!: effect_order.within_ret [OF e] effect_order.within_seq [OF e] effect_order.within_bind [OF e]
        session_effects.session_within [OF assms(1)] daemon_effects.end_session_within [OF d]
        daemon_effects.intendant_within [OF d] daemon_effects.mediate_all_within [OF d] assms(2) split: prod.split)
qed

section \<open>The relations\<close>

definition governs :: "('sk, 'pk, 's, 'c, 'b) daemon \<Rightarrow> ('s, 'c, 'b, 'i) world \<Rightarrow> ('s, 'c, 'b, 'i) world \<Rightarrow> bool" where
  "governs D w w' \<longleftrightarrow> (\<exists>t. w_log w' = w_log w @ t \<and> exec_governed D t)"

definition idle :: "('s, 'c, 'b, 'i) world \<Rightarrow> ('s, 'c, 'b, 'i) world \<Rightarrow> bool" where
  "idle w w' \<longleftrightarrow> (\<exists>t. w_log w' = w_log w @ t \<and> (\<forall>h c. Executed h c \<notin> set t))"

definition keeps_journal :: "('sk, 'pk, 's, 'c, 'b) daemon \<Rightarrow> ('s, 'c, 'b, 'i) world \<Rightarrow> ('s, 'c, 'b, 'i) world \<Rightarrow> bool" where
  "keeps_journal D w w' \<longleftrightarrow> (crypto_ok (dd_lib D) (dd_key D) \<longrightarrow>
     (\<forall>evs. journal_good (dd_lib D) (dd_key D) (w_journal w) evs \<longrightarrow>
        (\<exists>new. journal_good (dd_lib D) (dd_key D) (w_journal w') (evs @ new))))"

lemma governs_refl: "governs D w w"
  by (auto simp: governs_def exec_governed_none)

lemma governs_trans: "governs D w w' \<Longrightarrow> governs D w' w'' \<Longrightarrow> governs D w w''"
  unfolding governs_def by (metis append.assoc exec_governed_append)

lemma governsI: "w_log w' = w_log w @ t \<Longrightarrow> (\<And>h c. Executed h c \<notin> set t) \<Longrightarrow> governs D w w'"
  unfolding governs_def by (metis exec_governed_none)

lemma record_event_log:
  assumes "record_event D i w = (r, w')"
  shows "\<exists>t. w_log w' = w_log w @ t \<and> (\<forall>h c. Executed h c \<notin> set t)"
  using assms by (auto simp: record_event_def Let_def noted_def split: prod.splits sum.splits)

lemma no_execution:
  "list_all intendant_effect es \<Longrightarrow> Executed h c \<notin> set es"
  "sandbox_effect e \<Longrightarrow> e \<noteq> Executed h c"
  by (auto simp: list_all_iff)

interpretation governed: session_effects "governs D" D for D
proof
  show "act_within (governs D) (record_event D i)" if "payload_ok (ai_payload i)" for i
    by (rule act_withinI) (use record_event_log in \<open>metis governsI\<close>)
  show "governs D w w' \<Longrightarrow> governs D w' w'' \<Longrightarrow> governs D w w''" for w w' w''
    by (rule governs_trans)
  show "governs D w (noted e (w\<lparr>w_sandbox := b\<rparr>))" if "sandbox_effect e" for w e b
    using no_execution(2) [OF that] by (intro governsI [where t = "[e]"]) (auto simp: noted_def)
qed (auto intro: governs_refl intro!: governsI dest: no_execution)

interpretation idle: session_effects idle D for D
proof
  show "act_within idle (record_event D i)" if "payload_ok (ai_payload i)" for i
    by (rule act_withinI) (use record_event_log in \<open>metis idle_def\<close>)
  show "idle w w' \<Longrightarrow> idle w' w'' \<Longrightarrow> idle w w''" for w w' w''
    by (auto simp: idle_def)
qed (auto simp: idle_def noted_def dest: no_execution)

lemma record_event_journal:
  assumes "record_event D i w = (r, w')" "payload_ok (ai_payload i)" "crypto_ok (dd_lib D) (dd_key D)"
    "journal_good (dd_lib D) (dd_key D) (w_journal w) evs"
  shows "\<exists>new. journal_good (dd_lib D) (dd_key D) (w_journal w') (evs @ new)"
proof -
  obtain q J where a: "journal_append (dd_lib D) (dd_key D) (dd_screen D) (dd_stamp D (w_stamps w)) i (w_journal w) = (q, J)"
    by fastforce
  then have J: "w_journal w' = J"
    using assms(1) by (auto simp: record_event_def Let_def noted_def split: sum.splits)
  show ?thesis
  proof (cases q)
    case (Inl e)
    then have "J = w_journal w" using a by (auto simp: journal_append_def Let_def split: sum.splits if_splits)
    then show ?thesis using J assms(4) by (metis append_Nil2)
  next
    case (Inr e)
    then show ?thesis using append_good [OF assms(4,3,2)] a J by blast
  qed
qed

interpretation journal: session_effects "keeps_journal D" D for D
proof
  show "act_within (keeps_journal D) (record_event D i)" if "payload_ok (ai_payload i)" for i
    by (rule act_withinI) (use record_event_journal [OF _ that] in \<open>auto simp: keeps_journal_def\<close>)
  show "keeps_journal D w w' \<Longrightarrow> keeps_journal D w' w'' \<Longrightarrow> keeps_journal D w w''" for w w' w''
    unfolding keeps_journal_def by (metis append.assoc)
qed (auto simp: keeps_journal_def noted_def intro: exI [of _ "[]"])

lemma mediate_governed: "act_within (governs D) (mediate D I req h)"
proof (rule act_withinI)
  fix w r w' assume m: "mediate D I req h w = (r, w')"
  show "governs D w w'"
  proof (cases "assertTenantContext (dd_tenantContext D)")
    case (Inl e)
    then have "w' = w" using m by (simp add: mediate_def act_seq_lift)
    then show ?thesis by (simp add: governs_refl)
  next
    case (Inr u)
    then have ten: "assertTenantContext (dd_tenantContext D) = Inr ()" by simp
    show ?thesis
    proof (cases "judged D req")
      case (Inl e)
      then show ?thesis using mediate_runs [OF ten m] by (simp add: governs_refl)
    next
      case (Inr v)
      then obtain d res t where "w_log w' = w_log w @ t" "prefix t (mediate_log D req h v d res)"
        using mediate_runs [OF ten m] by auto
      then show ?thesis
        using exec_governed_prefix [OF exec_governed_mediate [OF Inr]] unfolding governs_def by blast
    qed
  qed
qed

lemma gate_idle: "act_within idle (gate D I req)"
proof (rule act_withinI)
  fix w r w' assume g: "gate D I req w = (r, w')"
  show "idle w w'"
  proof (cases "judged D req")
    case (Inl e)
    then show ?thesis using gate_runs [OF g] by (simp add: idle_def)
  next
    case (Inr v)
    then obtain d t where t: "w_log w' = w_log w @ t" "prefix t (gate_log req v d)"
      using gate_runs [OF g] by auto
    have "Executed h c \<notin> set (gate_log req v d)" for h c
      using no_exec_call_log by (auto simp: gate_log_def Let_def)
    then show ?thesis using t by (auto simp: idle_def dest: set_mono_prefix)
  qed
qed

lemma post_keeps: "act_within (keeps_journal D) (post_request D r)"
  by (rule act_withinI) (auto simp: post_request_def noted_def keeps_journal_def intro: exI [of _ "[]"] split: prod.splits)

lemma await_keeps: "act_within (keeps_journal D) (await_decision D h)"
  by (rule act_withinI) (auto simp: await_decision_def noted_def keeps_journal_def intro: exI [of _ "[]"] split: prod.splits)

lemma exec_keeps: "act_within (keeps_journal D) (exec_command D h cmd)"
  by (rule act_withinI) (auto simp: exec_command_def noted_def keeps_journal_def intro: exI [of _ "[]"] split: prod.splits)

lemma judge_settle_keep:
  "act_within (keeps_journal D) (judge_call D req)"
  "act_within (keeps_journal D) (settle_call D req v)"
  by (auto simp: judge_call_def settle_call_def intro!: journal.daemon_withins post_keeps await_keeps)

lemma mediate_keeps: "act_within (keeps_journal D) (mediate D I req h)"
  by (auto simp: mediate_def execute_call_def Let_def deliver_message_def
      intro!: journal.daemon_withins judge_settle_keep exec_keeps)

lemma gate_keeps: "act_within (keeps_journal D) (gate D I req)"
  by (auto simp: gate_def deliver_message_def intro!: journal.daemon_withins judge_settle_keep)

end
