(* ===== verification/Safety.thy ===== *)
theory Safety
  imports Drivers
begin

text \<open>
  The properties of the daemon, over the protocols of theory \<open>Governance\<close> and the relations of
  theory \<open>Drivers\<close>: what a call does and in which order, what a session may execute, that the
  journal of a session verifies, the tenant lock, the identity gate, the teardown of the
  sandbox, the lease of a session that ends cleanly, and that calls and sessions come to an
  end.
\<close>

section \<open>The protocol of a call\<close>

text \<open>
  C7: the protocol of a mediated call. The calls the daemon makes on its collaborators are, in
  this order and up to the first that throws: the record of the verdict; where the policy
  requires it, the approval request, the wait for a decision and the record of its outcome, an
  error being a denial; and then, only where the verdict allows or a person approved, the
  execution of the command with its placeholders resolved, its record with the names of the
  secrets and the redacted result, and otherwise the verdict. A placeholder the vault cannot
  resolve ends the call before the execution. A call that returns has made all of them.
\<close>

theorem mediate_protocol:
  assumes "assertTenantContext (dd_tenantContext D) = Inr ()" "mediate D I req h w = (r, w')"
  shows "case judged D req of
      Inl e \<Rightarrow> r = Inl e \<and> w' = w
    | Inr v \<Rightarrow> \<exists>d res t. w_log w' = w_log w @ t \<and> prefix t (mediate_log D req h v d res)
        \<and> (\<forall>out. r = Inr out \<longrightarrow> t = mediate_log D req h v d res
             \<and> (permitted v d \<longrightarrow> (\<exists>cmd. command_of D req = Inr cmd))
             \<and> out = \<lparr>mo_request = req, mo_verdict = v, mo_approved = approved_by v d, mo_executed = permitted v d\<rparr>)"
  by (rule mediate_runs [OF assms])

text \<open>
  C26: the protocol of a gated call is the same up to the settlement; then the effective decision
  is recorded and delivered as a verdict, which is never \<open>require\<close> and allows exactly what the
  policy allows or a person approved. The daemon itself executes nothing.
\<close>

theorem gate_protocol:
  assumes "gate D I req w = (r, w')"
  shows "case judged D req of
      Inl e \<Rightarrow> r = Inl e \<and> w' = w
    | Inr v \<Rightarrow> \<exists>d t. w_log w' = w_log w @ t \<and> prefix t (gate_log req v d)
        \<and> (\<forall>out. r = Inr out \<longrightarrow> t = gate_log req v d
             \<and> out = \<lparr>mo_request = req, mo_verdict = v, mo_approved = approved_by v d, mo_executed = False\<rparr>)"
  by (rule gate_runs [OF assms])

text \<open>
  C28: both ways of governing a call decide alike. From the same world, mediation and the live
  gate reach the same verdict and the same human decision, and mediation executes the call
  exactly when the verdict the gate delivers to the harness allows it.
\<close>

theorem gate_mediate_agree:
  assumes "mediate D I req h w = (Inr a, w1)" "gate D I req w = (Inr b, w2)"
  shows "mo_verdict a = mo_verdict b \<and> mo_approved a = mo_approved b
    \<and> (\<exists>ev. last (w_log w2) = Delivered (VerdictMessage (tcr_id req) (tcr_sessionId req) ev)
         \<and> (mo_executed a \<longleftrightarrow> pv_decision ev = allow))"
proof -
  have ten: "assertTenantContext (dd_tenantContext D) = Inr ()"
    using assms(1) by (cases "assertTenantContext (dd_tenantContext D)") (auto simp: mediate_def act_seq_lift)
  obtain v wa ap ef wb where j: "judge_call D req w = (Inr v, wa)" "settle_call D req v wa = (Inr (ap, ef), wb)"
    and a: "a = \<lparr>mo_request = req, mo_verdict = v, mo_approved = ap, mo_executed = (ef = allow)\<rparr>"
    using assms(1) unfolding mediate_staged [OF ten]
    by (auto simp: act_bind_eq_Inr dest: act_seq_ret_Inr)
  obtain wc where g: "act_seq (record_event D (gate_event req ef))
           (act_bind (act_lift (PolicyVerdict_parse (effective_verdict v ef))) (\<lambda>ev.
             act_seq (deliver_message I (VerdictMessage (tcr_id req) (tcr_sessionId req) ev))
               (act_ret \<lparr>mo_request = req, mo_verdict = v, mo_approved = ap, mo_executed = False\<rparr>))) wb = (Inr b, w2)"
    using assms(2) j by (simp add: gate_def act_bind_def)
  have "w_log w2 = w_log wb @ [Journaled (gate_event req ef),
      Delivered (VerdictMessage (tcr_id req) (tcr_sessionId req) (effective_verdict v ef))]"
    using gate_stage_logs [of req ef "tcr_id req" "tcr_sessionId req" v wb D I
        "\<lparr>mo_request = req, mo_verdict = v, mo_approved = ap, mo_executed = False\<rparr>"]
    unfolding g by (simp add: logs_def)
  moreover have "mo_verdict b = v" "mo_approved b = ap" using gate_stage_Inr [OF g] by simp_all
  ultimately show ?thesis using a by (auto simp: effective_verdict_def)
qed

section \<open>What sessions execute\<close>

text \<open>
  C1: nothing runs ungoverned. In every session the mediated driver runs, to whatever end it
  comes, each command the sandbox executes is the resolved command of some call, and stands
  right after the complete record of that call: the verdict of the policy on it, and, unless
  that verdict is \<open>allow\<close>, the request for approval, a positive human decision and its record.
\<close>

theorem governed_execution:
  assumes "runMediated D I opts w = Some (r, w')"
  shows "\<exists>t. w_log w' = w_log w @ t \<and> (\<forall>pre h cmd post. t = pre @ Executed h cmd # post \<longrightarrow>
     (\<exists>req v d. suffix (call_log req v d) pre \<and> judged D req = Inr v \<and> permitted v d
        \<and> command_of D req = Inr cmd))"
proof -
  have "governs D w w'"
    using governed.runMediated_within [of D I opts, OF mediate_governed] assms unfolding run_within_def by blast
  then show ?thesis unfolding governs_def exec_governed_def .
qed

text \<open>
  A live session executes nothing itself, whatever the harness asks and however it ends: the
  harness runs its own tools, and the daemon only decides.
\<close>

theorem live_executes_nothing:
  assumes "runLive D I opts w = Some (r, w')"
  shows "\<exists>t. w_log w' = w_log w @ t \<and> (\<forall>h cmd. Executed h cmd \<notin> set t)"
proof -
  have "idle w w'"
    using idle.runLive_within [of D I opts, OF gate_idle] assms unfolding run_within_def by blast
  then show ?thesis unfolding idle_def .
qed

text \<open>
  The record of a session is sound. A mediated session over a journal that verifies leaves a
  journal that verifies, even when the session fails half-way: the events before it are still
  there, in front, and the offline verifier accepts the file and its head.
\<close>

theorem session_journal_verifies:
  assumes "crypto_ok (dd_lib D) (dd_key D)" "journal_good (dd_lib D) (dd_key D) (w_journal w) evs"
    and "runMediated D I opts w = Some (r, w')"
  shows "\<exists>new. readEvents (dd_lib D) (jf_log (w_journal w')) = Inr (evs @ new)
     \<and> (evs @ new \<noteq> [] \<longrightarrow>
          verifyJournalFile (dd_lib D) path (w_journal w') (publicKeyFromPrivate (dd_lib D) (dd_key D))
          = Inr \<lparr>vr_ok = True, vr_count = length (evs @ new), vr_errors = []\<rparr>)"
proof -
  have "keeps_journal D w w'"
    using journal.runMediated_within [of D I opts, OF mediate_keeps] assms(3) unfolding run_within_def by blast
  then obtain new where g: "journal_good (dd_lib D) (dd_key D) (w_journal w') (evs @ new)"
    using assms(1,2) unfolding keeps_journal_def by blast
  then show ?thesis
    using journal_good_verifies [OF g assms(1)] by (intro exI [of _ new]) (simp add: journal_good_def)
qed

section \<open>Gates at the entry\<close>

lemma tenant_free_calls:
  "record_event (D\<lparr>dd_tenantContext := ctx\<rparr>) = record_event D"
  "post_request (D\<lparr>dd_tenantContext := ctx\<rparr>) = post_request D"
  "await_decision (D\<lparr>dd_tenantContext := ctx\<rparr>) = await_decision D"
  "with_store (D\<lparr>dd_tenantContext := ctx\<rparr>) m = with_store D m"
  "reaped_event (D\<lparr>dd_tenantContext := ctx\<rparr>) = reaped_event D"
  by (intro ext, simp add: record_event_def post_request_def await_decision_def with_store_def reaped_event_def)+

lemma tenant_free_stages:
  "judge_call (D\<lparr>dd_tenantContext := ctx\<rparr>) req = judge_call D req"
  "settle_call (D\<lparr>dd_tenantContext := ctx\<rparr>) req v = settle_call D req v"
  "record_all (D\<lparr>dd_tenantContext := ctx\<rparr>) is = record_all D is"
  by (simp_all add: judge_call_def settle_call_def tenant_free_calls)
    (induction "is", simp_all add: tenant_free_calls)

lemma gate_ignores_tenant: "gate (D\<lparr>dd_tenantContext := ctx\<rparr>) I req = gate D I req"
  by (simp only: gate_def tenant_free_stages tenant_free_calls)

lemma recover_ignores_tenant: "recoverSessions (D\<lparr>dd_tenantContext := ctx\<rparr>) = recoverSessions D"
  by (cases "dd_sessionStore D") (simp_all add: recoverSessions_def tenant_free_stages tenant_free_calls)

text \<open>
  C32: the tenant lock. A daemon serving any tenant but the single operator neither mediates a
  call nor starts a session: each of them throws the lock's error with the world untouched. The
  live gate and the recovery, however, do not depend on the tenant at all.
\<close>

theorem tenant_lock:
  "(tx_tenantId (dd_tenantContext D) \<noteq> SINGLE_TENANT \<longrightarrow>
     (\<exists>e. mediate D I req h w = (Inl e, w) \<and> runMediated D I opts w = Some (Inl e, w)
        \<and> runLive D I opts w = Some (Inl e, w)))
   \<and> gate (D\<lparr>dd_tenantContext := ctx\<rparr>) I req w = gate D I req w
   \<and> recoverSessions (D\<lparr>dd_tenantContext := ctx\<rparr>) w = recoverSessions D w"
proof (intro conjI impI)
  assume "tx_tenantId (dd_tenantContext D) \<noteq> SINGLE_TENANT"
  then obtain e where "assertTenantContext (dd_tenantContext D) = Inl e" by (simp add: assertTenantContext_def)
  then show "\<exists>e. mediate D I req h w = (Inl e, w) \<and> runMediated D I opts w = Some (Inl e, w)
        \<and> runLive D I opts w = Some (Inl e, w)"
    by (simp add: mediate_def act_seq_lift)
      (simp add: runMediated_def runLive_def run_bind_def run_act_def act_lift_def)
qed (simp_all only: gate_ignores_tenant recover_ignores_tenant)

lemma gateIdentity_fails:
  assumes "dd_identityMode D = mode_enforce"
    and "\<And>verify m s i. dd_verifier D = Some verify \<Longrightarrow> ro_manifest opts = Some m \<Longrightarrow>
      ro_signatureB64 opts = Some s \<Longrightarrow> verify m s \<noteq> Verified i"
  obtains reason where "gateIdentity D identity sid opts = verify_failed D sid reason"
proof (cases "\<exists>verify m s. dd_verifier D = Some verify \<and> ro_manifest opts = Some m \<and> ro_signatureB64 opts = Some s")
  case True
  then obtain verify m s where v: "dd_verifier D = Some verify" "ro_manifest opts = Some m" "ro_signatureB64 opts = Some s"
    by blast
  show ?thesis
    using that assms(2) [OF v] v assms(1) by (cases "verify m s") (auto simp: gateIdentity_def)
next
  case False
  then have "gateIdentity D identity sid opts = verify_failed D sid ''no-verification-material''"
    using assms(1) by (auto simp: gateIdentity_def split: option.split)
  then show ?thesis by (rule that)
qed

lemma record_event_shape:
  assumes "record_event D i w = (q, w')"
  shows "\<exists>J. w' = w\<lparr>w_journal := J, w_stamps := w_stamps w + 1,
     w_log := (case q of Inl _ \<Rightarrow> w_log w | Inr _ \<Rightarrow> w_log w @ [Journaled i])\<rparr>"
proof -
  obtain x J where "journal_append (dd_lib D) (dd_key D) (dd_screen D) (dd_stamp D (w_stamps w)) i (w_journal w) = (x, J)"
    by fastforce
  then show ?thesis using assms by (intro exI [of _ J]) (cases x, auto simp: record_event_def Let_def noted_def)
qed

text \<open>
  C31: an enforcing daemon starts no session whose intendant it has not verified: it takes no
  lease, starts nothing, spawns nothing and reads no clock; all it does is record the failure
  and report the refusal, or throw when even that cannot be recorded.
\<close>

theorem enforce_refuses:
  assumes "dd_identityMode D = mode_enforce" "assertTenantContext (dd_tenantContext D) = Inr ()"
    and "\<forall>verify m s i. dd_verifier D = Some verify \<and> ro_manifest opts = Some m \<and> ro_signatureB64 opts = Some s \<longrightarrow>
      verify m s \<noteq> Verified i"
    and "runMediated D I opts w = Some (r, w') \<or> runLive D I opts w = Some (r, w')"
  shows "\<exists>reason J log. w' = w\<lparr>w_journal := J, w_stamps := w_stamps w + 1, w_log := log\<rparr>
    \<and> (r = Inr (refused_session (ro_sessionId opts)) \<and> log = w_log w @ [Journaled
           (event_input ''intendant.verify.failed'' session_owner
             [(''sessionId'', JStr (ro_sessionId opts)), (''reason'', JStr reason), (''mode'', JStr ''enforce'')])]
       \<or> (\<exists>e. r = Inl e) \<and> log = w_log w)"
proof -
  obtain reason where g: "gateIdentity D (ia_identity I) (ro_sessionId opts) opts w = verify_failed D (ro_sessionId opts) reason w"
    using gateIdentity_fails [OF assms(1), of opts] assms(3) by metis
  let ?i = "event_input ''intendant.verify.failed'' session_owner
     [(''sessionId'', JStr (ro_sessionId opts)), (''reason'', JStr reason), (''mode'', JStr ''enforce'')]"
  obtain q w1 where rec: "record_event D ?i w = (q, w1)" by fastforce
  then obtain J where w1: "w1 = w\<lparr>w_journal := J, w_stamps := w_stamps w + 1,
     w_log := (case q of Inl _ \<Rightarrow> w_log w | Inr _ \<Rightarrow> w_log w @ [Journaled ?i])\<rparr>"
    using record_event_shape by blast
  have "w' = w1 \<and> (case q of Inl e \<Rightarrow> r = Inl e | Inr _ \<Rightarrow> r = Inr (refused_session (ro_sessionId opts)))"
    using assms(4) rec assms(1)
    by (cases q) (auto simp: runMediated_def runLive_def assms(2) run_bind_def run_act_def act_lift_def g
        verify_failed_def act_seq_def act_bind_def act_ret_def)
  then show ?thesis
    using w1 by (cases q) (auto intro!: exI [of _ reason] exI [of _ J])
qed

section \<open>The stages of a mediated session\<close>

lemma runMediated_tenant: "assertTenantContext (dd_tenantContext D) = Inl e \<Longrightarrow> runMediated D I opts w = Some (Inl e, w)"
  by (simp add: runMediated_def run_bind_def run_act_def act_lift_def)

text \<open>How a session that settles went.\<close>

lemma runMediated_cases:
  assumes "runMediated D I opts w = Some (r, w')"
  obtains (locked) e where "assertTenantContext (dd_tenantContext D) = Inl e" "r = Inl e" "w' = w"
  | (unverified) e where "gateIdentity D (ia_identity I) (ro_sessionId opts) opts w = (Inl e, w')" "r = Inl e"
  | (refused) uri where "gateIdentity D (ia_identity I) (ro_sessionId opts) opts w = (Inr (False, uri), w')"
      "r = Inr (refused_session (ro_sessionId opts))"
  | (unopened) uri w1 e where "gateIdentity D (ia_identity I) (ro_sessionId opts) opts w = (Inr (True, uri), w1)"
      "open_session D I opts uri (ro_networkEnabled opts = Some True) w1 = (Inl e, w')" "r = Inl e"
  | (ran) uri w1 lease h w2 y w3 z w4 where
      "gateIdentity D (ia_identity I) (ro_sessionId opts) opts w = (Inr (True, uri), w1)"
      "open_session D I opts uri (ro_networkEnabled opts = Some True) w1 = (Inr (lease, h), w2)"
      "run_calls D I (ro_sessionId opts) (\<lambda>req. mediate D I req h) lease w2 = Some (y, w3)"
      "shut_down D I h w3 = (z, w4)"
      "(\<exists>e. r = Inl e) \<and> w' = w4
        \<or> (\<exists>lease' outs. y = Inr (lease', outs) \<and> z = Inr ()
             \<and> end_session D (ro_sessionId opts) lease' outs w4 = (r, w'))"
proof (cases "assertTenantContext (dd_tenantContext D)")
  case (Inl e)
  then show ?thesis using locked [of e] assms runMediated_tenant [of D e I opts w] by auto
next
  case (Inr u)
  then have ten: "assertTenantContext (dd_tenantContext D) = Inr ()" by simp
  obtain q w1 where g: "gateIdentity D (ia_identity I) (ro_sessionId opts) opts w = (q, w1)" by fastforce
  note run = assms [unfolded runMediated_def ten run_bind_def run_act_def act_lift_def, simplified, unfolded g, simplified]
  show ?thesis
  proof (cases q)
    case (Inl e)
    then show ?thesis using unverified [of e] run g by simp
  next
    case (Inr p)
    obtain go uri where p: "p = (go, uri)" by (cases p)
    obtain s w2 where o: "open_session D I opts uri (ro_networkEnabled opts = Some True) w1 = (s, w2)" by fastforce
    show ?thesis
    proof (cases go)
      case False
      then show ?thesis using refused [of uri] run g Inr p by (simp add: act_ret_def)
    next
      case True
      show ?thesis
      proof (cases s)
        case (Inl e)
        then show ?thesis using unopened [of uri w1 e] run g \<open>q = Inr p\<close> p True o by simp
      next
        case (Inr lh)
        obtain lease h where lh: "lh = (lease, h)" by (cases lh)
        have rest: "run_bind (run_finally (run_calls D I (ro_sessionId opts) (\<lambda>req. mediate D I req h) lease) (shut_down D I h))
            (\<lambda>(lease', outs). run_act (end_session D (ro_sessionId opts) lease' outs)) w2 = Some (r, w')"
          using run g \<open>q = Inr p\<close> p True o Inr lh by (simp add: run_bind_def run_act_def [abs_def])
        then obtain y w3 where c: "run_calls D I (ro_sessionId opts) (\<lambda>req. mediate D I req h) lease w2 = Some (y, w3)"
          by (auto simp: run_bind_def run_finally_def split: option.splits)
        obtain z w4 where d: "shut_down D I h w3 = (z, w4)" by fastforce
        have "(\<exists>e. r = Inl e) \<and> w' = w4 \<or> (\<exists>lease' outs. y = Inr (lease', outs) \<and> z = Inr ()
             \<and> end_session D (ro_sessionId opts) lease' outs w4 = (r, w'))"
          using rest c d
          by (cases z; cases y) (auto simp: run_bind_def run_finally_def run_act_def act_finally_def)
        then show ?thesis using ran [of uri w1 lease h w2 y w3 z w4] g \<open>q = Inr p\<close> p True o Inr lh c d by simp
      qed
    qed
  qed
qed

section \<open>The sandbox of a session\<close>

definition unspawned :: "('s, 'c, 'b, 'i) world \<Rightarrow> ('s, 'c, 'b, 'i) world \<Rightarrow> bool" where
  "unspawned w w' \<longleftrightarrow> (\<exists>t. w_log w' = w_log w @ t \<and> (\<forall>spec h. Spawned spec (Some h) \<notin> set t))"

lemma unspawnedI: "w_log w' = w_log w @ t \<Longrightarrow> (\<And>spec h. Spawned spec (Some h) \<notin> set t) \<Longrightarrow> unspawned w w'"
  by (auto simp: unspawned_def)

interpretation unspawned: daemon_effects unspawned D for D
proof
  show "act_within unspawned (record_event D i)" if "payload_ok (ai_payload i)" for i
    by (rule act_withinI)
      (auto simp: record_event_def Let_def noted_def unspawned_def split: prod.splits sum.splits)
  show "unspawned w w' \<Longrightarrow> unspawned w' w'' \<Longrightarrow> unspawned w w''" for w w' w''
    by (auto simp: unspawned_def)
qed (auto simp: unspawned_def list_all_iff)

lemma call_unspawned:
  "act_within unspawned (post_request D r)" "act_within unspawned (await_decision D h')"
  "act_within unspawned (exec_command D h cmd)"
  by (rule act_withinI, auto simp: post_request_def await_decision_def exec_command_def noted_def unspawned_def
      split: prod.splits)+

lemma mediate_unspawned: "act_within unspawned (mediate D I req h)"
  by (auto simp: mediate_def judge_call_def settle_call_def execute_call_def Let_def deliver_message_def
      intro!: unspawned.daemon_withins call_unspawned)

lemma open_session_log:
  assumes "open_session D I opts uri net w = (r, w')"
  shows "\<exists>t. w_log w' = w_log w @ t \<and> (\<forall>spec h. Spawned spec (Some h) \<in> set t \<longrightarrow> (\<exists>lease. r = Inr (lease, h)))"
  using assms
  by (auto simp: open_session_def Let_def acquire_lease_def with_store_def record_event_def start_intendant_def
      on_intendant_def spawn_sandbox_def noted_def act_defs split: prod.splits sum.splits option.splits)

lemma shut_down_log:
  "\<exists>t. w_log (snd (shut_down D I h w)) = w_log w @ TornDown h # t \<and> (\<forall>spec h. Spawned spec (Some h) \<notin> set t)"
  by (auto simp: shut_down_def teardown_sandbox_def stop_intendant_def on_intendant_def noted_def act_defs
      split: prod.splits sum.splits)

text \<open>
  C27: no sandbox is leaked. Once a mediated session has spawned its sandbox, it is torn down
  before the session settles, whether the intendant or a call of it throws or not.
\<close>

theorem sandbox_torn_down:
  assumes "runMediated D I opts w = Some (r, w')" "w_log w' = w_log w @ t" "Spawned spec (Some h) \<in> set t"
  shows "TornDown h \<in> set t"
proof -
  note gate = act_withinD [OF unspawned.gateIdentity_within]
  show ?thesis using assms(1)
  proof (cases rule: runMediated_cases)
    case (unopened uri w1 e)
    then show ?thesis
      using gate [OF unopened(1)] open_session_log [OF unopened(2)] assms(2,3) by (auto simp: unspawned_def)
  next
    case (ran uri w1 lease h' w2 y w3 z w4)
    obtain t1 where t1: "w_log w1 = w_log w @ t1" "Spawned spec (Some h) \<notin> set t1"
      using gate [OF ran(1)] unfolding unspawned_def by blast
    obtain t2 where t2: "w_log w2 = w_log w1 @ t2" "Spawned spec (Some h) \<in> set t2 \<Longrightarrow> h = h'"
      using open_session_log [OF ran(2)] by auto
    have "unspawned w2 w3"
      using unspawned.run_calls_within [where body = "\<lambda>req. mediate D I req h'", OF mediate_unspawned] ran(3)
      unfolding run_within_def by blast
    then obtain t3 where t3: "w_log w3 = w_log w2 @ t3" "Spawned spec (Some h) \<notin> set t3"
      unfolding unspawned_def by blast
    obtain t4 where t4: "w_log w4 = w_log w3 @ TornDown h' # t4" "Spawned spec (Some h) \<notin> set t4"
      using shut_down_log [of D I h' w3] ran(4) by auto
    have "unspawned w4 w'"
      using ran(5) act_withinD [OF unspawned.end_session_within] unspawned.R_refl by blast
    then obtain t5 where t5: "w_log w' = w_log w4 @ t5" "Spawned spec (Some h) \<notin> set t5"
      unfolding unspawned_def by blast
    have t: "t = t1 @ t2 @ t3 @ TornDown h' # t4 @ t5"
      using t1(1) t2(1) t3(1) t4(1) t5(1) assms(2) by simp
    then have "Spawned spec (Some h) \<in> set t2" using assms(3) t1(2) t3(2) t4(2) t5(2) by auto
    then show ?thesis using t t2(2) by simp
  qed (use assms(2,3) in \<open>auto simp: unspawned_def dest!: gate\<close>)
qed

section \<open>Recovery\<close>

lemma record_all_logs: "logs (map Journaled is) w (record_all D is w)"
proof (induction "is" arbitrary: w)
  case Nil
  then show ?case by (simp add: logs_ret)
next
  case (Cons i "is")
  have "logs ([Journaled i] @ map Journaled is) w (act_seq (record_event D i) (record_all D is) w)"
    by (intro logs_seq record_event_logs Cons.IH)
  then show ?case by simp
qed

lemma record_event_store: "w_store (snd (record_event D i w)) = w_store w"
  by (auto simp: record_event_def Let_def noted_def split: prod.split sum.split)

lemma record_all_store: "w_store (snd (record_all D is w)) = w_store w"
proof (induction "is" arbitrary: w)
  case (Cons i "is")
  obtain q w1 where r: "record_event D i w = (q, w1)" by fastforce
  then have "w_store w1 = w_store w" using record_event_store [of D i w] by simp
  then show ?case using r Cons.IH [of w1] by (cases q) (simp_all add: act_seq_run)
qed (simp add: act_ret_def)

text \<open>
  Crash recovery accounts for every lease it takes away. It reaps exactly the active leases
  that have expired at its reading of the clock, no other, and records each of them, in order;
  it returns them when all are recorded, and a record that fails stops the rest of the records
  though the leases are already reaped.
\<close>

theorem recovery_recorded:
  fixes D :: "('sk, 'pk, string option, 'c, 'b) daemon" and w :: "(string option, 'c, 'b, 'i) world"
  assumes "dd_sessionStore D = Some FileSessionStore" "leases_ok (so_load FileSessionStore (w_store w))"
    and "recoverSessions D w = (r, w')"
    and "gone = map (\<lambda>l. l\<lparr>sl_status := reaped\<rparr>) (filter (expired (dd_nowMs D (w_ticks w)))
      (list_sessions FileSessionStore (w_store w)))"
  shows "logs (map (\<lambda>l. Journaled (reaped_event D l)) gone) w (r, w')
    \<and> (\<forall>ls. r = Inr ls \<longrightarrow> ls = gone)
    \<and> (\<forall>sid. get_session FileSessionStore sid (w_store w') = map_option
         (\<lambda>l. if expired (dd_nowMs D (w_ticks w)) l then l\<lparr>sl_status := reaped\<rparr> else l)
         (get_session FileSessionStore sid (w_store w)))"
proof -
  let ?now = "dd_nowMs D (w_ticks w)"
  obtain q s where reap: "reapExpired FileSessionStore ?now (w_store w) = (q, s)" by fastforce
  have load: "q = Inr gone" "\<And>k. map_of (so_load FileSessionStore s) k = map_option
        (\<lambda>l. if expired ?now l then l\<lparr>sl_status := reaped\<rparr> else l) (map_of (so_load FileSessionStore (w_store w)) k)"
    using fil.reap_load [OF reap assms(2)] assms(4) by (simp_all add: list_sessions_def)
  let ?w = "w\<lparr>w_store := s, w_ticks := w_ticks w + 1\<rparr>"
  have run: "(r, w') = act_seq (record_all D (map (reaped_event D) gone)) (act_ret gone) ?w"
    using assms(3) reap load(1) unfolding recoverSessions_def assms(1)
    by (simp add: with_store_def act_bind_def)
  have "logs (map Journaled (map (reaped_event D) gone) @ []) ?w (r, w')"
    unfolding run by (intro logs_seq record_all_logs logs_ret)
  then have l: "logs (map (\<lambda>l. Journaled (reaped_event D l)) gone) w (r, w')"
    by (simp add: logs_def comp_def)
  have "w_store w' = s"
    using run record_all_store [of D "map (reaped_event D) gone" ?w]
    by (auto simp: act_seq_def act_bind_def act_ret_def split: prod.splits sum.splits)
  moreover have "\<forall>ls. r = Inr ls \<longrightarrow> ls = gone" using act_seq_ret_Inr run by metis
  ultimately show ?thesis using l load(2) by (simp add: get_session_def)
qed

section \<open>The lease of a session\<close>

definition same_store :: "('s, 'c, 'b, 'i) world \<Rightarrow> ('s, 'c, 'b, 'i) world \<Rightarrow> bool" where
  "same_store w w' \<longleftrightarrow> w_store w' = w_store w"

interpretation same_store: effect_order same_store
  by unfold_locales (simp_all add: same_store_def)

lemma calls_same_store:
  "act_within same_store (record_event D i)" "act_within same_store (post_request D q)"
  "act_within same_store (await_decision D h')" "act_within same_store (exec_command D h cmd)"
  "act_within same_store (on_intendant es m)" "act_within same_store (spawn_sandbox D spec)"
  "act_within same_store (teardown_sandbox D h)"
  by (rule act_withinI, auto simp: same_store_def record_event_def Let_def noted_def post_request_def
      await_decision_def exec_command_def on_intendant_def spawn_sandbox_def teardown_sandbox_def
      split: prod.splits sum.splits)+

lemma mediate_same_store: "act_within same_store (mediate D I req h)"
  by (auto simp: mediate_def judge_call_def settle_call_def execute_call_def Let_def deliver_message_def
      intro!: same_store.within_intros calls_same_store)

lemma gateIdentity_same_store: "act_within same_store (gateIdentity D identity sid opts)"
  by (auto simp: gateIdentity_def verify_failed_def intro!: same_store.within_intros calls_same_store
      split: option.split verify_verdict.split)

lemma drive_invariant:
  fixes nxt :: "('w, tool_call_request option) act" and K :: "'st \<Rightarrow> 'w \<Rightarrow> bool"
  assumes "drive nxt handler st w = Some (r, w')" "K st w"
    and "\<And>st w r w'. K st w \<Longrightarrow> nxt w = (r, w') \<Longrightarrow> K st w'"
    and "\<And>req st w st' w'. K st w \<Longrightarrow> handler req st w = (st', w') \<Longrightarrow> K st' w'"
  shows "(\<exists>st'. K st' w') \<and> (\<forall>st'. r = Inr st' \<longrightarrow> K st' w')"
proof -
  define P where "P nxt handler = ((\<forall>st w r w'. K st w \<longrightarrow> nxt w = (r, w') \<longrightarrow> K st w')
     \<and> (\<forall>req st w st' w'. K st w \<longrightarrow> handler req st w = (st', w') \<longrightarrow> K st' w'))"
    for nxt :: "('w, tool_call_request option) act" and handler :: "tool_call_request \<Rightarrow> 'st \<Rightarrow> 'w \<Rightarrow> 'st \<times> 'w"
  have "P nxt handler \<Longrightarrow> K st w \<Longrightarrow> (\<exists>st'. K st' (snd p)) \<and> (\<forall>st'. fst p = Inr st' \<longrightarrow> K st' (snd p))"
    if "drive nxt handler st w = Some p" for nxt :: "('w, tool_call_request option) act"
      and handler :: "tool_call_request \<Rightarrow> 'st \<Rightarrow> 'w \<Rightarrow> 'st \<times> 'w" and st w p
  proof (induction rule: drive.raw_induct [OF _ that])
    case (1 drv nxt handler st w p)
    obtain r w1 where n: "nxt w = (r, w1)" by fastforce
    have i1: "K st w1" using 1(3,4) n unfolding P_def by blast
    show ?case
    proof (cases r)
      case (Inl e)
      then show ?thesis using 1(2) n i1 by auto
    next
      case (Inr q)
      show ?thesis
      proof (cases q)
        case None
        then show ?thesis using 1(2) n Inr i1 by auto
      next
        case (Some req)
        obtain st1 w2 where h: "handler req st w1 = (st1, w2)" by fastforce
        then have i2: "K st1 w2" using 1(3) i1 unfolding P_def by blast
        have "drv nxt handler st1 w2 = Some p" using 1(2) n Inr Some h by simp
        from 1(1) [OF this 1(3) i2] show ?thesis .
      qed
    qed
  qed
  moreover have "P nxt handler" unfolding P_def using assms(3,4) by blast
  ultimately show ?thesis using assms(1,2) by fastforce
qed

text \<open>The store holds the session's lease, active.\<close>

definition lease_held :: "string \<Rightarrow> session_lease option \<Rightarrow> (string option, 'c, 'b, 'i) world \<Rightarrow> bool" where
  "lease_held sid lease w \<longleftrightarrow> leases_ok (so_load FileSessionStore (w_store w))
     \<and> (\<exists>l. lease = Some l \<and> sl_sessionId l = sid
          \<and> map_of (so_load FileSessionStore (w_store w)) sid = Some l \<and> sl_status l = active)"

lemma lease_held_cong: "same_store w w' \<Longrightarrow> lease_held sid lease w' = lease_held sid lease w"
  by (simp add: lease_held_def same_store_def)

lemma acquire_holds:
  assumes "acquire_lease D sid w = (Inr lease, w')" "dd_sessionStore D = Some FileSessionStore"
    "leases_ok (so_load FileSessionStore (w_store w))"
  shows "lease_held sid lease w'"
proof -
  obtain l s where a: "acquire FileSessionStore sid (dd_instanceId D) (dd_nowMs D (w_ticks w)) (dd_leaseTtlMs D) (w_store w) = (Inr l, s)"
    and l: "lease = Some l" "w_store w' = s"
    using assms(1,2) by (auto simp: acquire_lease_def act_bind_eq_Inr with_store_def act_ret_def split: prod.splits)
  note f = fil.acquire_Inr [OF a assms(3)]
  have "sl_sessionId l = sid" "sl_status l = active" using f(1) by (simp_all add: grant_lease_def)
  moreover have "leases_ok (so_load FileSessionStore s)"
    using f(2,4) assms(3) \<open>sl_sessionId l = sid\<close> by (auto intro: rec_ok_update keyed_update)
  ultimately show ?thesis using l f(2) by (simp add: lease_held_def)
qed

lemma heartbeat_holds:
  assumes "lease_held sid lease w" "heartbeat_lease D lease w = (r, w')" "dd_sessionStore D = Some FileSessionStore"
  shows "lease_held sid (case r of Inl _ \<Rightarrow> lease | Inr lease' \<Rightarrow> lease') w'"
proof -
  obtain l where l: "lease = Some l" "sl_sessionId l = sid" "sl_status l = active"
    "map_of (so_load FileSessionStore (w_store w)) sid = Some l"
    and ok: "leases_ok (so_load FileSessionStore (w_store w))"
    using assms(1) by (auto simp: lease_held_def)
  obtain q s where h: "heartbeat FileSessionStore l (dd_nowMs D (w_ticks w)) (dd_leaseTtlMs D) (w_store w) = (q, s)"
    by fastforce
  have w': "w' = w\<lparr>w_store := s, w_ticks := w_ticks w + 1\<rparr>" "r = map_sum id Some q"
    using assms(2,3) l(1) h by (auto simp: heartbeat_lease_def with_store_def act_bind_def act_ret_def split: sum.splits)
  show ?thesis
  proof (cases q)
    case (Inl e)
    then have "s = w_store w" using h by (auto simp: heartbeat_def Let_def split: option.splits sum.splits if_splits)
    then show ?thesis using assms(1) w' Inl by (simp add: lease_held_def)
  next
    case (Inr l')
    have n: "l' = l\<lparr>sl_heartbeatAt := toISOString (dd_nowMs D (w_ticks w)),
         sl_expiresAt := toISOString (dd_nowMs D (w_ticks w) + dd_leaseTtlMs D)\<rparr>"
      "so_load FileSessionStore s = AList.update sid l' (so_load FileSessionStore (w_store w))" "lease_ok l'"
      using fil.heartbeat_Inr [OF h [unfolded Inr] ok] l by auto
    have "leases_ok (so_load FileSessionStore s)"
      using n ok l(2) by (auto intro!: rec_ok_update keyed_update)
    then show ?thesis using w' Inr n l by (simp add: lease_held_def)
  qed
qed

lemma release_releases:
  assumes "lease_held sid lease w" "release_lease D lease w = (r, w')" "dd_sessionStore D = Some FileSessionStore"
  shows "r = Inr () \<and> (\<exists>l. get_session FileSessionStore sid (w_store w') = Some l \<and> sl_status l = released)"
proof -
  obtain l where l: "lease = Some l" "sl_sessionId l = sid" "sl_status l = active"
    "map_of (so_load FileSessionStore (w_store w)) sid = Some l"
    and ok: "leases_ok (so_load FileSessionStore (w_store w))"
    using assms(1) by (auto simp: lease_held_def)
  obtain q s where h: "release FileSessionStore l (dd_nowMs D (w_ticks w)) (w_store w) = (q, s)" by fastforce
  have "w_store w' = s" "r = q"
    using assms(2,3) l(1) h by (auto simp: release_lease_def with_store_def)
  then show ?thesis using fil.release_load [OF h ok] l by (simp add: get_session_def)
qed

lemma open_session_holds:
  assumes "open_session D I opts uri net w = (r, w')" "dd_sessionStore D = Some FileSessionStore"
    "leases_ok (so_load FileSessionStore (w_store w))"
  shows "case r of
      Inr (lease, h) \<Rightarrow> lease_held (ro_sessionId opts) lease w'
    | Inl _ \<Rightarrow> w_store w' = w_store w \<or> (\<exists>lease. lease_held (ro_sessionId opts) lease w')"
proof -
  obtain q w1 where a: "acquire_lease D (ro_sessionId opts) w = (q, w1)" by fastforce
  show ?thesis
  proof (cases q)
    case (Inl e)
    then have "w_store w1 = w_store w" using a assms(2)
      by (auto simp: acquire_lease_def with_store_def acquire_def Let_def act_bind_def act_ret_def
          split: prod.splits sum.splits if_splits)
    then show ?thesis using assms(1) a Inl by (auto simp: open_session_def Let_def act_bind_def)
  next
    case (Inr lease)
    let ?rest = "act_seq (record_event D (started_event (ro_sessionId opts) (ia_identity I) uri))
          (act_seq (start_intendant I (ro_sessionId opts))
            (act_bind (spawn_sandbox D \<lparr>sp_image = (case ro_image opts of None \<Rightarrow> ''agp-sandbox:v0'' | Some i \<Rightarrow> i),
                sp_sessionId = ro_sessionId opts, sp_networkEnabled = net\<rparr>)
              (\<lambda>h. act_ret (lease, h))))"
    have run: "?rest w1 = (r, w')" using assms(1) a Inr by (simp add: open_session_def Let_def act_bind_def [of "acquire_lease D (ro_sessionId opts)"])
    have "act_within same_store ?rest"
      by (auto simp: start_intendant_def intro!: same_store.within_intros calls_same_store)
    then have "same_store w1 w'" using run by (rule act_withinD)
    then have "lease_held (ro_sessionId opts) lease w'"
      using lease_held_cong acquire_holds [OF a [unfolded Inr] assms(2,3)] by blast
    moreover have "lease' = lease" if "r = Inr (lease', h)" for lease' h
      using run that by (auto simp: act_seq_def act_bind_eq_Inr act_ret_def)
    ultimately show ?thesis by (cases r) auto
  qed
qed

lemma run_calls_holds:
  fixes w :: "(string option, 'c, 'b, 'i) world"
  assumes "run_calls D I sid (\<lambda>req. mediate D I req h) lease w = Some (r, w')" "lease_held sid lease w"
    "dd_sessionStore D = Some FileSessionStore"
  shows "case r of Inr (lease', _) \<Rightarrow> lease_held sid lease' w' | Inl _ \<Rightarrow> \<exists>lease'. lease_held sid lease' w'"
proof -
  define K :: "live \<Rightarrow> (string option, 'c, 'b, 'i) world \<Rightarrow> bool" where "K st w \<longleftrightarrow> lease_held sid (fst st) w" for st w
  obtain p w1 where d: "drive (on_intendant [] (ri_next I sid)) (handle_call D (\<lambda>req. mediate D I req h)) (lease, [], []) w = Some (p, w1)"
    and e: "w' = w1" "\<And>x y. r = Inr (x, y) \<Longrightarrow> \<exists>errs. p = Inr (x, y, errs)"
    using assms(1) by (auto simp: run_calls_def run_bind_def run_act_def act_ret_def act_throw_def
        split: option.splits sum.splits if_splits)
  have "(\<exists>st'. K st' w1) \<and> (\<forall>st'. p = Inr st' \<longrightarrow> K st' w1)"
  proof (rule drive_invariant [OF d])
    show "K (lease, [], []) w" using assms(2) by (simp add: K_def)
    show "K st w'" if "K st w" "on_intendant [] (ri_next I sid) w = (r, w')" for st w r w'
      using that lease_held_cong act_withinD [OF calls_same_store(5)] unfolding K_def by blast
    show "K st' w'" if k: "K st w" and hc: "handle_call D (\<lambda>req. mediate D I req h) req st w = (st', w')" for req st w st' w'
    proof -
      obtain le outs errs where st: "st = (le, outs, errs)" by (cases st)
      obtain q w2 where m: "mediate D I req h w = (q, w2)" by fastforce
      have h2: "lease_held sid le w2"
        using k st lease_held_cong [OF act_withinD [OF mediate_same_store m]] by (simp add: K_def)
      obtain b w3 where hb: "heartbeat_lease D le w2 = (b, w3)" by fastforce
      show ?thesis
        using hc st m h2 hb heartbeat_holds [OF h2 hb assms(3)]
        by (cases q; cases b) (auto simp: handle_call_def K_def)
    qed
  qed
  then show ?thesis using e by (cases r) (auto simp: K_def)
qed

text \<open>
  Leases record how sessions end. A mediated session over the file store that returns has
  released its lease, unless it was refused and never took one; a session that throws leaves
  its lease active, to expire and be reaped by a later recovery, if it had come to take one.
\<close>

theorem lease_after_session:
  fixes D :: "('sk, 'pk, string option, 'c, 'b) daemon" and w :: "(string option, 'c, 'b, 'i) world"
  assumes "dd_sessionStore D = Some FileSessionStore" "leases_ok (so_load FileSessionStore (w_store w))"
    and "runMediated D I opts w = Some (r, w')"
  shows "case r of
      Inr res \<Rightarrow> if sr_refused res then w_store w' = w_store w
        else (\<exists>l. get_session FileSessionStore (ro_sessionId opts) (w_store w') = Some l \<and> sl_status l = released)
    | Inl e \<Rightarrow> w_store w' = w_store w
        \<or> (\<exists>l. get_session FileSessionStore (ro_sessionId opts) (w_store w') = Some l \<and> sl_status l = active)"
proof -
  note gate = act_withinD [OF gateIdentity_same_store]
  have active: "\<exists>l. get_session FileSessionStore (ro_sessionId opts) (w_store u) = Some l \<and> sl_status l = active"
    if "lease_held (ro_sessionId opts) lease u" for lease and u :: "(string option, 'c, 'b, 'i) world"
    using that by (auto simp: lease_held_def get_session_def)
  show ?thesis using assms(3)
  proof (cases rule: runMediated_cases)
    case (unopened uri w1 e)
    have "w_store w1 = w_store w" using gate [OF unopened(1)] by (simp add: same_store_def)
    then show ?thesis using open_session_holds [OF unopened(2) assms(1)] assms(2) active unopened(3) by auto
  next
    case (ran uri w1 lease h w2 y w3 z w4)
    have "w_store w1 = w_store w" using gate [OF ran(1)] by (simp add: same_store_def)
    then have h2: "lease_held (ro_sessionId opts) lease w2"
      using open_session_holds [OF ran(2) assms(1)] assms(2) by simp
    have "act_within same_store (shut_down D I h)"
      by (auto simp: shut_down_def stop_intendant_def intro!: same_store.within_intros calls_same_store)
    then have s34: "same_store w3 w4" using ran(4) by (rule act_withinD)
    have h4: "\<exists>le. lease_held (ro_sessionId opts) le w4"
      "y = Inr (le, outs) \<Longrightarrow> lease_held (ro_sessionId opts) le w4" for le outs
      using run_calls_holds [OF ran(3) h2 assms(1)] lease_held_cong [OF s34] by (auto split: sum.splits)
    show ?thesis using ran(5)
    proof (elim disjE exE conjE)
      fix e assume "r = Inl e" "w' = w4"
      then show ?thesis using h4(1) active by auto
    next
      fix le outs assume y: "y = Inr (le, outs)" and e: "end_session D (ro_sessionId opts) le outs w4 = (r, w')"
      obtain b w5 where b: "record_event D (ended_event (ro_sessionId opts) (length outs)) w4 = (b, w5)" by fastforce
      have h5: "lease_held (ro_sessionId opts) le w5"
        using lease_held_cong [OF act_withinD [OF calls_same_store(1) b]] h4(2) [OF y] by simp
      obtain c w6 where c: "release_lease D le w5 = (c, w6)" by fastforce
      show ?thesis
        using e b c active [OF h5] release_releases [OF h5 c assms(1)]
        by (cases b) (auto simp: end_session_def act_seq_run act_ret_def act_seq_def act_bind_def)
    qed
  qed (auto simp: same_store_def refused_session_def dest!: gate)
qed

end
