(* ===== verification/Liveness.thy ===== *)
theory Liveness
  imports Safety
begin

text \<open>
  That the daemon gets to an end: a call whose collaborators answer is settled, and a session
  of an intendant that stops asking returns. The concrete daemon at the end, with the console
  channel, the recording sandbox and an intendant of finitely many calls, meets the hypotheses
  of all properties.
\<close>

section \<open>Actions that succeed\<close>

definition journal_usable :: "('sk, 'pk, 's, 'c, 'b) daemon \<Rightarrow> ('s, 'c, 'b, 'i) world \<Rightarrow> bool" where
  "journal_usable D w \<longleftrightarrow> (\<exists>evs. journal_good (dd_lib D) (dd_key D) (w_journal w) evs)"

definition succeeds :: "('s, 'c, 'b, 'i) world set \<Rightarrow> (('s, 'c, 'b, 'i) world, 'a) act \<Rightarrow> bool" where
  "succeeds W m \<longleftrightarrow> (\<forall>w \<in> W. \<exists>x. \<exists>w' \<in> W. m w = (Inr x, w'))"

lemma succeeds_ret: "succeeds W (act_ret x)"
  by (simp add: succeeds_def act_ret_def)

lemma succeeds_lift: "r = Inr x \<Longrightarrow> succeeds W (act_lift r)"
  by (simp add: succeeds_def act_lift_def)

lemma succeeds_bind:
  "succeeds W m \<Longrightarrow> (\<And>x. succeeds W (f x)) \<Longrightarrow> succeeds W (act_bind m f)"
  unfolding succeeds_def act_bind_def by fastforce

lemma succeeds_bind_value:
  "(\<And>w x w'. m w = (Inr x, w') \<Longrightarrow> P x) \<Longrightarrow> succeeds W m \<Longrightarrow> (\<And>x. P x \<Longrightarrow> succeeds W (f x)) \<Longrightarrow> succeeds W (act_bind m f)"
  unfolding succeeds_def act_bind_def by fastforce

lemma succeeds_seq: "succeeds W m \<Longrightarrow> succeeds W k \<Longrightarrow> succeeds W (act_seq m k)"
  unfolding act_seq_def by (rule succeeds_bind)

lemmas succeeds_intros = succeeds_ret succeeds_bind succeeds_seq

text \<open>What the collaborators of the daemon have to do for a call to be settled.\<close>

definition collaborators_answer :: "('sk, 'pk, 's, 'c, 'b) daemon \<Rightarrow> ('i, 'x) intendant_adapter_scheme \<Rightarrow> bool" where
  "collaborators_answer D I \<longleftrightarrow>
     crypto_ok (dd_lib D) (dd_key D) \<and> (\<forall>n. lib_datetime (dd_lib D) (dd_stamp D n)) \<and> (\<forall>e. dd_screen D e = Inr ())
     \<and> (\<forall>q c. \<exists>h c'. ca_post (dd_channel D) q c = (Inr h, c'))
     \<and> (\<forall>h cmd b. \<exists>x b'. sb_exec (dd_sandbox D) h cmd b = (Inr x, b'))
     \<and> (\<forall>m i. \<exists>i'. ia_deliver I m i = (Inr (), i'))"

lemma record_succeeds:
  assumes "collaborators_answer D I" "ai_kind i \<noteq> []" "ai_correlation_id i = None"
    "ai_gsb_receipt_tip_hash i = None" "payload_ok (ai_payload i)"
  shows "succeeds {w. journal_usable D w} (record_event D i)"
  unfolding succeeds_def
proof (intro ballI)
  fix w
  assume "w \<in> {w. journal_usable D w}"
  then obtain evs where g: "journal_good (dd_lib D) (dd_key D) (w_journal w) evs" by (auto simp: journal_usable_def)
  have c: "crypto_ok (dd_lib D) (dd_key D)" "lib_datetime (dd_lib D) (dd_stamp D (w_stamps w))" "\<And>e. dd_screen D e = Inr ()"
    using assms(1) by (auto simp: collaborators_answer_def)
  obtain e J where a: "journal_append (dd_lib D) (dd_key D) (dd_screen D) (dd_stamp D (w_stamps w)) i (w_journal w) = (Inr e, J)"
    using append_succeeds [where screen = "dd_screen D", OF g c(1) assms(2) c(2) assms(3,4) c(3)] by blast
  have "journal_good (dd_lib D) (dd_key D) J (evs @ [e])" by (rule append_good [OF g c(1) assms(5) a])
  then show "\<exists>x. \<exists>w' \<in> {w. journal_usable D w}. record_event D i w = (Inr x, w')"
    using a by (auto simp: record_event_def Let_def noted_def journal_usable_def)
qed


lemma events_well_formed:
  "ai_kind (call_event req v) \<noteq> []" "ai_kind (approval_event req d) \<noteq> []" "ai_kind (executed_event req ns x) \<noteq> []"
  "ai_correlation_id (call_event req v) = None" "ai_correlation_id (approval_event req d) = None"
  "ai_correlation_id (executed_event req ns x) = None"
  "ai_gsb_receipt_tip_hash (call_event req v) = None" "ai_gsb_receipt_tip_hash (approval_event req d) = None"
  "ai_gsb_receipt_tip_hash (executed_event req ns x) = None"
  by (auto simp: call_event_def approval_event_def executed_event_def event_input_def split: sum.split)

lemmas event_succeeds = record_succeeds [OF _ events_well_formed(1,4,7) payload_ok_events(1)]
  record_succeeds [OF _ events_well_formed(2,5,8) payload_ok_events(2)]
  record_succeeds [OF _ events_well_formed(3,6,9) payload_ok_events(3)]

lemma calls_succeed:
  fixes D :: "('sk, 'pk, 's, 'c, 'b) daemon" and I :: "('i, 'x) intendant_adapter_scheme"
  assumes "collaborators_answer D I"
  shows "succeeds {w. journal_usable D w} (post_request D q)"
    "succeeds {w. journal_usable D w} (exec_command D h cmd)"
    "succeeds {w. journal_usable D w} (deliver_message I m)"
proof -
  show "succeeds {w. journal_usable D w} (post_request D q)"
    unfolding succeeds_def
  proof (intro ballI)
    fix w assume w: "w \<in> {w. journal_usable D w}"
    obtain h' c where "ca_post (dd_channel D) q (w_channel w) = (Inr h', c)"
      using assms unfolding collaborators_answer_def by blast
    then show "\<exists>x. \<exists>w' \<in> {w. journal_usable D w}. post_request D q w = (Inr x, w')"
      using w by (auto simp: post_request_def journal_usable_def noted_def)
  qed
  show "succeeds {w. journal_usable D w} (exec_command D h cmd)"
    unfolding succeeds_def
  proof (intro ballI)
    fix w assume w: "w \<in> {w. journal_usable D w}"
    obtain x b where "sb_exec (dd_sandbox D) h cmd (w_sandbox w) = (Inr x, b)"
      using assms unfolding collaborators_answer_def by blast
    then show "\<exists>x. \<exists>w' \<in> {w. journal_usable D w}. exec_command D h cmd w = (Inr x, w')"
      using w by (auto simp: exec_command_def journal_usable_def noted_def)
  qed
  show "succeeds {w. journal_usable D w} (deliver_message I m)"
    unfolding succeeds_def
  proof (intro ballI)
    fix w :: "('s, 'c, 'b, 'i) world" assume w: "w \<in> {w. journal_usable D w}"
    obtain i where "ia_deliver I m (w_intendant w) = (Inr (), i)"
      using assms unfolding collaborators_answer_def by blast
    then show "\<exists>x. \<exists>w' \<in> {w. journal_usable D w}. deliver_message I m w = (Inr x, w')"
      using w by (auto simp: deliver_message_def on_intendant_def journal_usable_def)
  qed
qed

lemma await_succeeds:
  "succeeds {w. journal_usable D w} (act_catch (act_bind (await_decision D h) (\<lambda>a. act_ret (Inr a))) (\<lambda>e. act_ret (Inl e)))"
  unfolding succeeds_def
  by (auto simp: act_catch_def act_bind_def act_ret_def await_decision_def noted_def journal_usable_def
      split: prod.split sum.split)

lemma settle_succeeds: "collaborators_answer D I \<Longrightarrow> succeeds {w. journal_usable D w} (settle_call D req v)"
  unfolding settle_call_def
  by (auto intro!: succeeds_intros calls_succeed await_succeeds event_succeeds)

lemma execute_succeeds:
  assumes "collaborators_answer D I" "command_of D req = Inr cmd"
  shows "succeeds {w. journal_usable D w} (execute_call D I req h)"
proof -
  obtain j where "resolvePlaceholders (daemon_vault D) (JArr (map JStr (toCommand req))) = Inr j"
    using assms(2) by (auto simp: command_of_def result_simps simp del: resolvePlaceholders.simps)
  then have "succeeds W (act_lift (resolvePlaceholders (daemon_vault D) (JArr (map JStr (toCommand req)))))" for W :: "('c, 'd, 'e, 'f) world set"
    by (rule succeeds_lift)
  then show ?thesis
    unfolding execute_call_def Let_def
    by (intro succeeds_bind succeeds_seq calls_succeed [OF assms(1)] event_succeeds [OF assms(1)])
qed

lemma gate_event_succeeds:
  "collaborators_answer D I \<Longrightarrow> succeeds {w. journal_usable D w} (record_event D (gate_event req e))"
  by (rule record_succeeds) (simp_all add: gate_event_def event_input_def payload_ok_def)

lemma judged_ok: "judged D req = Inr v \<Longrightarrow> verdict_ok v"
  by (auto simp: judged_def evaluate_def PolicyVerdict_parse_def Let_def split: if_splits)

lemma effective_verdict_ok: "verdict_ok v \<Longrightarrow> e \<noteq> require \<Longrightarrow> verdict_ok (effective_verdict v e)"
  by (auto simp: verdict_ok_def effective_verdict_def)

lemma judge_succeeds:
  assumes "collaborators_answer D I" "judged D req = Inr v"
  shows "succeeds {w. journal_usable D w} (judge_call D req)"
  using assms(2) by (auto simp: judge_call_def judged_def intro!: succeeds_intros succeeds_lift event_succeeds [OF assms(1)])

lemma mediate_settles:
  assumes "collaborators_answer D I" "assertTenantContext (dd_tenantContext D) = Inr ()"
    "judged D req = Inr v" "command_of D req = Inr cmd"
  shows "succeeds {w. journal_usable D w} (mediate D I req h)"
  unfolding mediate_def assms(2)
  by (intro succeeds_seq succeeds_bind succeeds_lift [OF refl] judge_succeeds [OF assms(1,3)])
    (auto intro!: succeeds_intros settle_succeeds [OF assms(1)] execute_succeeds [OF assms(1,4)]
      calls_succeed [OF assms(1)])

lemma settle_effective: "settle_call D req v w = (Inr (a, e), w') \<Longrightarrow> e \<noteq> require"
  using settle_call_logs [of v req w D] by (auto split: if_splits)

lemma gate_settles:
  assumes "collaborators_answer D I" "judged D req = Inr v"
  shows "succeeds {w. journal_usable D w} (gate D I req)"
  unfolding gate_def
proof (rule succeeds_bind_value [where P = "\<lambda>v. judged D req = Inr v", OF judge_call_Inr judge_succeeds [OF assms]])
  fix v assume v: "judged D req = Inr v"
  show "succeeds {w. journal_usable D w} (act_bind (settle_call D req v) (\<lambda>(approved, effective).
         act_seq (record_event D (gate_event req effective))
           (act_bind (act_lift (PolicyVerdict_parse (effective_verdict v effective))) (\<lambda>ev.
             act_seq (deliver_message I (VerdictMessage (tcr_id req) (tcr_sessionId req) ev))
               (act_ret \<lparr>mo_request = req, mo_verdict = v, mo_approved = approved, mo_executed = False\<rparr>)))))"
  proof (rule succeeds_bind_value [where P = "\<lambda>x. snd x \<noteq> require", OF _ settle_succeeds [OF assms(1)]])
    show "snd x \<noteq> require" if "settle_call D req v w = (Inr x, w')" for w x w'
      using that settle_effective [of D req v w "fst x" "snd x"] by simp
    fix x :: "bool option \<times> policy_decision" assume "snd x \<noteq> require"
    then have "PolicyVerdict_parse (effective_verdict v (snd x)) = Inr (effective_verdict v (snd x))"
      using effective_verdict_ok [OF judged_ok [OF v]] by (simp add: PolicyVerdict_parse_def)
    then show "succeeds {w. journal_usable D w} (case x of (approved, effective) \<Rightarrow>
         act_seq (record_event D (gate_event req effective))
           (act_bind (act_lift (PolicyVerdict_parse (effective_verdict v effective))) (\<lambda>ev.
             act_seq (deliver_message I (VerdictMessage (tcr_id req) (tcr_sessionId req) ev))
               (act_ret \<lparr>mo_request = req, mo_verdict = v, mo_approved = approved, mo_executed = False\<rparr>))))"
      by (cases x) (auto intro!: succeeds_intros succeeds_lift gate_event_succeeds [OF assms(1)] calls_succeed [OF assms(1)])
  qed
qed

text \<open>
  C29: a call is always settled. When the collaborators answer (the journal accepts what it is
  given, the approval request can be posted, the sandbox returns a result and the intendant
  takes messages), the policy judges the call and the vault holds its secrets, mediation and
  the live gate return, whatever the policy decides and even when the channel never gives a
  decision, and the journal stays usable for the next call.
\<close>

theorem call_settled:
  assumes "collaborators_answer D I" "journal_usable D w"
    and "assertTenantContext (dd_tenantContext D) = Inr ()" "judged D req = Inr v" "command_of D req = Inr cmd"
  shows "(\<exists>out w'. mediate D I req h w = (Inr out, w') \<and> journal_usable D w')
    \<and> (\<exists>out w'. gate D I req w = (Inr out, w') \<and> journal_usable D w')"
  using mediate_settles [OF assms(1,3,4,5)] gate_settles [OF assms(1,4)] assms(2) unfolding succeeds_def by blast

section \<open>Sessions that end\<close>

definition returns :: "('w, 'a) run \<Rightarrow> bool" where
  "returns m \<longleftrightarrow> (\<forall>w. \<exists>p. m w = Some p)"

lemma returns_act: "returns (run_act m)"
  by (simp add: returns_def run_act_def)

lemma returns_bind: "returns m \<Longrightarrow> (\<And>x. returns (k x)) \<Longrightarrow> returns (run_bind m k)"
  unfolding returns_def run_bind_def by (fastforce split: option.split sum.split)

lemma returns_finally: "returns m \<Longrightarrow> returns (run_finally m k)"
  unfolding returns_def run_finally_def by (fastforce split: option.split)

lemmas returns_intros = returns_act returns_bind returns_finally

lemma drive_returns:
  fixes f :: "'w \<Rightarrow> nat"
  assumes "\<And>w req w'. nxt w = (Inr (Some req), w') \<Longrightarrow> f w' < f w"
    and "\<And>req st w. f (snd (handler req st w)) \<le> f w"
  shows "\<exists>p. drive nxt handler st w = Some p"
proof (induction "f w" arbitrary: st w rule: less_induct)
  case less
  obtain r w1 where n: "nxt w = (r, w1)" by fastforce
  consider (e) e where "r = Inl e" | (over) "r = Inr None" | (call) req where "r = Inr (Some req)"
    by (metis (no_types) option.exhaust sumE)
  then show ?case
  proof cases
    case call
    obtain st2 w2 where h: "handler req st w1 = (st2, w2)" by fastforce
    have "f w2 < f w" using assms(1) [OF n [unfolded call]] assms(2) [of req st w1] h by simp
    then show ?thesis using less n call h by (subst drive.simps) simp
  qed (subst drive.simps, simp add: n)+
qed

definition fewer :: "('i \<Rightarrow> nat) \<Rightarrow> ('s, 'c, 'b, 'i) world \<Rightarrow> ('s, 'c, 'b, 'i) world \<Rightarrow> bool" where
  "fewer f w w' \<longleftrightarrow> f (w_intendant w') \<le> f (w_intendant w)"

interpretation fewer: effect_order "fewer f" for f
  by unfold_locales (simp_all add: fewer_def)

lemma calls_fewer:
  "act_within (fewer f) (record_event D i)" "act_within (fewer f) (post_request D q)"
  "act_within (fewer f) (await_decision D h')" "act_within (fewer f) (exec_command D h cmd)"
  "act_within (fewer f) (with_store D m)"
  by (rule act_withinI, auto simp: fewer_def record_event_def Let_def noted_def post_request_def
      await_decision_def exec_command_def with_store_def split: prod.splits sum.splits)+

lemma deliver_fewer: "(\<And>m i. f (snd (ia_deliver I m i)) \<le> f i) \<Longrightarrow> act_within (fewer f) (deliver_message I m)"
  by (rule act_withinI) (auto simp: deliver_message_def on_intendant_def fewer_def split: prod.splits, metis snd_conv)

lemma mediate_fewer: "(\<And>m i. f (snd (ia_deliver I m i)) \<le> f i) \<Longrightarrow> act_within (fewer f) (mediate D I req h)"
  by (auto simp: mediate_def judge_call_def settle_call_def execute_call_def Let_def
      intro!: fewer.within_intros calls_fewer deliver_fewer)

lemma gate_fewer: "(\<And>m i. f (snd (ia_deliver I m i)) \<le> f i) \<Longrightarrow> act_within (fewer f) (gate D I req)"
  by (auto simp: gate_def judge_call_def settle_call_def intro!: fewer.within_intros calls_fewer deliver_fewer)

lemma run_calls_returns:
  fixes D :: "('sk, 'pk, 's, 'c, 'b) daemon" and I :: "('i, 'x) runnable_intendant_scheme"
    and body :: "tool_call_request \<Rightarrow> (('s, 'c, 'b, 'i) world, mediation_outcome) act"
  assumes "\<And>i req i'. ri_next I sid i = (Inr (Some req), i') \<Longrightarrow> f i' < f i"
    and "\<And>req. act_within (fewer f) (body req)"
  shows "returns (run_calls D I sid body lease)"
proof -
  have "f (w_intendant (snd (handle_call D body req st w))) \<le> f (w_intendant w)" for req st w
  proof -
    obtain le outs errs where st: "st = (le, outs, errs)" by (cases st)
    obtain q w1 where b: "body req w = (q, w1)" by fastforce
    obtain y w2 where h: "heartbeat_lease D le w1 = (y, w2)" by fastforce
    have "act_within (fewer f) (heartbeat_lease D le)"
      by (auto simp: heartbeat_lease_def intro!: fewer.within_intros calls_fewer split: option.split)
    then have "fewer f w1 w2" using h by (rule act_withinD)
    then show ?thesis
      using act_withinD [OF assms(2) b] b h st by (cases q; cases y) (auto simp: handle_call_def fewer_def)
  qed
  moreover have "f (w_intendant w') < f (w_intendant w)"
    if "on_intendant [] (ri_next I sid) w = (Inr (Some req), w')" for w req and w' :: "('s, 'c, 'b, 'i) world"
    using that assms(1) by (auto simp: on_intendant_def split: prod.splits)
  ultimately have "returns (drive (on_intendant [] (ri_next I sid)) (handle_call D body) (lease, [], []))"
    unfolding returns_def by (intro allI drive_returns [where f = "\<lambda>w. f (w_intendant w)"])
  then show ?thesis unfolding run_calls_def by (auto intro!: returns_intros split: prod.split)
qed


end
