(* ===== verification/Demo.thy ===== *)
theory Demo
  imports Liveness
begin

text \<open>
  A concrete daemon (one rule that allows the tool \<open>Read\<close>, the console channel, the recording
  sandbox, the file store and a journal that starts empty) and an intendant that asks for a
  given number of calls. The general properties of the daemon are applied to it.
\<close>

section \<open>The daemon\<close>

definition demo :: "(unit, unit, string option, string list, recording list) daemon" where
  "demo = \<lparr>dd_policy = [\<lparr>pr_id = ''r1'', pr_effect = allow, pr_tool = ''Read'', pr_actor = None,
       pr_tier = None, pr_priority = None, pr_reason = None\<rparr>],
     dd_lib = toy_crypto, dd_key = (), dd_screen = (\<lambda>_. Inr ()), dd_stamp = (\<lambda>_. ''t''),
     dd_sandbox = RecordingSandbox, dd_channel = ConsoleChannel [], dd_vault = None,
     dd_sessionStore = Some FileSessionStore, dd_instanceId = ''d1'', dd_nowMs = (\<lambda>n. n),
     dd_leaseTtlMs = 300000, dd_verifier = None, dd_identityMode = mode_off,
     dd_tenantContext = defaultTenantContext\<rparr>"

definition demo_call :: tool_call_request where
  "demo_call = \<lparr>tcr_id = ''c1'', tcr_sessionId = ''s1'', tcr_tool = ''Read'',
     tcr_args = [(''command'', JStr ''ls'')], tcr_actor = claude_process\<rparr>"

definition counting :: "nat runnable_intendant" where
  "counting = \<lparr>ia_identity = scripted_identity, ia_start = (\<lambda>_. act_ret ()), ia_deliver = (\<lambda>_. act_ret ()),
     ia_stop = act_ret (),
     ri_next = (\<lambda>sid n. if n = 0 then (Inr None, 0) else (Inr (Some demo_call), n - 1))\<rparr>"

definition demo_opts :: run_options where
  "demo_opts = \<lparr>ro_sessionId = ''s1'', ro_image = None, ro_manifest = None, ro_signatureB64 = None,
     ro_networkEnabled = None\<rparr>"

definition demo_start :: "(string option, string list, recording list, nat) world" where
  "demo_start = \<lparr>w_journal = no_files, w_store = None, w_channel = [], w_sandbox = [], w_intendant = 1,
     w_stamps = 0, w_ticks = 0, w_log = []\<rparr>"

definition demo_handle :: sandbox_handle where
  "demo_handle = \<lparr>sh_id = ''ref-s1'', sh_sessionId = ''s1''\<rparr>"

lemma demo_answers: "collaborators_answer demo counting"
  by (simp add: collaborators_answer_def demo_def counting_def toy_crypto_ok toy_datetime ConsoleChannel_def
      console_post_def RecordingSandbox_def recording_exec_def act_ret_def)

lemma demo_tenant: "assertTenantContext (dd_tenantContext demo) = Inr ()"
  by (simp add: demo_def)

lemma demo_journal: "journal_usable demo demo_start"
  unfolding journal_usable_def demo_start_def using journal_good_no_files [of toy_crypto] by (auto simp: demo_def)

lemma demo_judged: "judged demo demo_call = Inr \<lparr>pv_decision = allow,
    pv_reason = rule_reason \<lparr>pr_id = ''r1'', pr_effect = allow, pr_tool = ''Read'', pr_actor = None,
       pr_tier = None, pr_priority = None, pr_reason = None\<rparr>, pv_ruleId = Some ''r1'', pv_tier = None\<rparr>"
  by (simp add: judged_def evaluate_def demo_def demo_call_def matches_def winner_def max_rank_def Let_def
      PolicyVerdict_parse_def verdict_ok_def rule_reason_def)

lemma demo_command: "command_of demo demo_call = Inr [''sh'', ''-c'', ''ls'']"
  by (simp add: command_of_def demo_call_def toCommand_def resolveString_def tokens.simps placeholder_at_def resolve_token_def)

lemma counting_bounded:
  "ri_next counting sid i = (Inr (Some req), i') \<Longrightarrow> i' < i" "snd (ia_deliver counting m i) \<le> i"
  by (auto simp: counting_def act_ret_def split: if_splits)

lemma counting_returns: "returns (runMediated D counting opts)" "returns (runLive D counting opts)"
proof -
  have c: "returns (run_calls D counting sid (\<lambda>req. mediate D counting req h) le)" for sid h le
    by (rule run_calls_returns [where f = "\<lambda>i. i", OF counting_bounded(1) mediate_fewer])
      (simp_all add: counting_bounded(2))
  have g: "returns (run_calls D counting sid (gate D counting) le)" for sid le
    by (rule run_calls_returns [where f = "\<lambda>i. i", OF counting_bounded(1) gate_fewer])
      (simp_all add: counting_bounded(2))
  show "returns (runMediated D counting opts)"
    unfolding runMediated_def
    by (intro returns_bind returns_act) (auto intro!: returns_intros c split: prod.split)
  show "returns (runLive D counting opts)"
    unfolding runLive_def
    by (intro returns_bind returns_act) (auto intro!: returns_intros g split: prod.split)
qed

lemma counting_runs:
  "\<exists>r w'. runMediated D counting opts w = Some (r, w')" "\<exists>r w'. runLive D counting opts w = Some (r, w')"
  using counting_returns unfolding returns_def by (metis prod.collapse)+

text \<open>The demo session opens, and its first call is executed.\<close>

lemma demo_mediates: "succeeds {w. journal_usable demo w} (mediate demo counting demo_call h)"
  by (rule mediate_settles [OF demo_answers demo_tenant demo_judged demo_command])

lemma demo_opens:
  "\<exists>lease w2. open_session demo counting demo_opts None False demo_start = (Inr (lease, demo_handle), w2)
     \<and> journal_usable demo w2 \<and> w_intendant w2 = 1
     \<and> (\<exists>t spec. w_log w2 = t @ [Spawned spec (Some demo_handle)])"
proof -
  define lease where "lease = grant_lease None ''s1'' ''d1'' 0 300000"
  define w1 where "w1 = demo_start\<lparr>w_store := so_commit FileSessionStore [(''s1'', lease)] None, w_ticks := 1\<rparr>"
  have a: "acquire_lease demo ''s1'' demo_start = (Inr (Some lease), w1)"
    using acquire_fresh [of "''s1''" "''d1''" 0 300000]
    by (simp add: acquire_lease_def demo_def with_store_def act_bind_def act_ret_def demo_start_def w1_def lease_def)
  have "journal_usable demo w1" using demo_journal by (simp add: journal_usable_def w1_def)
  moreover have "succeeds {w. journal_usable demo w} (record_event demo (started_event ''s1'' scripted_identity None))"
    by (rule record_succeeds [OF demo_answers]) (simp_all, simp_all add: started_event_def event_input_def)
  ultimately obtain w1' where r: "record_event demo (started_event ''s1'' scripted_identity None) w1 = (Inr (), w1')" "journal_usable demo w1'"
    unfolding succeeds_def by auto
  have i: "w_intendant w1' = 1"
    using record_event_shape [OF r(1)] by (auto simp: w1_def demo_start_def)
  define spec where "spec = \<lparr>sp_image = ''agp-sandbox:v0'', sp_sessionId = ''s1'', sp_networkEnabled = False\<rparr>"
  define w2 where "w2 = w1'\<lparr>w_log := (w_log w1' @ [Started ''s1'']) @ [Spawned spec (Some demo_handle)]\<rparr>"
  have "open_session demo counting demo_opts None False demo_start = (Inr (Some lease, demo_handle), w2)"
    using a r(1)
    by (simp add: open_session_def Let_def demo_opts_def act_bind_def act_seq_def start_intendant_def counting_def
        on_intendant_def act_ret_def spawn_sandbox_def demo_def [THEN arg_cong [of _ _ dd_sandbox]] RecordingSandbox_def
        recording_spawn_def demo_handle_def noted_def w2_def spec_def)
  moreover have "journal_usable demo w2" "w_intendant w2 = 1" using r(2) i by (simp_all add: w2_def journal_usable_def)
  ultimately show ?thesis unfolding w2_def by fastforce
qed


lemma demo_gateIdentity: "gateIdentity demo (ia_identity counting) sid opts w = (Inr (True, None), w)"
  by (simp add: gateIdentity_def demo_def counting_def scripted_identity_def act_ret_def)

lemma demo_session:
  "\<exists>r w' spec cmd. runMediated demo counting demo_opts demo_start = Some (r, w')
     \<and> Spawned spec (Some demo_handle) \<in> set (w_log w') \<and> Executed demo_handle cmd \<in> set (w_log w')"
proof -
  obtain r w' where run: "runMediated demo counting demo_opts demo_start = Some (r, w')"
    using counting_returns(1) unfolding returns_def by (metis prod.collapse)
  obtain lease w2 t spec where open': "open_session demo counting demo_opts None False demo_start = (Inr (lease, demo_handle), w2)"
    "journal_usable demo w2" "w_intendant w2 = 1" "w_log w2 = t @ [Spawned spec (Some demo_handle)]"
    using demo_opens by blast
  let ?h = "handle_call demo (\<lambda>req. mediate demo counting req demo_handle)"
  let ?n = "on_intendant [] (ri_next counting ''s1'')"
  define w3 where "w3 = w2\<lparr>w_intendant := 0\<rparr>"
  have j3: "journal_usable demo w3" using open'(2) by (simp add: journal_usable_def w3_def)
  obtain out w4 where m: "mediate demo counting demo_call demo_handle w3 = (Inr out, w4)"
    using demo_mediates [of demo_handle] j3 unfolding succeeds_def by blast
  obtain d res where l4: "w_log w4 = w_log w3 @ mediate_log demo demo_call demo_handle (\<lparr>pv_decision = allow,
    pv_reason = rule_reason \<lparr>pr_id = ''r1'', pr_effect = allow, pr_tool = ''Read'', pr_actor = None,
       pr_tier = None, pr_priority = None, pr_reason = None\<rparr>, pv_ruleId = Some ''r1'', pv_tier = None\<rparr>) d res"
    using mediate_runs [OF demo_tenant m] unfolding demo_judged by auto
  have ex: "Executed demo_handle [''sh'', ''-c'', ''ls''] \<in> set (w_log w4)"
    unfolding l4 mediate_log_def demo_command by (simp add: permitted_def result_log_def Let_def)
  have n: "?n w2 = (Inr (Some demo_call), w3)"
    using open'(3) by (simp add: on_intendant_def counting_def w3_def)
  obtain st5 w5 where h: "?h demo_call (lease, [], []) w3 = (st5, w5)" by fastforce
  have idle: "idle w4 w5"
    using h m act_withinD [OF idle.lease_within(2) [where D = demo and lease = lease]]
    by (auto simp: handle_call_def split: prod.splits sum.splits)
  note keep = idle [unfolded idle_def]
  have eff: "\<exists>t. w_log b = w_log a @ t" if "governs demo a b" for a b :: "(string option, string list, recording list, nat) world"
    using that unfolding governs_def by blast
  show ?thesis using run
  proof (cases rule: runMediated_cases)
    case (ran uri w1 lease' h' w2' y w3' z w4')
    have eq: "uri = None" "w1 = demo_start" using ran(1) by (simp_all add: demo_gateIdentity)
    have eq2: "lease' = lease" "h' = demo_handle" "w2' = w2"
      using ran(2) open'(1) unfolding eq by (simp_all add: demo_opts_def)
    obtain q where dr: "drive ?n ?h (lease, [], []) w2 = Some (q, w3')"
      using ran(3) unfolding eq2 by (auto simp: run_calls_def run_bind_def run_act_def demo_opts_def act_ret_def act_throw_def
          split: option.splits sum.splits if_splits)
    then have "drive ?n ?h st5 w5 = Some (q, w3')" by (subst (asm) drive.simps) (simp add: n h)
    moreover have "run_within (governs demo) (drive ?n ?h st5)"
      by (rule governed.calls_within [OF mediate_governed])
    ultimately have "governs demo w5 w3'" unfolding run_within_def by blast
    moreover have "governs demo w3' w4'" using ran(4) by (rule act_withinD [OF governed.session_within(2)])
    moreover have "governs demo w4' w'"
      using ran(5) act_withinD [OF governed.end_session_within] governed.R_refl by blast
    ultimately have "governs demo w5 w'" by (blast intro: governed.R_trans)
    then obtain t6 where "w_log w' = w_log w5 @ t6" using eff by blast
    then have "set (w_log w4) \<subseteq> set (w_log w')" using keep by auto
    moreover have "Spawned spec (Some demo_handle) \<in> set (w_log w4)" unfolding l4 w3_def using open'(4) by simp
    ultimately show ?thesis using run ex by blast
  next
    case locked
    then show ?thesis using demo_tenant by simp
  next
    case (unopened uri w1 e)
    then show ?thesis using open'(1) by (simp add: demo_gateIdentity) (simp add: demo_opts_def)
  qed (simp_all add: demo_gateIdentity)
qed


section \<open>The properties on the concrete daemon\<close>

theorem call_settled_witness:
  "(\<exists>out w'. mediate demo counting demo_call demo_handle demo_start = (Inr out, w') \<and> journal_usable demo w')
   \<and> (\<exists>out w'. gate demo counting demo_call demo_start = (Inr out, w') \<and> journal_usable demo w')"
  by (rule call_settled [OF demo_answers demo_journal demo_tenant demo_judged demo_command])

lemma demo_mediated: "\<exists>out w'. mediate demo counting demo_call demo_handle demo_start = (Inr out, w')"
  using demo_mediates demo_journal unfolding succeeds_def by blast

lemma demo_gated: "\<exists>out w'. gate demo counting demo_call demo_start = (Inr out, w')"
  using gate_settles [OF demo_answers demo_judged] demo_journal unfolding succeeds_def by blast

theorem mediate_protocol_witness:
  "\<exists>out w' v d res. mediate demo counting demo_call demo_handle demo_start = (Inr out, w')
     \<and> w_log w' = mediate_log demo demo_call demo_handle v d res \<and> mo_executed out"
proof -
  obtain out w' where m: "mediate demo counting demo_call demo_handle demo_start = (Inr out, w')"
    using demo_mediated by blast
  show ?thesis
    using mediate_protocol [OF demo_tenant m] m unfolding demo_judged
    by (fastforce simp: permitted_def demo_start_def)
qed

theorem gate_protocol_witness:
  "\<exists>out w' v d. gate demo counting demo_call demo_start = (Inr out, w') \<and> w_log w' = gate_log demo_call v d"
proof -
  obtain out w' where g: "gate demo counting demo_call demo_start = (Inr out, w')"
    using demo_gated by blast
  show ?thesis using gate_protocol [OF g] g unfolding demo_judged by (fastforce simp: demo_start_def)
qed

theorem gate_mediate_agree_witness:
  "\<exists>a w1 b w2. mediate demo counting demo_call demo_handle demo_start = (Inr a, w1)
     \<and> gate demo counting demo_call demo_start = (Inr b, w2) \<and> mo_verdict a = mo_verdict b \<and> mo_approved a = mo_approved b"
proof -
  obtain a w1 where a: "mediate demo counting demo_call demo_handle demo_start = (Inr a, w1)"
    using demo_mediated by blast
  obtain b w2 where b: "gate demo counting demo_call demo_start = (Inr b, w2)"
    using demo_gated by blast
  show ?thesis using gate_mediate_agree [OF a b] a b by blast
qed

theorem governed_execution_witness:
  "\<exists>r w' pre cmd post req v d. runMediated demo counting demo_opts demo_start = Some (r, w')
     \<and> w_log w' = pre @ Executed demo_handle cmd # post
     \<and> suffix (call_log req v d) pre \<and> permitted v d \<and> command_of demo req = Inr cmd"
proof -
  obtain r w' cmd where s: "runMediated demo counting demo_opts demo_start = Some (r, w')"
    "Executed demo_handle cmd \<in> set (w_log w')"
    using demo_session by blast
  obtain pre post where p: "w_log w' = pre @ Executed demo_handle cmd # post"
    using s(2) by (meson split_list)
  obtain t where t: "w_log w' = w_log demo_start @ t" "\<forall>pre h cmd post. t = pre @ Executed h cmd # post \<longrightarrow>
     (\<exists>req v d. suffix (call_log req v d) pre \<and> judged demo req = Inr v \<and> permitted v d \<and> command_of demo req = Inr cmd)"
    using governed_execution [OF s(1)] by blast
  have "t = pre @ Executed demo_handle cmd # post" using t(1) p by (simp add: demo_start_def)
  with t(2) obtain req v d where "suffix (call_log req v d) pre" "permitted v d" "command_of demo req = Inr cmd"
    by blast
  then show ?thesis using s(1) p by blast
qed

theorem live_executes_nothing_witness:
  "\<exists>r w'. runLive demo counting demo_opts demo_start = Some (r, w') \<and> Executed demo_handle [''ls''] \<notin> set (w_log w')"
proof -
  obtain r w' where l: "runLive demo counting demo_opts demo_start = Some (r, w')"
    using counting_runs(2) by blast
  show ?thesis using live_executes_nothing [OF l] l by (auto simp: demo_start_def)
qed

theorem session_journal_verifies_witness:
  "\<exists>r w' new. runMediated demo counting demo_opts demo_start = Some (r, w')
     \<and> readEvents toy_crypto (jf_log (w_journal w')) = Inr new"
proof -
  obtain r w' where l: "runMediated demo counting demo_opts demo_start = Some (r, w')"
    using counting_runs(1) by blast
  have "crypto_ok (dd_lib demo) (dd_key demo)" "journal_good (dd_lib demo) (dd_key demo) (w_journal demo_start) []"
    by (simp_all add: demo_def demo_start_def toy_crypto_ok journal_good_no_files)
  from session_journal_verifies [OF this l] show ?thesis using l by (auto simp: demo_def)
qed

theorem tenant_lock_witness:
  "\<exists>e. mediate (demo\<lparr>dd_tenantContext := \<lparr>tx_tenantId = ''acme'', tx_operatorName = None\<rparr>\<rparr>) counting demo_call
     demo_handle demo_start = (Inl e, demo_start)"
  using tenant_lock [of "demo\<lparr>dd_tenantContext := \<lparr>tx_tenantId = ''acme'', tx_operatorName = None\<rparr>\<rparr>" counting demo_call
      demo_handle demo_start demo_opts]
  by (auto simp: SINGLE_TENANT_def)

theorem enforce_refuses_witness:
  "\<exists>r w'. runMediated (demo\<lparr>dd_identityMode := mode_enforce\<rparr>) counting demo_opts demo_start = Some (r, w')
     \<and> w_sandbox w' = [] \<and> w_store w' = None \<and> w_intendant w' = 1"
proof -
  let ?D = "demo\<lparr>dd_identityMode := mode_enforce\<rparr>"
  obtain r w' where l: "runMediated ?D counting demo_opts demo_start = Some (r, w')"
    using counting_runs(1) by blast
  have ten: "assertTenantContext (dd_tenantContext ?D) = Inr ()" using demo_tenant by simp
  have "dd_verifier ?D = None" by (simp add: demo_def)
  then have nov: "\<forall>verify m s i. dd_verifier ?D = Some verify \<and> ro_manifest demo_opts = Some m
      \<and> ro_signatureB64 demo_opts = Some s \<longrightarrow> verify m s \<noteq> Verified i"
    by simp
  have l': "runMediated ?D counting demo_opts demo_start = Some (r, w') \<or> runLive ?D counting demo_opts demo_start = Some (r, w')"
    using l by simp
  have "dd_identityMode ?D = mode_enforce" by simp
  from enforce_refuses [OF this ten nov l'] show ?thesis using l by (auto simp: demo_start_def)
qed

theorem sandbox_torn_down_witness:
  "\<exists>r w'. runMediated demo counting demo_opts demo_start = Some (r, w') \<and> TornDown demo_handle \<in> set (w_log w')"
proof -
  obtain r w' spec where s: "runMediated demo counting demo_opts demo_start = Some (r, w')"
    "Spawned spec (Some demo_handle) \<in> set (w_log w')"
    using demo_session by blast
  have "w_log w' = w_log demo_start @ w_log w'" by (simp add: demo_start_def)
  from sandbox_torn_down [OF s(1) this s(2)] show ?thesis using s(1) by blast
qed

theorem lease_after_session_witness:
  "\<exists>r w'. runMediated demo counting demo_opts demo_start = Some (r, w')
     \<and> (w_store w' = None \<or> (\<exists>l. get_session FileSessionStore ''s1'' (w_store w') = Some l))"
proof -
  obtain r w' where l: "runMediated demo counting demo_opts demo_start = Some (r, w')"
    using counting_runs(1) by blast
  have "dd_sessionStore demo = Some FileSessionStore" by (simp add: demo_def)
  moreover have "leases_ok (so_load FileSessionStore (w_store demo_start))"
    by (simp add: demo_start_def empty_file_load keyed_def)
  ultimately show ?thesis
    using lease_after_session [OF _ _ l] l
    by (cases r) (auto simp: demo_start_def demo_opts_def split: if_splits)
qed


text \<open>A store left behind by a daemon that crashed, a minute after its lease was granted.\<close>

definition crashed :: "string option" where
  "crashed = so_commit FileSessionStore [(''s0'', grant_lease None ''s0'' ''d0'' 0 60000)] None"

definition restarted :: "(unit, unit, string option, string list, recording list) daemon" where
  "restarted = demo\<lparr>dd_nowMs := (\<lambda>n. 60000)\<rparr>"

lemma crashed_load: "so_load FileSessionStore crashed = [(''s0'', grant_lease None ''s0'' ''d0'' 0 60000)]"
  unfolding crashed_def by (rule fil.load_commit) (simp add: rec_ok_def grant_lease_ok)

lemma crashed_expired: "expired 60000 (grant_lease None ''s0'' ''d0'' 0 60000)"
proof -
  have "date_ok (0 + 60000)"
    by (simp add: date_ok_def iso_year_def civil_of_def split_years.simps split_months.simps
        year_len_def month_len_def is_leap_def)
  from date_parse_toISOString [OF this] show ?thesis
    by (simp add: expired_def grant_lease_def date_until_def)
qed

theorem recovery_recorded_witness:
  "\<exists>r w'. recoverSessions restarted (demo_start\<lparr>w_store := crashed\<rparr>) = (r, w')
     \<and> get_session FileSessionStore ''s0'' (w_store w') = Some ((grant_lease None ''s0'' ''d0'' 0 60000)\<lparr>sl_status := reaped\<rparr>)"
proof -
  let ?w = "demo_start\<lparr>w_store := crashed\<rparr>"
  obtain r w' where rec: "recoverSessions restarted ?w = (r, w')" by fastforce
  have st: "dd_sessionStore restarted = Some FileSessionStore" by (simp add: restarted_def demo_def)
  have ok: "leases_ok (so_load FileSessionStore (w_store ?w))"
    by (simp add: crashed_load rec_ok_def keyed_def grant_lease_ok) (simp add: grant_lease_def)
  have now: "dd_nowMs restarted (w_ticks ?w) = 60000" by (simp add: restarted_def)
  from recovery_recorded [OF st ok rec refl]
  have "get_session FileSessionStore ''s0'' (w_store w') = map_option
         (\<lambda>l. if expired 60000 l then l\<lparr>sl_status := reaped\<rparr> else l) (get_session FileSessionStore ''s0'' crashed)"
    unfolding now by simp
  then show ?thesis using rec crashed_expired by (auto simp: get_session_def crashed_load)
qed

end
