(* ===== verification/Harness.thy ===== *)
theory Harness
  imports Demo
begin

text \<open>
  The live intendants: the Claude Code adapter (\<open>src/intendants/claude-code\<close>) and the Codex adapter
  (\<open>src/intendants/codex\<close>) over a harness process that blocks on every tool call, and the in-memory
  processes of both, as state machines over the calls of their methods. The interface between
  adapter and process is the locale \<open>harness_contract\<close>.
\<close>

section \<open>Harness processes\<close>

text \<open>\<open>PreToolUseEvent\<close>; \<open>CodexToolEvent\<close> has the same members under other names.\<close>

record tool_event =
  te_id :: string
  te_tool :: string
  te_args :: "json obj"

datatype hook_decision = HookAllow | HookDeny string

record 'p harness_process =
  hp_start :: "string \<Rightarrow> ('p, unit) act"
  hp_respond :: "string \<Rightarrow> hook_decision \<Rightarrow> ('p, unit) act"
  hp_run :: "('p, unit) act"
  hp_stop :: "('p, unit) act"

section \<open>The adapters\<close>

record 'p live_intendant =
  li_process :: 'p
  li_handler :: bool
  li_sessionId :: string

definition on_process :: "('p, 'a) act \<Rightarrow> ('p live_intendant, 'a) act" where
  "on_process m s = (case m (li_process s) of (r, p) \<Rightarrow> (r, s\<lparr>li_process := p\<rparr>))"

definition claude_identity :: intendant_identity where
  "claude_identity = \<lparr>ii_name = ''claude-code'', ii_version = ''0.1.0'', ii_uri = None\<rparr>"

text \<open>The receiver of the hook events: the request handed to the registered handler.\<close>

definition claude_onPreToolUse :: "tool_event \<Rightarrow> ('p live_intendant, tool_call_request) act" where
  "claude_onPreToolUse ev s =
     (if \<not> li_handler s
      then (Inl (Error ''ClaudeCodeIntendant: tool call before a handler was registered''), s)
      else (Inr \<lparr>tcr_id = te_id ev, tcr_sessionId = li_sessionId s, tcr_tool = te_tool ev, tcr_args = te_args ev,
              tcr_actor = claude_process\<rparr>, s))"

definition live_onToolCall :: "('p live_intendant, unit) act" where
  "live_onToolCall = act_modify (\<lambda>s. s\<lparr>li_handler := True\<rparr>)"

definition live_start :: "'p harness_process \<Rightarrow> string \<Rightarrow> ('p live_intendant, unit) act" where
  "live_start P sid = act_seq (act_modify (\<lambda>s. s\<lparr>li_sessionId := sid\<rparr>)) (on_process (hp_start P sid))"

definition claude_deliver :: "'p harness_process \<Rightarrow> gateway_message \<Rightarrow> ('p live_intendant, unit) act" where
  "claude_deliver P m =
     (case m of
        VerdictMessage i _ v \<Rightarrow>
          on_process (hp_respond P i (if pv_decision v = deny then HookDeny (pv_reason v) else HookAllow))
      | ToolCallResult i _ _ _ \<Rightarrow> on_process (hp_respond P i HookAllow)
      | GatewayError i _ msg \<Rightarrow> on_process (hp_respond P i (HookDeny msg))
      | ToolCallRequest _ \<Rightarrow> act_ret ())"

definition claude_run :: "'p harness_process \<Rightarrow> string \<Rightarrow> ('p live_intendant, unit) act" where
  "claude_run P sid s =
     (if sid \<noteq> li_sessionId s
      then (Inl (Error (''ClaudeCodeIntendant: run('' @ sid @ '') does not match started session '' @ li_sessionId s)), s)
      else on_process (hp_run P) s)"

definition live_stop :: "'p harness_process \<Rightarrow> ('p live_intendant, unit) act" where
  "live_stop P = on_process (hp_stop P)"

definition ClaudeCodeIntendant :: "'p harness_process \<Rightarrow> 'p live_intendant intendant_adapter" where
  "ClaudeCodeIntendant P = \<lparr>ia_identity = claude_identity, ia_start = live_start P, ia_deliver = claude_deliver P,
     ia_stop = live_stop P\<rparr>"

definition codex_identity :: intendant_identity where
  "codex_identity = \<lparr>ii_name = ''codex'', ii_version = ''0.1.0'', ii_uri = None\<rparr>"

definition normalizeCodexEvent :: "tool_event \<Rightarrow> string \<Rightarrow> tool_call_request" where
  "normalizeCodexEvent ev sessionId = \<lparr>tcr_id = te_id ev, tcr_sessionId = sessionId, tcr_tool = te_tool ev,
     tcr_args = te_args ev, tcr_actor = claude_process\<rparr>"

definition codex_onToolEvent :: "tool_event \<Rightarrow> ('p live_intendant, tool_call_request) act" where
  "codex_onToolEvent ev s =
     (if \<not> li_handler s then (Inl (Error ''CodexIntendant: tool call before a handler was registered''), s)
      else (Inr (normalizeCodexEvent ev (li_sessionId s)), s))"

definition codex_deliver :: "'p harness_process \<Rightarrow> gateway_message \<Rightarrow> ('p live_intendant, unit) act" where
  "codex_deliver P m =
     (case m of
        VerdictMessage i _ v \<Rightarrow>
          on_process (hp_respond P i (if pv_decision v = deny then HookDeny (pv_reason v) else HookAllow))
      | ToolCallResult i _ _ _ \<Rightarrow> on_process (hp_respond P i HookAllow)
      | GatewayError i _ msg \<Rightarrow> on_process (hp_respond P i (HookDeny msg))
      | ToolCallRequest _ \<Rightarrow> act_ret ())"

definition codex_run :: "'p harness_process \<Rightarrow> string \<Rightarrow> ('p live_intendant, unit) act" where
  "codex_run P sid s =
     (if sid \<noteq> li_sessionId s
      then (Inl (Error (''CodexIntendant: run('' @ sid @ '') does not match started session '' @ li_sessionId s)), s)
      else on_process (hp_run P) s)"

definition CodexIntendant :: "'p harness_process \<Rightarrow> 'p live_intendant intendant_adapter" where
  "CodexIntendant P = \<lparr>ia_identity = codex_identity, ia_start = live_start P, ia_deliver = codex_deliver P,
     ia_stop = live_stop P\<rparr>"

section \<open>The in-memory processes\<close>

text \<open>
  A call blocks on its entry of \<open>waiters\<close>. \<open>mp_awaited\<close> is the promise the run awaits; the events the
  handler was given are kept as \<open>mp_emitted\<close>. Both processes run the same loop over the script.
\<close>

record memory_process =
  mp_script :: "(string \<times> json obj) list"
  mp_handler :: bool
  mp_sessionId :: string
  mp_stopped :: bool
  mp_waiters :: "string list"
  mp_responses :: "(string \<times> hook_decision) list"
  mp_index :: nat
  mp_awaited :: "string option"
  mp_emitted :: "tool_event list"

definition claude_script :: "(string \<times> json obj) list" where
  "claude_script = [(''Read'', [(''path'', JStr ''/work/README.md'')]),
     (''Write'', [(''path'', JStr ''/work/notes.md''), (''content'', JStr ''wip'')]),
     (''Bash'', [(''command'', JStr ''git status'')]), (''Bash'', [(''command'', JStr ''git push --force'')])]"

definition codex_script :: "(string \<times> json obj) list" where
  "codex_script = [(''Read'', [(''path'', JStr ''/work/README.md'')]),
     (''Write'', [(''path'', JStr ''/work/plan.md''), (''content'', JStr ''draft'')]),
     (''Bash'', [(''command'', JStr ''git diff'')]), (''Bash'', [(''command'', JStr ''rm -rf /'')])]"

definition memory_process :: "(string \<times> json obj) list \<Rightarrow> memory_process" where
  "memory_process script = \<lparr>mp_script = script, mp_handler = False, mp_sessionId = [], mp_stopped = False, mp_waiters = [],
     mp_responses = [], mp_index = 0, mp_awaited = None, mp_emitted = []\<rparr>"

definition memory_start :: "string \<Rightarrow> (memory_process, unit) act" where
  "memory_start sid = act_modify (\<lambda>p. p\<lparr>mp_sessionId := sid\<rparr>)"

definition memory_onPreToolUse :: "(memory_process, unit) act" where
  "memory_onPreToolUse = act_modify (\<lambda>p. p\<lparr>mp_handler := True\<rparr>)"

definition memory_respond :: "string \<Rightarrow> hook_decision \<Rightarrow> (memory_process, unit) act" where
  "memory_respond callId d = act_modify (\<lambda>p. p\<lparr>mp_responses := mp_responses p @ [(callId, d)],
     mp_waiters := remove1 callId (mp_waiters p)\<rparr>)"

text \<open>The loop of \<open>run\<close> from its head to the next await, or to the end of the run.\<close>

definition memory_loop :: "memory_process \<Rightarrow> memory_process" where
  "memory_loop p =
     (if mp_stopped p \<or> length (mp_script p) \<le> mp_index p then p\<lparr>mp_awaited := None\<rparr>
      else
        let (tool, args) = mp_script p ! mp_index p;
            callId = mp_sessionId p @ ''-call-'' @ show_nat (mp_index p + 1) in
        p\<lparr>mp_waiters := List.insert callId (mp_waiters p), mp_awaited := Some callId, mp_index := mp_index p + 1,
          mp_emitted := mp_emitted p @ [\<lparr>te_id = callId, te_tool = tool, te_args = args\<rparr>]\<rparr>)"

definition memory_run :: "(memory_process, unit) act" where
  "memory_run p =
     (if \<not> mp_handler p then (Inl (Error ''InMemoryClaudeProcess: no PreToolUse handler registered''), p)
      else (Inr (), memory_loop (p\<lparr>mp_index := 0\<rparr>)))"

text \<open>The run goes on once the promise it awaits is settled.\<close>

definition memory_resume :: "memory_process \<Rightarrow> memory_process" where
  "memory_resume p = (case mp_awaited p of
     None \<Rightarrow> p
   | Some callId \<Rightarrow> if callId \<in> set (mp_waiters p) then p else memory_loop p)"

definition memory_stop :: "(memory_process, unit) act" where
  "memory_stop p = (Inr (), fold (\<lambda>callId q. snd (memory_respond callId (HookDeny ''session terminated'') q))
     (mp_waiters p) (p\<lparr>mp_stopped := True\<rparr>))"

definition InMemoryClaudeProcess :: "memory_process harness_process" where
  "InMemoryClaudeProcess = \<lparr>hp_start = memory_start, hp_respond = memory_respond, hp_run = memory_run, hp_stop = memory_stop\<rparr>"

definition codex_memory_run :: "(memory_process, unit) act" where
  "codex_memory_run p =
     (if \<not> mp_handler p then (Inl (Error ''InMemoryCodexProcess: no tool-call handler registered''), p)
      else (Inr (), memory_loop (p\<lparr>mp_index := 0\<rparr>)))"

definition InMemoryCodexProcess :: "memory_process harness_process" where
  "InMemoryCodexProcess = \<lparr>hp_start = memory_start, hp_respond = memory_respond, hp_run = codex_memory_run, hp_stop = memory_stop\<rparr>"

section \<open>The contract of a process\<close>

text \<open>Every response is recorded under its call, and responding never throws.\<close>

locale harness_contract =
  fixes P :: "'p harness_process"
    and decisions :: "'p \<Rightarrow> (string \<times> hook_decision) list"
  assumes respond_records: "fst (hp_respond P i d p) = Inr ()"
    "decisions (snd (hp_respond P i d p)) = decisions p @ [(i, d)]"
begin

lemma verdict_decides:
  "ia_deliver (ClaudeCodeIntendant P) (VerdictMessage i s v) x = (r, y) \<Longrightarrow> r = Inr ()
     \<and> decisions (li_process y) = decisions (li_process x) @ [(i, if pv_decision v = deny then HookDeny (pv_reason v) else HookAllow)]"
  "ia_deliver (CodexIntendant P) (VerdictMessage i s v) x = (r, y) \<Longrightarrow> r = Inr ()
     \<and> decisions (li_process y) = decisions (li_process x) @ [(i, if pv_decision v = deny then HookDeny (pv_reason v) else HookAllow)]"
  using respond_records [of i _ "li_process x"]
  by (auto simp: ClaudeCodeIntendant_def claude_deliver_def CodexIntendant_def codex_deliver_def on_process_def
    split: prod.splits) (metis fst_conv snd_conv)+

end

interpretation claude_memory: harness_contract InMemoryClaudeProcess mp_responses
  by unfold_locales (simp_all add: InMemoryClaudeProcess_def memory_respond_def act_modify_def)

interpretation codex_memory: harness_contract InMemoryCodexProcess mp_responses
  by unfold_locales (simp_all add: InMemoryCodexProcess_def memory_respond_def act_modify_def)

section \<open>The gate answers the hook\<close>

lemma keeps_intendant:
  "record_event D i w = (r, w') \<Longrightarrow> w_intendant w' = w_intendant w"
  "post_request D a w = (r1, w') \<Longrightarrow> w_intendant w' = w_intendant w"
  "await_decision D h w = (r2, w') \<Longrightarrow> w_intendant w' = w_intendant w"
  by (auto simp: record_event_def post_request_def await_decision_def noted_def Let_def split: prod.splits sum.splits)

lemma judge_keeps: "judge_call D req w = (r, w') \<Longrightarrow> w_intendant w' = w_intendant w"
  unfolding judge_call_def
  by (auto simp: act_bind_def act_seq_def act_lift_def act_ret_def dest: keeps_intendant split: prod.splits sum.splits)

lemma settle_keeps:
  assumes "settle_call D req v w = (Inr (approved, e), w')"
  shows "w_intendant w' = w_intendant w \<and> (e = allow \<or> e = deny)
    \<and> (e = allow \<longleftrightarrow> pv_decision v = allow \<or> pv_decision v = require \<and> approved = Some True)"
proof (cases "pv_decision v = require")
  case True
  then show ?thesis
    using assms by (auto simp: settle_call_def act_bind_eq_Inr act_seq_def act_catch_def act_bind_def act_ret_def
      dest!: keeps_intendant split: prod.splits sum.splits if_splits)
qed (use assms in \<open>auto simp: settle_call_def act_ret_def split: if_splits\<close>)

lemma gate_delivers:
  assumes "gate D I req w = (Inr out, w')"
  shows "\<exists>e. (e = allow \<or> e = deny)
    \<and> (e = allow \<longleftrightarrow> pv_decision (mo_verdict out) = allow \<or> pv_decision (mo_verdict out) = require \<and> mo_approved out = Some True)
    \<and> verdict_ok (effective_verdict (mo_verdict out) e)
    \<and> ia_deliver I (VerdictMessage (tcr_id req) (tcr_sessionId req) (effective_verdict (mo_verdict out) e)) (w_intendant w)
        = (Inr (), w_intendant w')"
proof -
  from assms obtain v w1 approved e w2 w3 ev where j: "judge_call D req w = (Inr v, w1)"
      "settle_call D req v w1 = (Inr (approved, e), w2)" "record_event D (gate_event req e) w2 = (Inr (), w3)"
      "PolicyVerdict_parse (effective_verdict v e) = Inr ev"
      "deliver_message I (VerdictMessage (tcr_id req) (tcr_sessionId req) ev) w3 = (Inr (), w')"
      "out = \<lparr>mo_request = req, mo_verdict = v, mo_approved = approved, mo_executed = False\<rparr>"
    unfolding gate_def by (auto simp: act_bind_eq_Inr act_seq_def act_lift_def act_ret_def)
  have "ev = effective_verdict v e \<and> verdict_ok (effective_verdict v e)" using j(4) by (auto simp: PolicyVerdict_parse_def split: if_splits)
  moreover have "w_intendant w3 = w_intendant w"
    using judge_keeps [OF j(1)] settle_keeps [OF j(2)] keeps_intendant(1) [OF j(3)] by simp
  ultimately show ?thesis
    using j(5) settle_keeps [OF j(2)] unfolding j(6)
    by (intro exI [of _ e]) (auto simp: deliver_message_def on_intendant_def split: prod.splits)
qed

definition allowed_by :: "mediation_outcome \<Rightarrow> bool" where
  "allowed_by out \<longleftrightarrow> pv_decision (mo_verdict out) = allow
     \<or> pv_decision (mo_verdict out) = require \<and> mo_approved out = Some True"

text \<open>
  The gate answers the blocked hook. A gated call of a Claude Code or Codex session records
  exactly one response in the harness, under the call's identifier: it lets the call through
  when the policy allows it or a human approved it, and denies it otherwise.
\<close>

theorem gate_answers_hook:
  assumes "gate D (ClaudeCodeIntendant InMemoryClaudeProcess) req w = (Inr out, w')
    \<or> gate D (CodexIntendant InMemoryCodexProcess) req w = (Inr out, w')"
  shows "\<exists>d. mp_responses (li_process (w_intendant w')) = mp_responses (li_process (w_intendant w)) @ [(tcr_id req, d)]
    \<and> (d = HookAllow \<longleftrightarrow> allowed_by out)"
proof -
  have dec: "pv_decision (effective_verdict v e) = e" for v e by (simp add: effective_verdict_def)
  show ?thesis
    using assms
  proof
    assume "gate D (ClaudeCodeIntendant InMemoryClaudeProcess) req w = (Inr out, w')"
    from gate_delivers [OF this] show ?thesis
      by (auto simp: dec allowed_by_def dest!: claude_memory.verdict_decides(1))
  next
    assume "gate D (CodexIntendant InMemoryCodexProcess) req w = (Inr out, w')"
    from gate_delivers [OF this] show ?thesis
      by (auto simp: dec allowed_by_def dest!: codex_memory.verdict_decides(2))
  qed
qed

section \<open>Back-pressure\<close>

datatype harness_event = HRespond string hook_decision | HResume | HStop

fun harness_step :: "harness_event \<Rightarrow> memory_process \<Rightarrow> memory_process" where
  "harness_step (HRespond i d) p = snd (memory_respond i d p)"
| "harness_step HResume p = memory_resume p"
| "harness_step HStop p = snd (memory_stop p)"

text \<open>A started process, run, and then driven by any events.\<close>

definition harness_run :: "(string \<times> json obj) list \<Rightarrow> string \<Rightarrow> harness_event list \<Rightarrow> memory_process" where
  "harness_run script sid es = fold harness_step es
     (snd (memory_run (snd (memory_onPreToolUse (snd (memory_start sid (memory_process script)))))))"

definition blocks :: "memory_process \<Rightarrow> bool" where
  "blocks p \<longleftrightarrow> (mp_waiters p = [] \<or> (\<exists>c. mp_awaited p = Some c \<and> mp_waiters p = [c]))
     \<and> te_id ` set (mp_emitted p) \<subseteq> set (mp_waiters p) \<union> fst ` set (mp_responses p)"

lemma loop_blocks:
  assumes "te_id ` set (mp_emitted p) \<subseteq> fst ` set (mp_responses p)" "mp_waiters p = []"
  shows "blocks (memory_loop p)"
proof (cases "mp_script p ! mp_index p")
  case (Pair tool args)
  then show ?thesis using assms by (auto simp: memory_loop_def blocks_def Let_def)
qed

lemma respond_blocks: "blocks p \<Longrightarrow> blocks (snd (memory_respond i d p))"
  by (auto simp: blocks_def memory_respond_def act_modify_def split: if_splits)

lemma step_blocks: "blocks p \<Longrightarrow> blocks (harness_step e p)"
proof (cases e)
  case HResume
  assume b: "blocks p"
  show ?thesis
  proof (cases "mp_awaited p")
    case (Some c)
    show ?thesis
    proof (cases "c \<in> set (mp_waiters p)")
      case False
      then have "mp_waiters p = []" using b Some by (auto simp: blocks_def)
      then have "blocks (memory_loop p)" using b by (intro loop_blocks) (auto simp: blocks_def)
      then show ?thesis using HResume Some False by (simp add: memory_resume_def)
    qed (use HResume Some b in \<open>simp add: memory_resume_def\<close>)
  qed (use HResume b in \<open>simp add: memory_resume_def\<close>)
next
  case HStop
  assume b: "blocks p"
  have "blocks (fold (\<lambda>c q. snd (memory_respond c d q)) cs q)" if "blocks q" for cs q d
    using that by (induction cs arbitrary: q) (auto simp: respond_blocks)
  moreover have "blocks (p\<lparr>mp_stopped := True\<rparr>)" using b by (simp add: blocks_def)
  ultimately show ?thesis using HStop by (simp add: memory_stop_def)
qed (simp add: respond_blocks)

text \<open>
  The harness waits for its verdict. Whatever responses, stops and turns of the event loop
  follow each other, at most one call is open, and every call emitted so far is that one or has
  been answered.
\<close>

theorem harness_blocks:
  "length (mp_waiters (harness_run script sid es)) \<le> 1
   \<and> te_id ` set (mp_emitted (harness_run script sid es))
       \<subseteq> set (mp_waiters (harness_run script sid es)) \<union> fst ` set (mp_responses (harness_run script sid es))"
proof -
  have fold: "blocks p \<Longrightarrow> blocks (fold harness_step es p)" for p
    by (induction es arbitrary: p) (auto simp: step_blocks)
  have "blocks (harness_run script sid es)"
    unfolding harness_run_def
    by (rule fold) (auto simp: memory_run_def memory_onPreToolUse_def memory_start_def act_modify_def memory_process_def
      intro!: loop_blocks)
  then show ?thesis by (auto simp: blocks_def)
qed

section \<open>A prompt that cannot be posted\<close>

lemma judge_judged: "judge_call D req w = (Inr v, w') \<Longrightarrow> judged D req = Inr v \<and> w_intendant w' = w_intendant w
    \<and> w_log w' = w_log w @ [Journaled (call_event req v)]"
  by (auto simp: judge_call_def judged_def act_bind_eq_Inr act_seq_def act_lift_def act_ret_def record_event_def noted_def Let_def
      split: prod.splits sum.splits)

text \<open>
  A prompt that cannot be posted leaves the call open. When the policy asks for a human and the
  channel throws on the prompt, as it does when the screen refuses it, the gate throws: neither a
  denial is recorded nor any message delivered, so the hook of the harness stays blocked.
\<close>

theorem failed_post_blocks_hook:
  assumes "judged D req = Inr v" "pv_decision v = require" "gate D I req w = (r, w')"
    and "\<forall>c. \<exists>e c'. ca_post (dd_channel D) (call_approval req v) c = (Inl e, c')"
  shows "(\<exists>e. r = Inl e) \<and> w_intendant w' = w_intendant w
    \<and> prefix (w_log w') (w_log w @ [Journaled (call_event req v), Posted (call_approval req v)])"
proof (cases "judge_call D req w")
  case (Pair j w1)
  show ?thesis
  proof (cases j)
    case (Inl e)
    have "w_log w1 = w_log w" using Pair Inl
      by (auto simp: judge_call_def act_bind_def act_seq_def act_lift_def act_ret_def record_event_def noted_def Let_def
        split: prod.splits sum.splits)
    then show ?thesis using Pair Inl assms(3) judge_keeps [OF Pair] by (auto simp: gate_def act_bind_def)
  next
    case (Inr u)
    then have u: "u = v" "w_intendant w1 = w_intendant w" "w_log w1 = w_log w @ [Journaled (call_event req v)]"
      using judge_judged [of D req w u w1] Pair assms(1) by auto
    obtain e c where "ca_post (dd_channel D) (call_approval req v) (w_channel w1) = (Inl e, c)" using assms(4) by blast
    then have "gate D I req w = (Inl e, noted (Posted (call_approval req v)) (w1\<lparr>w_channel := c\<rparr>))"
      using Pair Inr u(1) assms(2) by (simp add: gate_def act_bind_def settle_call_def post_request_def)
    then show ?thesis using assms(3) u by (auto simp: noted_def)
  qed
qed

section \<open>Witness\<close>

definition claude_start :: "(string option, string list, recording list, memory_process live_intendant) world" where
  "claude_start = \<lparr>w_journal = no_files, w_store = None, w_channel = [], w_sandbox = [],
     w_intendant = \<lparr>li_process = memory_process claude_script, li_handler = True, li_sessionId = ''s1''\<rparr>,
     w_stamps = 0, w_ticks = 0, w_log = []\<rparr>"

lemma claude_answers: "collaborators_answer demo (ClaudeCodeIntendant InMemoryClaudeProcess)"
  by (auto simp: collaborators_answer_def demo_def toy_crypto_ok toy_datetime ConsoleChannel_def console_post_def
      RecordingSandbox_def recording_exec_def act_ret_def ClaudeCodeIntendant_def claude_deliver_def on_process_def
      InMemoryClaudeProcess_def memory_respond_def act_modify_def split: gateway_message.split)

lemma gate_answers_hook_witness:
  "\<exists>out w' d. gate demo (ClaudeCodeIntendant InMemoryClaudeProcess) demo_call claude_start = (Inr out, w')
     \<and> mp_responses (li_process (w_intendant w')) = [(''c1'', d)] \<and> (d = HookAllow \<longleftrightarrow> allowed_by out)"
proof -
  have "journal_usable demo claude_start"
    unfolding journal_usable_def claude_start_def using journal_good_no_files [of toy_crypto] by (auto simp: demo_def)
  then obtain out w' where g: "gate demo (ClaudeCodeIntendant InMemoryClaudeProcess) demo_call claude_start = (Inr out, w')"
    using gate_settles [OF claude_answers demo_judged] unfolding succeeds_def by blast
  show ?thesis using gate_answers_hook [OF disjI1 [OF g]] g by (auto simp: claude_start_def memory_process_def demo_call_def)
qed

definition asking :: "(unit, unit, string option, string list, recording list) daemon" where
  "asking = demo\<lparr>dd_policy := [\<lparr>pr_id = ''r1'', pr_effect = require, pr_tool = ''Read'', pr_actor = None,
       pr_tier = None, pr_priority = None, pr_reason = None\<rparr>],
     dd_channel := (ConsoleChannel [])\<lparr>ca_post := (\<lambda>_. act_throw (SecretExfiltrationError ''channel''))\<rparr>\<rparr>"

lemma failed_post_blocks_hook_witness:
  "\<exists>e w'. gate asking (ClaudeCodeIntendant InMemoryClaudeProcess) demo_call claude_start = (Inl e, w')
     \<and> mp_responses (li_process (w_intendant w')) = []"
proof -
  obtain r w' where g: "gate asking (ClaudeCodeIntendant InMemoryClaudeProcess) demo_call claude_start = (r, w')"
    by (cases "gate asking (ClaudeCodeIntendant InMemoryClaudeProcess) demo_call claude_start")
  obtain v where v: "judged asking demo_call = Inr v" "pv_decision v = require"
    by (simp add: judged_def evaluate_def asking_def demo_call_def matches_def winner_def max_rank_def Let_def
        PolicyVerdict_parse_def verdict_ok_def rule_reason_def)
  have "\<forall>c. \<exists>e c'. ca_post (dd_channel asking) (call_approval demo_call v) c = (Inl e, c')"
    by (simp add: asking_def act_throw_def)
  from failed_post_blocks_hook [OF v g this] show ?thesis using g by (auto simp: claude_start_def memory_process_def)
qed

end
