(* ===== verification/TriggerSource.thy ===== *)
theory TriggerSource
  imports Contracts
begin

text \<open>
  \<open>src/contracts/trigger-source.ts\<close>: what wakes a governed session. The event, the declaration and
  the liveness sample of a source, with their strict schemas. The port \<open>TriggerSource\<close> itself has no
  implementation in the repository.
\<close>

section \<open>Data and schemas\<close>

datatype trigger_kind = cron | webhook | channel_event | poll | manual

definition TriggerKind :: "trigger_kind schema" where
  "TriggerKind = z_enum [(''cron'', cron), (''webhook'', webhook), (''channel_event'', channel_event),
     (''poll'', poll), (''manual'', manual)]"

fun trigger_kind_name :: "trigger_kind \<Rightarrow> string" where
  "trigger_kind_name cron = ''cron''"
| "trigger_kind_name webhook = ''webhook''"
| "trigger_kind_name channel_event = ''channel_event''"
| "trigger_kind_name poll = ''poll''"
| "trigger_kind_name manual = ''manual''"

record trigger_event =
  tg_triggerId :: string
  tg_source :: string
  tg_kind :: trigger_kind
  tg_firedAt :: string
  tg_correlationId :: string
  tg_dedupeKey :: "string option"
  tg_sessionId :: "string option"
  tg_payload :: "json obj"

definition trigger_event_keys :: "string list" where
  "trigger_event_keys = [''triggerId'', ''source'', ''kind'', ''firedAt'', ''correlationId'', ''dedupeKey'',
     ''sessionId'', ''payload'']"

definition z_name :: "string option schema" where
  "z_name = z_default None (z_nullable z_min1)"

definition TriggerEvent :: "('sk, 'pk) crypto_lib \<Rightarrow> trigger_event schema" where
  "TriggerEvent L = z_strict trigger_event_keys (\<lambda>kvs.
     case (z_min1 (map_of kvs ''triggerId''), z_min1 (map_of kvs ''source''), TriggerKind (map_of kvs ''kind''),
           z_refine (lib_datetime L) z_string (map_of kvs ''firedAt''), z_min1 (map_of kvs ''correlationId''),
           z_name (map_of kvs ''dedupeKey''), z_name (map_of kvs ''sessionId''),
           z_default [] z_record (map_of kvs ''payload'')) of
       (Some i, Some s, Some k, Some f, Some c, Some d, Some ses, Some p) \<Rightarrow>
         Some \<lparr>tg_triggerId = i, tg_source = s, tg_kind = k, tg_firedAt = f, tg_correlationId = c,
           tg_dedupeKey = d, tg_sessionId = ses, tg_payload = p\<rparr>
     | _ \<Rightarrow> None)"

record trigger_source_spec =
  ts_id :: string
  ts_kind :: trigger_kind
  ts_enabled :: bool
  ts_livenessTimeoutMs :: "nat option"
  ts_config :: "json obj"

definition trigger_spec_keys :: "string list" where
  "trigger_spec_keys = [''id'', ''kind'', ''enabled'', ''livenessTimeoutMs'', ''config'']"

definition TriggerSourceSpec :: "trigger_source_spec schema" where
  "TriggerSourceSpec = z_strict trigger_spec_keys (\<lambda>kvs.
     case (z_min1 (map_of kvs ''id''), TriggerKind (map_of kvs ''kind''),
           z_default False z_boolean (map_of kvs ''enabled''),
           z_default None (z_nullable z_positive) (map_of kvs ''livenessTimeoutMs''),
           z_default [] z_record (map_of kvs ''config'')) of
       (Some i, Some k, Some e, Some t, Some c) \<Rightarrow>
         Some \<lparr>ts_id = i, ts_kind = k, ts_enabled = e, ts_livenessTimeoutMs = t, ts_config = c\<rparr>
     | _ \<Rightarrow> None)"

record trigger_heartbeat =
  th_sourceId :: string
  th_running :: bool
  th_lastEventAt :: "string option"
  th_restartCount :: nat

definition trigger_heartbeat_keys :: "string list" where
  "trigger_heartbeat_keys = [''sourceId'', ''running'', ''lastEventAt'', ''restartCount'']"

definition TriggerHeartbeat :: "('sk, 'pk) crypto_lib \<Rightarrow> trigger_heartbeat schema" where
  "TriggerHeartbeat L = z_strict trigger_heartbeat_keys (\<lambda>kvs.
     case (z_min1 (map_of kvs ''sourceId''), z_boolean (map_of kvs ''running''),
           z_nullable (z_refine (lib_datetime L) z_string) (map_of kvs ''lastEventAt''),
           z_default 0 z_nonnegative (map_of kvs ''restartCount'')) of
       (Some i, Some r, Some l, Some n) \<Rightarrow>
         Some \<lparr>th_sourceId = i, th_running = r, th_lastEventAt = l, th_restartCount = n\<rparr>
     | _ \<Rightarrow> None)"

section \<open>Printing\<close>

definition trigger_json :: "trigger_event \<Rightarrow> json" where
  "trigger_json e = JObj [(''triggerId'', JStr (tg_triggerId e)), (''source'', JStr (tg_source e)),
     (''kind'', JStr (trigger_kind_name (tg_kind e))), (''firedAt'', JStr (tg_firedAt e)),
     (''correlationId'', JStr (tg_correlationId e)), (''dedupeKey'', json_opt JStr (tg_dedupeKey e)),
     (''sessionId'', json_opt JStr (tg_sessionId e)), (''payload'', JObj (tg_payload e))]"

definition trigger_ok :: "('sk, 'pk) crypto_lib \<Rightarrow> trigger_event \<Rightarrow> bool" where
  "trigger_ok L e \<longleftrightarrow> tg_triggerId e \<noteq> [] \<and> tg_source e \<noteq> [] \<and> lib_datetime L (tg_firedAt e)
     \<and> tg_correlationId e \<noteq> [] \<and> tg_dedupeKey e \<noteq> Some [] \<and> tg_sessionId e \<noteq> Some []"

lemma trigger_kind_reads [schema_reads]: "TriggerKind (Some (JStr (trigger_kind_name k))) = Some k"
  by (cases k) (simp_all add: TriggerKind_def schema_reads)

lemma z_name_reads: "x \<noteq> Some [] \<Longrightarrow> z_name (Some (json_opt JStr x)) = Some x"
  unfolding z_name_def z_default_present by (rule z_nullable_reads) (auto simp: schema_reads)

lemma z_name_nonempty: "z_name x = Some v \<Longrightarrow> v \<noteq> Some []"
  by (auto simp: z_name_def z_default_def z_nullable_def split: if_splits dest: z_min1D)

lemma trigger_event_reads: "trigger_ok L e \<Longrightarrow> TriggerEvent L (Some (trigger_json e)) = Some e"
  by (simp add: TriggerEvent_def z_strict_def z_object_def trigger_json_def trigger_ok_def trigger_event_keys_def
      schema_reads z_name_reads)

text \<open>A strict object schema has seen an object with known keys only.\<close>

lemma z_strictE:
  assumes "z_strict keys f (Some j) = Some v"
  obtains kvs where "j = JObj kvs" "fst ` set kvs \<subseteq> set keys" "f kvs = Some v"
proof -
  from assms [unfolded z_strict_def] obtain kvs where k: "Some j = Some (JObj kvs)"
    "(if list_all (\<lambda>p. fst p \<in> set keys) kvs then f kvs else None) = Some v"
    by (rule z_objectE)
  then show thesis by (auto intro!: that [of kvs] simp: list_all_iff split: if_splits)
qed

lemma z_string_Some: "z_string x = Some v \<longleftrightarrow> x = Some (JStr v)"
  by (auto simp: z_string_def split: option.splits json.splits)

lemma z_min1_Some: "z_min1 x = Some v \<longleftrightarrow> x = Some (JStr v) \<and> v \<noteq> []"
  by (auto simp: z_min1_def z_refine_def z_string_def split: option.splits json.splits if_splits)

lemma z_boolean_Some: "z_boolean x = Some b \<longleftrightarrow> x = Some (JBool b)"
  by (auto simp: z_boolean_def split: option.splits json.splits)

section \<open>Properties\<close>

text \<open>
  C24: what the schema of trigger events accepts. An accepted frame is an object that names no other
  key and carries a correlation id of its own; the typed event is well formed, and prints back to a
  frame that reads as the same event.
\<close>

theorem trigger_event_typed:
  assumes "TriggerEvent L (Some j) = Some e"
  shows "trigger_ok L e \<and> TriggerEvent L (Some (trigger_json e)) = Some e
    \<and> (\<exists>kvs. j = JObj kvs \<and> fst ` set kvs \<subseteq> set trigger_event_keys
         \<and> map_of kvs ''correlationId'' = Some (JStr (tg_correlationId e)))"
proof -
  from assms obtain kvs where k: "j = JObj kvs" "fst ` set kvs \<subseteq> set trigger_event_keys"
    and f: "(case (z_min1 (map_of kvs ''triggerId''), z_min1 (map_of kvs ''source''), TriggerKind (map_of kvs ''kind''),
           z_refine (lib_datetime L) z_string (map_of kvs ''firedAt''), z_min1 (map_of kvs ''correlationId''),
           z_name (map_of kvs ''dedupeKey''), z_name (map_of kvs ''sessionId''),
           z_default [] z_record (map_of kvs ''payload'')) of
       (Some i, Some s, Some k, Some f, Some c, Some d, Some ses, Some p) \<Rightarrow>
         Some \<lparr>tg_triggerId = i, tg_source = s, tg_kind = k, tg_firedAt = f, tg_correlationId = c,
           tg_dedupeKey = d, tg_sessionId = ses, tg_payload = p\<rparr>
     | _ \<Rightarrow> None) = Some e"
    unfolding TriggerEvent_def by (rule z_strictE)
  then have "trigger_ok L e \<and> map_of kvs ''correlationId'' = Some (JStr (tg_correlationId e))"
    by (auto simp: trigger_ok_def z_min1_Some split: option.splits dest: z_refineD z_name_nonempty)
  then show ?thesis using k trigger_event_reads by blast
qed

text \<open>
  A declared source is inert until an operator turns it on. The declaration reads as enabled
  exactly when the text says so, a missing key being off, and a watched source has a positive
  limit of silence.
\<close>

theorem trigger_source_inert:
  assumes "TriggerSourceSpec (Some (JObj kvs)) = Some s"
  shows "(ts_enabled s \<longleftrightarrow> map_of kvs ''enabled'' = Some (JBool True)) \<and> ts_livenessTimeoutMs s \<noteq> Some 0
    \<and> ts_id s \<noteq> []"
proof -
  have t: "t \<noteq> Some 0" if "z_default None (z_nullable z_positive) x = Some t" for x t
    using that by (auto simp: z_default_def z_nullable_def split: if_splits dest: z_positiveD)
  have e: "b \<longleftrightarrow> x = Some (JBool True)" if "z_default False z_boolean x = Some b" for x b
    using that by (auto simp: z_default_def z_boolean_Some split: if_splits)
  from assms show ?thesis unfolding TriggerSourceSpec_def
    by (elim z_strictE) (auto simp: z_min1_Some split: option.splits dest: t e)
qed

text \<open>A sample without the time of the latest event is refused, a count of restarts is not negative.\<close>

theorem trigger_heartbeat_sampled:
  assumes "TriggerHeartbeat L (Some (JObj kvs)) = Some h"
  shows "map_of kvs ''lastEventAt'' = Some (json_opt JStr (th_lastEventAt h))
    \<and> pred_option (lib_datetime L) (th_lastEventAt h) \<and> th_sourceId h \<noteq> []"
proof -
  have l: "x = Some (json_opt JStr v) \<and> pred_option (lib_datetime L) v"
    if "z_nullable (z_refine (lib_datetime L) z_string) x = Some v" for x v
    using that by (auto simp: z_nullable_def json_opt_def z_string_Some split: if_splits dest: z_refineD)
  from assms show ?thesis unfolding TriggerHeartbeat_def
    by (elim z_strictE) (auto simp: z_min1_Some split: option.splits dest: l)
qed

section \<open>Witnesses\<close>

definition a_trigger :: json where
  "a_trigger = JObj [(''triggerId'', JStr ''t1''), (''source'', JStr ''nightly''), (''kind'', JStr ''cron''),
     (''firedAt'', JStr ''2026-01-01T00:00:00Z''), (''correlationId'', JStr ''run-1'')]"

lemma trigger_event_typed_witness:
  "\<exists>e. TriggerEvent toy_crypto (Some a_trigger) = Some e \<and> trigger_ok toy_crypto e
    \<and> TriggerEvent toy_crypto (Some (trigger_json e)) = Some e"
proof -
  let ?e = "\<lparr>tg_triggerId = ''t1'', tg_source = ''nightly'', tg_kind = cron, tg_firedAt = ''2026-01-01T00:00:00Z'',
    tg_correlationId = ''run-1'', tg_dedupeKey = None, tg_sessionId = None, tg_payload = []\<rparr>"
  have "TriggerEvent toy_crypto (Some a_trigger) = Some ?e"
    by (simp add: TriggerEvent_def z_strict_def z_object_def a_trigger_def trigger_event_keys_def schema_reads
        TriggerKind_def z_name_def z_default_def z_refine_def toy_datetime)
  with trigger_event_typed [OF this] show ?thesis by blast
qed

lemma trigger_source_inert_witness:
  "\<exists>s. TriggerSourceSpec (Some (JObj [(''id'', JStr ''nightly''), (''kind'', JStr ''cron''),
      (''livenessTimeoutMs'', JNum 60000)])) = Some s \<and> \<not> ts_enabled s \<and> ts_livenessTimeoutMs s \<noteq> Some 0"
proof -
  let ?kvs = "[(''id'', JStr ''nightly''), (''kind'', JStr ''cron''), (''livenessTimeoutMs'', JNum 60000)]"
  obtain s where s: "TriggerSourceSpec (Some (JObj ?kvs)) = Some s"
    by (simp add: TriggerSourceSpec_def z_strict_def z_object_def trigger_spec_keys_def schema_reads TriggerKind_def
        z_default_def z_nullable_def z_positive_def z_refine_def z_int_def)
  with trigger_source_inert [OF s] show ?thesis by auto
qed

lemma trigger_heartbeat_sampled_witness:
  "TriggerHeartbeat toy_crypto (Some (JObj [(''sourceId'', JStr ''nightly''), (''running'', JBool True),
      (''lastEventAt'', JNull)])) = Some \<lparr>th_sourceId = ''nightly'', th_running = True, th_lastEventAt = None, th_restartCount = 0\<rparr>
   \<and> pred_option (lib_datetime toy_crypto) (None :: string option)"
proof -
  have h: "TriggerHeartbeat toy_crypto (Some (JObj [(''sourceId'', JStr ''nightly''), (''running'', JBool True),
      (''lastEventAt'', JNull)])) = Some \<lparr>th_sourceId = ''nightly'', th_running = True, th_lastEventAt = None, th_restartCount = 0\<rparr>"
    by (simp add: TriggerHeartbeat_def z_strict_def z_object_def trigger_heartbeat_keys_def schema_reads
        z_default_def z_nullable_def)
  from trigger_heartbeat_sampled [OF h] h show ?thesis by simp
qed

end
