(* ===== verification/Gateway.thy ===== *)
theory Gateway
  imports Contracts
begin

text \<open>
  The framing of gateway messages (\<open>src/gateway/protocol.ts\<close>): the encoder, the strict decoder and
  the streaming decoder, whose buffer is the state of its action.
\<close>

section \<open>Frames\<close>

definition MAX_FRAME_BYTES :: nat where
  "MAX_FRAME_BYTES = 1048576"

text \<open>\<open>length\<close> of a string counts UTF-16 units: one per code point, two from U+10000 on.\<close>

definition utf16_units :: "char \<Rightarrow> nat" where
  "utf16_units c = (let b = of_char c :: nat in if 128 \<le> b \<and> b < 192 then 0 else if 240 \<le> b then 2 else 1)"

definition utf16_length :: "string \<Rightarrow> nat" where
  "utf16_length s = sum_list (map utf16_units s)"

definition encodeMessage :: "gateway_message \<Rightarrow> string result" where
  "encodeMessage m =
     res_bind (of_option (ZodError ''GatewayMessage'') (GatewayMessage (Some (message_json m)))) (\<lambda>parsed.
       Inr (json_stringify (message_json parsed) @ [newline]))"

definition decodeMessage :: "string \<Rightarrow> gateway_message result" where
  "decodeMessage line =
     (case json_parse line of
        None \<Rightarrow> Inl (GatewayProtocolError (''invalid JSON frame: '' @ ''JSON Parse error''))
      | Some raw \<Rightarrow>
          of_option (GatewayProtocolError (''schema-invalid GatewayMessage: '' @ ''GatewayMessage'')) (GatewayMessage (Some raw)))"

text \<open>The loop of \<open>push\<close>; a frame that throws is already off the buffer.\<close>

function take_frames :: "string \<Rightarrow> gateway_message list \<Rightarrow> gateway_message list result \<times> string" where
  "take_frames buffer out =
     (let newlineIdx = index_of_char newline buffer in
      if newlineIdx < 0 then (Inr out, buffer)
      else
        let line = take (nat newlineIdx) buffer; rest = drop (nat newlineIdx + 1) buffer in
        if str_trim line \<noteq> [] then
          (case decodeMessage line of
             Inl e \<Rightarrow> (Inl e, rest)
           | Inr m \<Rightarrow> take_frames rest (out @ [m]))
        else take_frames rest out)"
  by pat_completeness auto
termination
proof (relation "measure (length \<circ> fst)", simp)
  have len: "index_of_char c s < int (length s) \<or> s = []" for c s
    by (induction s) (auto simp: Let_def)
  fix buffer :: string and out :: "gateway_message list" and i line rest x y
  assume a: "i = index_of_char newline buffer" "\<not> i < 0" "rest = drop (nat i + 1) buffer"
  then have "length rest < length buffer" using len [of newline buffer] by (cases buffer) auto
  then show "((rest, out @ [y]), buffer, out) \<in> measure (length \<circ> fst)"
    "((rest, out), buffer, out) \<in> measure (length \<circ> fst)" by simp_all
qed

declare take_frames.simps [simp del]

definition push :: "string \<Rightarrow> (string, gateway_message list) act" where
  "push chunk buffer =
     (case take_frames (buffer @ chunk) [] of
        (Inl e, b) \<Rightarrow> (Inl e, b)
      | (Inr out, b) \<Rightarrow>
          if MAX_FRAME_BYTES < utf16_length b
          then (Inl (GatewayProtocolError (''frame exceeds MAX_FRAME_BYTES ('' @ show_nat MAX_FRAME_BYTES @ '')'')), b)
          else (Inr out, b))"

section \<open>The codec\<close>

lemma take_frames_none: "newline \<notin> set s \<Longrightarrow> take_frames s out = (Inr out, s)"
  by (simp add: take_frames.simps index_of_char_none Let_def)

lemma take_frames_line:
  "newline \<notin> set a \<Longrightarrow> take_frames (a @ newline # b) out =
     (if str_trim a \<noteq> [] then case decodeMessage a of Inl e \<Rightarrow> (Inl e, b) | Inr m \<Rightarrow> take_frames b (out @ [m])
      else take_frames b out)"
  by (subst take_frames.simps) (simp add: index_of_char_first Let_def nat_add_distrib)

lemma text_cases [case_names none line]:
  assumes "newline \<notin> set s \<Longrightarrow> P" "\<And>a b. s = a @ newline # b \<Longrightarrow> newline \<notin> set a \<Longrightarrow> P"
  shows P
  using assms by (metis split_list_first)

text \<open>The loop, as a map of the decoder over the complete nonblank lines.\<close>

definition complete_lines :: "string \<Rightarrow> string list" where
  "complete_lines s = filter (\<lambda>l. str_trim l \<noteq> []) (butlast (str_split [newline] s))"

definition rest_line :: "string \<Rightarrow> string" where
  "rest_line s = last (str_split [newline] s)"

lemma str_split_not_Nil: "str_split [newline] s \<noteq> []"
  by (cases rule: text_cases [of s]) (auto simp: str_split_char str_split_char_none)

lemma lines_none: "newline \<notin> set s \<Longrightarrow> complete_lines s = []" "newline \<notin> set s \<Longrightarrow> rest_line s = s"
  by (simp_all add: complete_lines_def rest_line_def str_split_char_none)

lemma lines_line:
  assumes "newline \<notin> set a"
  shows "complete_lines (a @ newline # b) = (if str_trim a \<noteq> [] then [a] else []) @ complete_lines b"
    "rest_line (a @ newline # b) = rest_line b"
  using assms str_split_not_Nil [of b] by (simp_all add: complete_lines_def rest_line_def str_split_char)

lemma rest_line_no_newline: "newline \<notin> set (rest_line s)"
proof (induction s rule: length_induct)
  case (1 s)
  then show ?case by (cases rule: text_cases [of s]) (auto simp: lines_none lines_line)
qed

lemma take_frames_reference:
  "take_frames s out = (Inr ms, b) \<longleftrightarrow>
     (\<exists>ns. res_map decodeMessage (complete_lines s) = Inr ns \<and> ms = out @ ns) \<and> b = rest_line s"
proof (induction s arbitrary: out rule: length_induct)
  case (1 s)
  show ?case
  proof (cases rule: text_cases [of s])
    case none
    then show ?thesis by (auto simp: take_frames_none lines_none)
  next
    case (line a t)
    then have IH: "take_frames t o' = (Inr ms, b) \<longleftrightarrow>
       (\<exists>ns. res_map decodeMessage (complete_lines t) = Inr ns \<and> ms = o' @ ns) \<and> b = rest_line t" for o'
      using 1 by simp
    show ?thesis
      using line(2) unfolding line(1)
      by (cases "decodeMessage a") (auto simp: take_frames_line lines_line IH res_bind_Inr)
  qed
qed

lemma lines_append:
  "complete_lines (s @ t) = complete_lines s @ complete_lines (rest_line s @ t) \<and> rest_line (s @ t) = rest_line (rest_line s @ t)"
proof (induction s rule: length_induct)
  case (1 s)
  show ?case
  proof (cases rule: text_cases [of s])
    case (line a b)
    then have "complete_lines (b @ t) = complete_lines b @ complete_lines (rest_line b @ t) \<and> rest_line (b @ t) = rest_line (rest_line b @ t)"
      using 1 by simp
    then show ?thesis using line by (simp add: lines_line)
  qed (simp add: lines_none)
qed

fun pushes :: "string list \<Rightarrow> (string, gateway_message list) act" where
  "pushes [] = act_ret []"
| "pushes (c # cs) = act_bind (push c) (\<lambda>ms. act_bind (pushes cs) (\<lambda>ns. act_ret (ms @ ns)))"

lemma push_Inr: "push c b = (Inr ms, b') \<longleftrightarrow>
   res_map decodeMessage (complete_lines (b @ c)) = Inr ms \<and> b' = rest_line (b @ c) \<and> utf16_length b' \<le> MAX_FRAME_BYTES"
  using take_frames_reference [of "b @ c" "[]"]
  by (auto simp: push_def split: prod.splits sum.splits)

definition text_of :: "gateway_message \<Rightarrow> string" where
  "text_of m = json_stringify (message_json m)"

definition frame_of :: "gateway_message \<Rightarrow> string" where
  "frame_of m = text_of m @ [newline]"

lemma encode_ok: "message_ok m \<Longrightarrow> encodeMessage m = Inr (frame_of m)"
  by (simp add: encodeMessage_def GatewayMessage_reads frame_of_def text_of_def)

lemma decode_text: "message_ok m \<Longrightarrow> decodeMessage (text_of m) = Inr m"
  by (simp add: decodeMessage_def text_of_def json_parse_stringify json_ok_message GatewayMessage_reads)

lemma text_line: "newline \<notin> set (text_of m)" "str_trim (text_of m) \<noteq> []"
  by (simp_all add: text_of_def no_newline_stringify stringify_not_blank)

lemma utf16_length_append [simp]: "utf16_length (a @ b) = utf16_length a + utf16_length b"
  by (simp add: utf16_length_def)

text \<open>What any prefix of a stream of frames holds.\<close>

lemma frames_prefix:
  assumes "x @ y = concat (map frame_of ms)"
  shows "\<exists>ms1 ms2. ms = ms1 @ ms2 \<and> complete_lines x = map text_of ms1 \<and> rest_line x @ y = concat (map frame_of ms2)
    \<and> ((\<forall>m \<in> set ms. utf16_length (text_of m) \<le> MAX_FRAME_BYTES) \<longrightarrow> utf16_length (rest_line x) \<le> MAX_FRAME_BYTES)"
  using assms
proof (induction ms arbitrary: x)
  case Nil
  then show ?case by (simp add: lines_none utf16_length_def)
next
  case (Cons m ms)
  from Cons.prems have "x @ y = frame_of m @ concat (map frame_of ms)" by simp
  then obtain us where "x = frame_of m @ us \<and> us @ y = concat (map frame_of ms)
      \<or> x @ us = frame_of m \<and> y = us @ concat (map frame_of ms)"
    unfolding append_eq_append_conv2 by blast
  then consider (later) us where "x = frame_of m @ us" "us @ y = concat (map frame_of ms)"
    | (within) us where "frame_of m = x @ us" "us \<noteq> []"
    by (metis append.right_neutral append_Nil)
  then show ?case
  proof cases
    case later
    then obtain ms1 ms2 where i: "ms = ms1 @ ms2" "complete_lines us = map text_of ms1"
        "rest_line us @ y = concat (map frame_of ms2)"
        "(\<forall>m \<in> set ms. utf16_length (text_of m) \<le> MAX_FRAME_BYTES) \<longrightarrow> utf16_length (rest_line us) \<le> MAX_FRAME_BYTES"
      using Cons.IH [OF later(2)] by (elim exE conjE) (rule that)
    have "complete_lines x = map text_of (m # ms1)" "rest_line x = rest_line us"
      using later(1) i(2) by (simp_all add: frame_of_def lines_line text_line)
    then show ?thesis using i by (intro exI [of _ "m # ms1"] exI [of _ ms2]) simp
  next
    case within
    then obtain us' where t: "text_of m = x @ us'"
      by (cases us rule: rev_cases) (auto simp: frame_of_def)
    then have "newline \<notin> set x" "utf16_length (text_of m) \<le> MAX_FRAME_BYTES \<longrightarrow> utf16_length x \<le> MAX_FRAME_BYTES"
      using text_line(1) [of m] by (auto simp: t)
    then show ?thesis
      using Cons.prems by (intro exI [of _ "[]"] exI [of _ "m # ms"]) (simp add: lines_none)
  qed
qed

lemma decode_texts: "\<forall>m \<in> set ms. message_ok m \<Longrightarrow> res_map decodeMessage (map text_of ms) = Inr ms"
  by (induction ms) (auto simp: decode_text)

lemma pushes_frames:
  assumes "b @ concat cs = concat (map frame_of ms)" "newline \<notin> set b"
    "\<forall>m \<in> set ms. message_ok m \<and> utf16_length (text_of m) \<le> MAX_FRAME_BYTES"
  shows "pushes cs b = (Inr ms, [])"
  using assms
proof (induction cs arbitrary: b ms)
  case Nil
  then have "ms = []" by (cases ms) (auto simp: frame_of_def)
  then show ?case using Nil by (simp add: act_ret_def)
next
  case (Cons c cs)
  obtain ms1 ms2 where p: "ms = ms1 @ ms2" "complete_lines (b @ c) = map text_of ms1"
      "rest_line (b @ c) @ concat cs = concat (map frame_of ms2)" "utf16_length (rest_line (b @ c)) \<le> MAX_FRAME_BYTES"
    using frames_prefix [of "b @ c" "concat cs" ms] Cons.prems by auto
  have "push c b = (Inr ms1, rest_line (b @ c))"
    using p(1,2,4) Cons.prems(3) by (simp add: push_Inr decode_texts)
  moreover have "pushes cs (rest_line (b @ c)) = (Inr ms2, [])"
    using p(1) Cons.prems(3) by (intro Cons.IH p(3) rest_line_no_newline) simp
  ultimately show ?case using p(1) by (simp add: act_bind_run act_ret_def)
qed

lemma pushes_reference:
  "pushes cs b = (Inr ms, b') \<Longrightarrow> newline \<notin> set b \<Longrightarrow>
     res_map decodeMessage (complete_lines (b @ concat cs)) = Inr ms \<and> b' = rest_line (b @ concat cs)"
proof (induction cs arbitrary: b ms)
  case (Cons c cs)
  then obtain ms1 ms2 where p: "push c b = (Inr ms1, rest_line (b @ c))" "pushes cs (rest_line (b @ c)) = (Inr ms2, b')"
      "ms = ms1 @ ms2"
    by (auto simp: act_bind_eq_Inr act_ret_def push_Inr)
  have "res_map decodeMessage (complete_lines (rest_line (b @ c) @ concat cs)) = Inr ms2 \<and> b' = rest_line (rest_line (b @ c) @ concat cs)"
    by (rule Cons.IH [OF p(2) rest_line_no_newline])
  moreover have "res_map decodeMessage (complete_lines (b @ c)) = Inr ms1" using p(1) by (simp add: push_Inr)
  ultimately show ?case
    using lines_append [of "b @ c" "concat cs"] p(3) by (simp add: res_map_Inr list_all2_appendI)
qed (simp add: act_ret_def lines_none)

lemma push_frame: "message_ok m \<Longrightarrow> push (frame_of m) [] = (Inr [m], [])"
  unfolding push_Inr frame_of_def
  by (simp add: lines_line [OF text_line(1)] lines_none text_line(2) decode_text utf16_length_def)

text \<open>One chunk of a stream of messages: what it yields are messages of the stream, and the rest is kept.\<close>

lemma stream_push:
  assumes "x @ c @ y = concat (map frame_of ms)" "\<forall>m \<in> set ms. message_ok m" "push c (rest_line x) = (r, b)"
  shows "b = rest_line (x @ c) \<and> (\<forall>out. r = Inr out \<longrightarrow> set out \<subseteq> set ms)"
proof -
  obtain ms1 ms2 where p: "ms = ms1 @ ms2" "complete_lines (x @ c) = map text_of ms1"
    using frames_prefix [of "x @ c" y ms] assms(1) by auto
  have ap: "complete_lines (x @ c) = complete_lines x @ complete_lines (rest_line x @ c)" "rest_line (rest_line x @ c) = rest_line (x @ c)"
    using lines_append [of x c] by auto
  then obtain ns where ns: "set ns \<subseteq> set ms1" "complete_lines (rest_line x @ c) = map text_of ns"
    using p(2) by (metis append_eq_map_conv order_refl set_append sup.coboundedI2)
  then have "res_map decodeMessage (complete_lines (rest_line x @ c)) = Inr ns"
    using assms(2) p(1) by (auto intro!: decode_texts)
  then have "take_frames (rest_line x @ c) [] = (Inr ns, rest_line (x @ c))"
    unfolding take_frames_reference ap(2) by simp
  then show ?thesis using assms(3) ns(1) p(1) by (auto simp: push_def split: if_splits)
qed

text \<open>
  C14: framing round trip. However the encoded messages of a stream are cut into chunks, the
  decoder yields exactly the messages, in order, and keeps nothing.
\<close>

theorem frames_roundtrip:
  assumes "\<forall>m \<in> set ms. message_ok m \<and> utf16_length (json_stringify (message_json m)) \<le> MAX_FRAME_BYTES"
    and "res_map encodeMessage ms = Inr frames" "concat cs = concat frames"
  shows "pushes cs [] = (Inr ms, [])"
proof -
  have "res_map encodeMessage ms = Inr (map frame_of ms)"
    using assms(1) by (induction ms) (auto simp: encode_ok)
  then show ?thesis
    using assms pushes_frames [of "[]" cs ms] by (simp add: text_of_def)
qed

text \<open>
  C17: the streaming decoder is the decoder of the whole text. What it yields over any chunks is
  the decoding of the complete nonblank lines of their concatenation, and what it keeps is the
  text after the last newline, which never exceeds the limit after a push.
\<close>

theorem decoder_reference:
  assumes "pushes (cs @ [c]) [] = (Inr ms, b)"
  shows "res_map decodeMessage (complete_lines (concat (cs @ [c]))) = Inr ms \<and> b = rest_line (concat (cs @ [c]))
    \<and> newline \<notin> set b \<and> utf16_length b \<le> MAX_FRAME_BYTES"
proof -
  have "utf16_length b' \<le> MAX_FRAME_BYTES" if "pushes (ds @ [c]) a = (Inr ns, b')" for ds a ns b'
    using that by (induction ds arbitrary: a ns) (auto simp: act_bind_eq_Inr act_ret_def push_Inr)
  then show ?thesis using assms pushes_reference [OF assms] rest_line_no_newline by auto
qed

section \<open>Witnesses\<close>

definition two_messages :: "gateway_message list" where
  "two_messages = [GatewayError ''1'' ''s'' ''no'', ToolCallResult ''2'' ''s'' True None]"

lemma two_messages_text:
  "map text_of two_messages = [''{\"id\":\"1\",\"sessionId\":\"s\",\"kind\":\"error\",\"message\":\"no\"}'',
     ''{\"id\":\"2\",\"sessionId\":\"s\",\"kind\":\"tool_call_result\",\"ok\":true}'']"
  by code_simp

lemma two_messages_frames: "res_map encodeMessage two_messages = Inr (map frame_of two_messages)"
  by (simp add: two_messages_def encode_ok)

lemma two_messages_short: "\<forall>m \<in> set two_messages. message_ok m \<and> utf16_length (text_of m) \<le> MAX_FRAME_BYTES"
proof -
  have "list_all (\<lambda>t. utf16_length t \<le> MAX_FRAME_BYTES) (map text_of two_messages)"
    unfolding two_messages_text by (simp add: utf16_length_def utf16_units_def MAX_FRAME_BYTES_def)
  then show ?thesis by (auto simp: list_all_iff two_messages_def)
qed

lemma frames_roundtrip_witness:
  "pushes [take 7 (concat (map frame_of two_messages)), drop 7 (concat (map frame_of two_messages))] [] = (Inr two_messages, [])"
  using two_messages_short by (intro frames_roundtrip [OF _ two_messages_frames]) (simp_all add: text_of_def)

lemma decoder_reference_witness:
  "res_map decodeMessage (complete_lines (concat (map frame_of two_messages))) = Inr two_messages"
proof -
  have "pushes ([take 7 (concat (map frame_of two_messages))] @ [drop 7 (concat (map frame_of two_messages))]) [] = (Inr two_messages, [])"
    using two_messages_short by (intro pushes_frames) simp_all
  from decoder_reference [OF this] show ?thesis by simp
qed

definition a_request :: tool_call_request where
  "a_request = \<lparr>tcr_id = ''t1'', tcr_sessionId = ''s1'', tcr_tool = ''Bash'', tcr_args = [], tcr_actor = claude_process\<rparr>"

lemma a_request_encodes: "encodeMessage (ToolCallRequest a_request) = Inr (frame_of (ToolCallRequest a_request))"
  by (rule encode_ok) (simp add: a_request_def)

end
