(* ===== verification/GatewayClient.thy ===== *)
theory GatewayClient
  imports Gateway
begin

text \<open>
  The sandbox-side end of the gateway socket (\<open>src/gateway/client.ts\<close>), as a state machine over
  the calls of its methods, the events of its socket and its timers. A promise is a number; the
  requests made and the outcomes of the settled promises are kept beside the state the code has.
\<close>

section \<open>The client\<close>

datatype outcome = Resolved gateway_message | Rejected js_error

record gateway_client =
  gc_timeoutMs :: nat
  gc_connected :: bool
  gc_buffer :: string
  gc_pending :: "(string \<times> nat) list"
  gc_sent :: "string list"
  gc_requests :: "tool_call_request list"
  gc_settled :: "(nat \<times> outcome) list"

definition client_start :: "nat \<Rightarrow> gateway_client" where
  "client_start timeoutMs = \<lparr>gc_timeoutMs = timeoutMs, gc_connected = False, gc_buffer = [], gc_pending = [],
     gc_sent = [], gc_requests = [], gc_settled = []\<rparr>"

text \<open>A promise settles once; later settlements of it are ignored.\<close>

definition settle :: "nat \<Rightarrow> outcome \<Rightarrow> gateway_client \<Rightarrow> gateway_client" where
  "settle n r s = (if n \<in> fst ` set (gc_settled s) then s else s\<lparr>gc_settled := gc_settled s @ [(n, r)]\<rparr>)"

definition failAll :: "js_error \<Rightarrow> gateway_client \<Rightarrow> gateway_client" where
  "failAll err s = (fold (\<lambda>(_, n). settle n (Rejected err)) (gc_pending s) s)\<lparr>gc_pending := []\<rparr>"

definition client_message :: "gateway_message \<Rightarrow> gateway_client \<Rightarrow> gateway_client" where
  "client_message msg s =
     (case map_of (gc_pending s) (message_id msg) of
        None \<Rightarrow> s
      | Some n \<Rightarrow> settle n (Resolved msg) (s\<lparr>gc_pending := AList.delete (message_id msg) (gc_pending s)\<rparr>))"

definition client_data :: "string \<Rightarrow> gateway_client \<Rightarrow> gateway_client" where
  "client_data chunk s =
     (case push chunk (gc_buffer s) of
        (Inl e, b) \<Rightarrow> failAll e (s\<lparr>gc_buffer := b\<rparr>)
      | (Inr messages, b) \<Rightarrow> fold client_message messages (s\<lparr>gc_buffer := b\<rparr>))"

text \<open>
  \<open>request\<close>: the promise is the next number. An encoder that throws rejects the promise but leaves
  its entry and its timer.
\<close>

definition client_request :: "tool_call_request \<Rightarrow> gateway_client \<Rightarrow> gateway_client" where
  "client_request req s =
     (let n = length (gc_requests s); s' = s\<lparr>gc_requests := gc_requests s @ [req]\<rparr> in
      if \<not> gc_connected s then settle n (Rejected (Error ''gateway client not connected'')) s'
      else if map_of (gc_pending s) (tcr_id req) \<noteq> None
      then settle n (Rejected (Error (''request id '' @ [CHR 0x27] @ tcr_id req @ [CHR 0x27] @ '' already in flight''))) s'
      else
        let s'' = s'\<lparr>gc_pending := AList.update (tcr_id req) n (gc_pending s)\<rparr> in
        (case encodeMessage (ToolCallRequest req) of
           Inl e \<Rightarrow> settle n (Rejected e) s''
         | Inr frame \<Rightarrow> s''\<lparr>gc_sent := gc_sent s @ [frame]\<rparr>))"

text \<open>The timer of the entry of an id; it is cleared when the entry goes.\<close>

definition client_timeout :: "string \<Rightarrow> gateway_client \<Rightarrow> gateway_client" where
  "client_timeout i s =
     (case map_of (gc_pending s) i of
        None \<Rightarrow> s
      | Some n \<Rightarrow> settle n (Rejected (Error (''gateway request '' @ [CHR 0x27] @ i @ [CHR 0x27] @ '' timed out after ''
          @ show_nat (gc_timeoutMs s) @ ''ms (fail-closed)''))) (s\<lparr>gc_pending := AList.delete i (gc_pending s)\<rparr>))"

definition client_close :: "gateway_client \<Rightarrow> gateway_client" where [simp]:
  "client_close s = failAll (Error ''gateway client closing'') s"

datatype client_event =
    Linked
  | Requested tool_call_request
  | Received string
  | TimedOut string
  | LinkClosed
  | LinkError js_error
  | ClientClosed

fun client_step :: "client_event \<Rightarrow> gateway_client \<Rightarrow> gateway_client" where
  "client_step Linked s = s\<lparr>gc_connected := True\<rparr>"
| "client_step (Requested req) s = client_request req s"
| "client_step (Received chunk) s = client_data chunk s"
| "client_step (TimedOut i) s = client_timeout i s"
| "client_step LinkClosed s = failAll (Error ''gateway connection closed'') s"
| "client_step (LinkError e) s = failAll e s"
| "client_step ClientClosed s = client_close s"

definition client_run :: "client_event list \<Rightarrow> gateway_client \<Rightarrow> gateway_client" where
  "client_run = fold client_step"

section \<open>The invariant\<close>

text \<open>
  Every pending entry is filed under the id of its request, no number settles twice, and what
  resolves a promise carries the id of its request; and every request made is pending or settled.
\<close>

definition answers_request :: "tool_call_request list \<Rightarrow> nat \<Rightarrow> outcome \<Rightarrow> bool" where
  "answers_request reqs n r \<longleftrightarrow> n < length reqs
     \<and> (case r of Resolved m \<Rightarrow> message_id m = tcr_id (reqs ! n) | Rejected _ \<Rightarrow> True)"

definition client_wf :: "gateway_client \<Rightarrow> bool" where
  "client_wf s \<longleftrightarrow> obj_ok (gc_pending s) \<and> distinct (map fst (gc_settled s))
     \<and> (\<forall>(i, n) \<in> set (gc_pending s). n < length (gc_requests s) \<and> tcr_id (gc_requests s ! n) = i)
     \<and> (\<forall>(n, r) \<in> set (gc_settled s). answers_request (gc_requests s) n r)"

definition client_covered :: "gateway_client \<Rightarrow> bool" where
  "client_covered s \<longleftrightarrow> (\<forall>n < length (gc_requests s). n \<in> fst ` set (gc_settled s) \<or> n \<in> snd ` set (gc_pending s))"

lemma settle_simps [simp]:
  "gc_pending (settle n r s) = gc_pending s" "gc_requests (settle n r s) = gc_requests s"
  "fst ` set (gc_settled (settle n r s)) = insert n (fst ` set (gc_settled s))"
  by (auto simp: settle_def)

lemma settle_all [simp]:
  "gc_pending (fold (\<lambda>(_, n). settle n r) ps s) = gc_pending s"
  "gc_requests (fold (\<lambda>(_, n). settle n r) ps s) = gc_requests s"
  "fst ` set (gc_settled (fold (\<lambda>(_, n). settle n r) ps s)) = snd ` set ps \<union> fst ` set (gc_settled s)"
proof (induction ps arbitrary: s)
  case (Cons p ps)
  { case 3 show ?case using Cons.IH(3) [of "settle (snd p) r s"] by (cases p) (simp add: Un_commute) }
qed (auto simp: split_beta)

lemma wf_settle: "client_wf s \<Longrightarrow> answers_request (gc_requests s) n r \<Longrightarrow> client_wf (settle n r s)"
  by (auto simp: client_wf_def settle_def)

lemma wf_settle_all:
  "client_wf s \<Longrightarrow> \<forall>(i, n) \<in> set ps. n < length (gc_requests s) \<Longrightarrow> client_wf (fold (\<lambda>(_, n). settle n (Rejected e)) ps s)"
  by (induction ps arbitrary: s) (auto simp: wf_settle answers_request_def)

lemma wf_delete: "client_wf s \<Longrightarrow> client_wf (s\<lparr>gc_pending := AList.delete i (gc_pending s)\<rparr>)"
  by (auto simp: client_wf_def distinct_delete set_delete)

lemma wf_pending: "client_wf s \<Longrightarrow> map_of (gc_pending s) i = Some n \<Longrightarrow> n < length (gc_requests s) \<and> tcr_id (gc_requests s ! n) = i"
  by (auto simp: client_wf_def dest: map_of_SomeD)

lemma covered_delete:
  assumes "client_wf s" "client_covered s" "map_of (gc_pending s) i = Some n"
  shows "client_covered (settle n r (s\<lparr>gc_pending := AList.delete i (gc_pending s)\<rparr>))"
proof -
  have "m = n \<or> m \<in> snd ` set (AList.delete i (gc_pending s))" if "m \<in> snd ` set (gc_pending s)" for m
  proof -
    from that obtain j where j: "(j, m) \<in> set (gc_pending s)" by auto
    then have "map_of (gc_pending s) j = Some m" using assms(1) by (simp add: client_wf_def)
    then show ?thesis using assms(3) j by (cases "j = i") (force simp: set_delete)+
  qed
  then show ?thesis using assms(2) unfolding client_covered_def by simp metis
qed

lemma covered_settle: "client_covered s \<Longrightarrow> client_covered (settle n r s)"
  by (auto simp: client_covered_def)

lemma failAll_ok: "client_wf s \<Longrightarrow> client_covered s \<Longrightarrow> client_wf (failAll e s) \<and> client_covered (failAll e s)"
proof -
  assume a: "client_wf s" "client_covered s"
  have "\<forall>(i, n) \<in> set (gc_pending s). n < length (gc_requests s)" using a(1) by (auto simp: client_wf_def)
  then have "client_wf (fold (\<lambda>(_, n). settle n (Rejected e)) (gc_pending s) s)" by (rule wf_settle_all [OF a(1)])
  then have "client_wf (failAll e s)" by (simp add: failAll_def client_wf_def)
  moreover have "client_covered (failAll e s)" using a(2) by (auto simp: failAll_def client_covered_def)
  ultimately show ?thesis by simp
qed

lemma message_ok_step:
  assumes "client_wf s" "client_covered s"
  shows "client_wf (client_message m s) \<and> client_covered (client_message m s)"
proof (cases "map_of (gc_pending s) (message_id m)")
  case (Some n)
  then have "answers_request (gc_requests s) n (Resolved m)" using wf_pending [OF assms(1)] by (simp add: answers_request_def)
  then show ?thesis
    using Some assms by (simp add: client_message_def wf_settle wf_delete covered_delete)
qed (use assms in \<open>simp add: client_message_def\<close>)

lemma messages_ok:
  "client_wf s \<Longrightarrow> client_covered s \<Longrightarrow> client_wf (fold client_message ms s) \<and> client_covered (fold client_message ms s)"
  by (induction ms arbitrary: s) (auto simp: message_ok_step)

lemma buffer_ok: "client_wf (s\<lparr>gc_buffer := b\<rparr>) = client_wf s" "client_covered (s\<lparr>gc_buffer := b\<rparr>) = client_covered s"
  "client_wf (s\<lparr>gc_connected := c\<rparr>) = client_wf s" "client_covered (s\<lparr>gc_connected := c\<rparr>) = client_covered s"
  "client_wf (s\<lparr>gc_sent := f\<rparr>) = client_wf s" "client_covered (s\<lparr>gc_sent := f\<rparr>) = client_covered s"
  by (simp_all add: client_wf_def client_covered_def)

lemma timeout_ok: "client_wf s \<Longrightarrow> client_covered s \<Longrightarrow> client_wf (client_timeout i s) \<and> client_covered (client_timeout i s)"
  by (auto simp: client_timeout_def answers_request_def wf_settle wf_delete covered_delete wf_pending split: option.split)

lemma request_ok:
  assumes "client_wf s" "client_covered s"
  shows "client_wf (client_request req s) \<and> client_covered (client_request req s)"
proof -
  let ?n = "length (gc_requests s)" and ?s = "s\<lparr>gc_requests := gc_requests s @ [req]\<rparr>"
  have w: "client_wf ?s"
    using assms(1) by (fastforce simp: client_wf_def answers_request_def nth_append split: outcome.splits)
  have c: "client_covered (settle ?n r ?s)" for r
    using assms(2) by (auto simp: client_covered_def less_Suc_eq)
  have u: "client_wf (?s\<lparr>gc_pending := AList.update (tcr_id req) ?n (gc_pending s)\<rparr>)"
    using w by (auto simp: client_wf_def dest: set_update_subset [THEN subsetD])
  have v: "client_covered (?s\<lparr>gc_pending := AList.update (tcr_id req) ?n (gc_pending s)\<rparr>)"
    if "map_of (gc_pending s) (tcr_id req) = None"
  proof -
    have "AList.update (tcr_id req) ?n (gc_pending s) = gc_pending s @ [(tcr_id req, ?n)]"
      using that by (intro update_fresh) (simp add: map_of_eq_None_iff)
    then show ?thesis using assms(2) by (auto simp: client_covered_def less_Suc_eq)
  qed
  show ?thesis
    using w c u v
    by (auto simp: client_request_def Let_def wf_settle answers_request_def buffer_ok covered_settle split: sum.split option.split)
qed

lemma client_step_ok: "client_wf s \<Longrightarrow> client_covered s \<Longrightarrow> client_wf (client_step e s) \<and> client_covered (client_step e s)"
  by (cases e) (auto simp: buffer_ok request_ok timeout_ok failAll_ok messages_ok client_data_def split: prod.split sum.split)

lemma client_run_ok: "client_wf s \<Longrightarrow> client_covered s \<Longrightarrow> client_wf (client_run es s) \<and> client_covered (client_run es s)"
  unfolding client_run_def by (induction es arbitrary: s) (auto simp: client_step_ok)

lemma client_start_ok: "client_wf (client_start t)" "client_covered (client_start t)"
  by (simp_all add: client_wf_def client_covered_def client_start_def)

text \<open>
  A response reaches its own request only. Whatever the order of requests, frames, timers and
  failures, no promise settles twice, and a promise resolves only with a message that carries the
  id of the request it was made for.
\<close>

theorem client_correlated:
  "distinct (map fst (gc_settled (client_run es (client_start t))))
   \<and> (\<forall>n m. (n, Resolved m) \<in> set (gc_settled (client_run es (client_start t))) \<longrightarrow>
        n < length (gc_requests (client_run es (client_start t)))
        \<and> message_id m = tcr_id (gc_requests (client_run es (client_start t)) ! n))"
  using client_run_ok [OF client_start_ok, of es t] by (fastforce simp: client_wf_def answers_request_def)

lemma settle_all_new:
  "\<exists>new. gc_settled (fold (\<lambda>(_, n). settle n (Rejected e)) ps s) = gc_settled s @ new \<and> snd ` set new \<subseteq> {Rejected e}"
proof (induction ps arbitrary: s)
  case (Cons p ps)
  obtain i n where p: "p = (i, n)" by (cases p)
  obtain new where "gc_settled (fold (\<lambda>(_, n). settle n (Rejected e)) ps (settle n (Rejected e) s))
      = gc_settled (settle n (Rejected e) s) @ new" "snd ` set new \<subseteq> {Rejected e}"
    using Cons.IH by blast
  moreover obtain one where "gc_settled (settle n (Rejected e) s) = gc_settled s @ one" "snd ` set one \<subseteq> {Rejected e}"
    by (cases "n \<in> fst ` set (gc_settled s)") (auto simp: settle_def)
  ultimately show ?case unfolding p by (intro exI [of _ "one @ new"]) auto
qed simp

lemma failAll_settles:
  assumes "client_wf s" "client_covered s"
  shows "fst ` set (gc_settled (failAll e s)) = {..< length (gc_requests s)}"
proof -
  have "snd ` set (gc_pending s) \<union> fst ` set (gc_settled s) \<subseteq> {..< length (gc_requests s)}"
    using assms(1) by (fastforce simp: client_wf_def answers_request_def)
  then show ?thesis using assms(2) by (auto simp: failAll_def client_covered_def)
qed

fun link_failure :: "client_event \<Rightarrow> js_error option" where
  "link_failure LinkClosed = Some (Error ''gateway connection closed'')"
| "link_failure (LinkError e) = Some e"
| "link_failure ClientClosed = Some (Error ''gateway client closing'')"
| "link_failure _ = None"

text \<open>
  C13: a lost link settles everything, as a refusal. After the link closed, failed or was closed
  by the client, every request ever made is settled, and what was open until then is rejected
  with the error of that event.
\<close>

theorem client_fail_closed:
  assumes "link_failure e = Some x"
  shows "\<exists>new. gc_settled (client_run (es @ [e]) (client_start t)) = gc_settled (client_run es (client_start t)) @ new
     \<and> snd ` set new \<subseteq> {Rejected x}
     \<and> fst ` set (gc_settled (client_run (es @ [e]) (client_start t))) = {..< length (gc_requests (client_run es (client_start t)))}"
proof -
  have s: "client_run (es @ [e]) (client_start t) = failAll x (client_run es (client_start t))"
    using assms by (cases e) (simp_all add: client_run_def)
  obtain new where "gc_settled (failAll x (client_run es (client_start t))) = gc_settled (client_run es (client_start t)) @ new"
      "snd ` set new \<subseteq> {Rejected x}"
    using settle_all_new by (force simp: failAll_def)
  moreover have "fst ` set (gc_settled (failAll x (client_run es (client_start t)))) = {..< length (gc_requests (client_run es (client_start t)))}"
    using client_run_ok [OF client_start_ok] failAll_settles by blast
  ultimately show ?thesis unfolding s by blast
qed

section \<open>Facts for the users of the client\<close>

definition received :: "client_event list \<Rightarrow> gateway_message \<Rightarrow> bool" where
  "received es m \<longleftrightarrow> (\<exists>chunk buffer ms b. Received chunk \<in> set es \<and> push chunk buffer = (Inr ms, b) \<and> m \<in> set ms)"

lemma client_resolved:
  assumes "(n, Resolved m) \<in> set (gc_settled (client_run es (client_start t)))"
  shows "message_id m = tcr_id (gc_requests (client_run es (client_start t)) ! n)"
  using client_run_ok [OF client_start_ok, of es t] assms by (fastforce simp: client_wf_def answers_request_def)

lemma client_start_settled: "gc_settled (client_start t) = []"
  by (simp add: client_start_def)

lemma settle_cases: "p \<in> set (gc_settled (settle n r s)) \<Longrightarrow> p = (n, r) \<or> p \<in> set (gc_settled s)"
  by (auto simp: settle_def split: if_splits)

lemma failAll_resolved: "(n, Resolved m) \<in> set (gc_settled (failAll e s)) \<Longrightarrow> (n, Resolved m) \<in> set (gc_settled s)"
  using settle_all_new [of e "gc_pending s" s] by (force simp: failAll_def)

lemma message_resolved:
  "(n, Resolved m) \<in> set (gc_settled (client_message x s)) \<Longrightarrow> m = x \<or> (n, Resolved m) \<in> set (gc_settled s)"
  by (auto simp: client_message_def dest!: settle_cases split: option.splits)

lemma messages_resolved:
  "(n, Resolved m) \<in> set (gc_settled (fold client_message ms s)) \<Longrightarrow> m \<in> set ms \<or> (n, Resolved m) \<in> set (gc_settled s)"
proof (induction ms arbitrary: s)
  case (Cons x ms)
  then show ?case using Cons.IH [of "client_message x s"] message_resolved [of n m x s] by auto
qed simp

lemma step_resolved:
  assumes "(n, Resolved m) \<in> set (gc_settled (client_step e s))"
  shows "received [e] m \<or> (n, Resolved m) \<in> set (gc_settled s)"
proof (cases e)
  case (Received chunk)
  then show ?thesis
    using assms by (auto simp: client_data_def received_def dest!: failAll_resolved messages_resolved split: prod.splits sum.splits)
qed (use assms in \<open>auto simp: client_request_def client_timeout_def Let_def dest!: failAll_resolved settle_cases
    split: if_splits sum.splits option.splits\<close>)

lemma resolved_received:
  assumes "(n, Resolved m) \<in> set (gc_settled (client_run es s))" "gc_settled s = []"
  shows "received es m"
  using assms
proof (induction es arbitrary: n m rule: rev_induct)
  case (snoc e es)
  then have "received [e] m \<or> (n, Resolved m) \<in> set (gc_settled (client_run es s))"
    by (auto simp: client_run_def dest: step_resolved)
  moreover have "received es m \<Longrightarrow> received (es @ [e]) m" "received [e] m \<Longrightarrow> received (es @ [e]) m"
    by (auto simp: received_def)
  ultimately show ?case using snoc.IH snoc.prems(2) by blast
qed (simp add: client_run_def)

text \<open>Requests and settlements are only added.\<close>

lemma settle_grows: "fst ` set (gc_settled s) \<subseteq> fst ` set (gc_settled (settle n r s))"
  by auto

lemma message_grow:
  "gc_requests (client_message m s) = gc_requests s"
  "fst ` set (gc_settled s) \<subseteq> fst ` set (gc_settled (client_message m s))"
  by (auto simp: client_message_def split: option.split)

lemma message_grows:
  "gc_requests (fold client_message ms s) = gc_requests s
   \<and> fst ` set (gc_settled s) \<subseteq> fst ` set (gc_settled (fold client_message ms s))"
proof (induction ms arbitrary: s)
  case (Cons m ms)
  have "gc_requests (fold client_message ms (client_message m s)) = gc_requests (client_message m s)
     \<and> fst ` set (gc_settled (client_message m s)) \<subseteq> fst ` set (gc_settled (fold client_message ms (client_message m s)))"
    by (rule Cons.IH)
  then show ?case using message_grow(1) [of m s] message_grow(2) [of s m] by auto
qed simp

lemma failAll_grows: "gc_requests (failAll e s) = gc_requests s" "fst ` set (gc_settled s) \<subseteq> fst ` set (gc_settled (failAll e s))"
  by (auto simp: failAll_def)

lemma step_grows:
  "(\<exists>rs. gc_requests (client_step e s) = gc_requests s @ rs) \<and> fst ` set (gc_settled s) \<subseteq> fst ` set (gc_settled (client_step e s))"
proof (cases e)
  case (Requested req)
  then show ?thesis
    using settle_grows by (auto simp: client_request_def Let_def split: sum.split)
next
  case (Received chunk)
  then show ?thesis
    using message_grows [where s = "s\<lparr>gc_buffer := snd (push chunk (gc_buffer s))\<rparr>"]
      failAll_grows [where s = "s\<lparr>gc_buffer := snd (push chunk (gc_buffer s))\<rparr>"]
    by (cases "push chunk (gc_buffer s)"; cases "fst (push chunk (gc_buffer s))") (simp_all add: client_data_def)
next
  case (TimedOut i)
  then show ?thesis by (auto simp: client_timeout_def split: option.split)
qed (use failAll_grows in \<open>auto\<close>)

lemma client_requests_grow:
  "(\<exists>rs. gc_requests (fold client_step es s) = gc_requests s @ rs)
   \<and> fst ` set (gc_settled s) \<subseteq> fst ` set (gc_settled (fold client_step es s))"
proof (induction es arbitrary: s)
  case (Cons e es)
  obtain rs where "gc_requests (client_step e s) = gc_requests s @ rs" using step_grows by blast
  moreover obtain rs' where "gc_requests (fold client_step es (client_step e s)) = gc_requests (client_step e s) @ rs'"
    using Cons.IH by blast
  moreover have "fst ` set (gc_settled s) \<subseteq> fst ` set (gc_settled (fold client_step es (client_step e s)))"
    using step_grows [of e s] Cons.IH [of "client_step e s"] by blast
  ultimately show ?case by simp
qed simp

text \<open>The first request is settled once its timer fired or the link failed.\<close>

lemma failure_settles:
  assumes "client_wf s" "client_covered s" "n < length (gc_requests s)"
    and "link_failure e \<noteq> None \<or> e = TimedOut (tcr_id (gc_requests s ! n))"
  shows "n \<in> fst ` set (gc_settled (client_step e s))"
proof (cases "link_failure e")
  case None
  then have e: "e = TimedOut (tcr_id (gc_requests s ! n))" using assms(4) by simp
  show ?thesis
  proof (cases "n \<in> fst ` set (gc_settled s)")
    case False
    then obtain i where "(i, n) \<in> set (gc_pending s)" using assms(2,3) by (auto simp: client_covered_def)
    then have "map_of (gc_pending s) (tcr_id (gc_requests s ! n)) = Some n"
      using assms(1) by (auto simp: client_wf_def)
    then show ?thesis by (simp add: e client_timeout_def)
  qed (use step_grows in blast)
next
  case (Some x)
  then have "client_step e s = failAll x s" by (cases e) simp_all
  then show ?thesis using failAll_settles [OF assms(1,2)] assms(3) by simp
qed

lemma first_request_settles:
  assumes "e \<in> set es" "link_failure e \<noteq> None \<or> e = TimedOut (tcr_id req)"
  shows "0 \<in> fst ` set (gc_settled (client_run (Linked # Requested req # es) (client_start t)))"
proof -
  obtain as bs where es: "es = as @ e # bs" using assms(1) by (meson split_list)
  let ?init = "client_run [Linked, Requested req] (client_start t)" and ?s = "client_run (Linked # Requested req # as) (client_start t)"
  have r0: "gc_requests ?init = [req]"
    by (auto simp: client_run_def client_start_def client_request_def Let_def split: sum.split)
  have "?s = fold client_step as ?init" by (simp add: client_run_def)
  then obtain rs where "gc_requests ?s = req # rs" using client_requests_grow [where es = as and s = ?init] r0 by auto
  then have "0 \<in> fst ` set (gc_settled (client_step e ?s))"
    using assms(2) client_run_ok [OF client_start_ok] by (intro failure_settles) auto
  moreover have "client_run (Linked # Requested req # es) (client_start t) = fold client_step bs (client_step e ?s)"
    by (simp add: client_run_def es)
  ultimately show ?thesis using client_requests_grow [where es = bs and s = "client_step e ?s"] by auto
qed

section \<open>Witnesses\<close>

lemma client_correlated_witness:
  "gc_settled (client_run [Requested a_request] (client_start 5)) = [(0, Rejected (Error ''gateway client not connected''))]
   \<and> distinct (map fst (gc_settled (client_run [Requested a_request] (client_start 5))))"
  using client_correlated [of "[Requested a_request]" 5]
  by (simp add: client_run_def client_request_def client_start_def settle_def)

lemma client_fail_closed_witness:
  "\<exists>new. gc_settled (client_run ([Linked, Requested a_request] @ [LinkClosed]) (client_start 5))
       = gc_settled (client_run [Linked, Requested a_request] (client_start 5)) @ new
     \<and> fst ` set (gc_settled (client_run ([Linked, Requested a_request] @ [LinkClosed]) (client_start 5))) = {..< 1}"
  using client_fail_closed [of LinkClosed "Error ''gateway connection closed''" "[Linked, Requested a_request]" 5]
  by (auto simp: client_run_def client_request_def client_start_def settle_def Let_def a_request_encodes)

end
