(* ===== verification/HookBridge.thy ===== *)
theory HookBridge
  imports GatewayClient
begin

text \<open>
  The hook bridge (\<open>src/intendants/claude-code/hook-bridge.ts\<close>): one hook event is put to the gate
  over a gateway client. The outcome of the connection and the events of the client after the
  request are parameters; a bridge whose promise is still open has no result yet.
\<close>

record hook_event =
  he_sessionId :: string
  he_toolName :: string
  he_toolInput :: json
  he_toolUseId :: string

record bridge_result =
  br_exitCode :: int
  br_stderr :: "string option"

definition ALLOW :: bridge_result where
  "ALLOW = \<lparr>br_exitCode = 0, br_stderr = None\<rparr>"

definition bridge_deny :: "string \<Rightarrow> bridge_result" where
  "bridge_deny reason = \<lparr>br_exitCode = 2, br_stderr = Some reason\<rparr>"

text \<open>A nonempty string member; an array has none of the members asked for.\<close>

definition string_member :: "json obj \<Rightarrow> string \<Rightarrow> string option" where
  "string_member kvs k = (case map_of kvs k of Some (JStr s) \<Rightarrow> if s = [] then None else Some s | _ \<Rightarrow> None)"

definition parseHookEvent :: "string \<Rightarrow> hook_event option" where
  "parseHookEvent stdin =
     (case json_parse stdin of
        Some (JObj kvs) \<Rightarrow>
          if map_of kvs ''hook_event_name'' \<noteq> Some (JStr ''PreToolUse'') then None
          else (case (string_member kvs ''session_id'', string_member kvs ''tool_name'', string_member kvs ''tool_use_id'') of
                  (Some sid, Some tool, Some use) \<Rightarrow>
                    Some \<lparr>he_sessionId = sid, he_toolName = tool,
                      he_toolInput = (case map_of kvs ''tool_input'' of Some (JObj a) \<Rightarrow> JObj a | Some (JArr a) \<Rightarrow> JArr a | _ \<Rightarrow> JObj []),
                      he_toolUseId = use\<rparr>
                | _ \<Rightarrow> None)
      | _ \<Rightarrow> None)"

text \<open>The request; an array as its arguments is refused by the encoder.\<close>

definition hook_request :: "hook_event \<Rightarrow> tool_call_request result" where
  "hook_request ev = (case he_toolInput ev of
     JObj args \<Rightarrow> Inr \<lparr>tcr_id = he_toolUseId ev, tcr_sessionId = he_sessionId ev, tcr_tool = he_toolName ev,
       tcr_args = args, tcr_actor = claude_process\<rparr>
   | _ \<Rightarrow> Inl (ZodError ''GatewayMessage''))"

definition bridge_answer :: "gateway_message \<Rightarrow> bridge_result" where
  "bridge_answer res = (case res of
     VerdictMessage _ _ v \<Rightarrow> if pv_decision v = allow then ALLOW else bridge_deny (''AGP gate denied: '' @ pv_reason v)
   | GatewayError _ _ m \<Rightarrow> bridge_deny (''AGP gate denied: '' @ m)
   | _ \<Rightarrow> bridge_deny (''AGP gate denied: '' @ ''no allow verdict''))"

definition bridge_error :: "js_error \<Rightarrow> bridge_result" where
  "bridge_error e = bridge_deny (''AGP gate error (fail-closed): '' @ err_message e)"

definition bridge_client :: "tool_call_request \<Rightarrow> nat \<Rightarrow> client_event list \<Rightarrow> gateway_client" where
  "bridge_client req timeoutMs es = client_run (Linked # Requested req # es) (client_start timeoutMs)"

definition bridgeHookEvent ::
    "hook_event \<Rightarrow> js_error option \<Rightarrow> nat \<Rightarrow> client_event list \<Rightarrow> bridge_result option" where
  "bridgeHookEvent ev unreachable timeoutMs es =
     (case unreachable of
        Some err \<Rightarrow> Some (bridge_deny (''AGP gate unreachable (fail-closed): '' @ err_message err))
      | None \<Rightarrow>
          (case hook_request ev of
             Inl e \<Rightarrow> Some (bridge_error e)
           | Inr req \<Rightarrow>
               (case map_of (gc_settled (bridge_client req timeoutMs es)) 0 of
                  None \<Rightarrow> None
                | Some (Resolved res) \<Rightarrow> Some (bridge_answer res)
                | Some (Rejected e) \<Rightarrow> Some (bridge_error e))))"

definition runBridge :: "string \<Rightarrow> js_error option \<Rightarrow> nat \<Rightarrow> client_event list \<Rightarrow> bridge_result option" where
  "runBridge stdin unreachable timeoutMs es =
     (case parseHookEvent stdin of
        None \<Rightarrow> Some (bridge_deny ''AGP gate: unparseable PreToolUse event (fail-closed)'')
      | Some ev \<Rightarrow> bridgeHookEvent ev unreachable timeoutMs es)"

section \<open>Fail-closed\<close>

lemma bridge_answer_allow:
  "br_exitCode (bridge_answer m) = 0 \<longleftrightarrow> (\<exists>i s v. m = VerdictMessage i s v \<and> pv_decision v = allow)"
  by (auto simp: bridge_answer_def ALLOW_def bridge_deny_def split: gateway_message.split)

lemma hook_request_Inr: "hook_request ev = Inr req \<Longrightarrow> tcr_id req = he_toolUseId ev \<and> tcr_sessionId req = he_sessionId ev"
  by (auto simp: hook_request_def split: json.splits)

lemma bridge_requests:
  "gc_requests (bridge_client req t es) \<noteq> [] \<and> gc_requests (bridge_client req t es) ! 0 = req"
  using client_requests_grow [where s = "client_run [Linked, Requested req] (client_start t)" and es = es]
  by (auto simp: bridge_client_def client_run_def client_start_def client_request_def Let_def nth_append split: sum.split)

text \<open>
  The hook lets a call through only on the gate's word. An exit code of zero means that the
  event was read, the gate was reached, and the request was resolved by a frame received from the
  gate that carries, under the identifier of this call, a verdict that allows it.
\<close>

theorem bridge_allows_on_verdict:
  assumes "runBridge stdin unreachable t es = Some r" "br_exitCode r = 0"
  shows "\<exists>ev sid v. parseHookEvent stdin = Some ev \<and> unreachable = None \<and> pv_decision v = allow
    \<and> received es (VerdictMessage (he_toolUseId ev) sid v)"
proof -
  obtain ev where ev: "parseHookEvent stdin = Some ev" "bridgeHookEvent ev unreachable t es = Some r"
    using assms by (auto simp: runBridge_def bridge_deny_def split: option.splits)
  then obtain req m where m: "unreachable = None" "hook_request ev = Inr req"
      "map_of (gc_settled (bridge_client req t es)) 0 = Some (Resolved m)" "r = bridge_answer m"
    using assms(2) by (auto simp: bridgeHookEvent_def bridge_deny_def bridge_error_def split: option.splits sum.splits outcome.splits)
  then obtain i sid v where v: "m = VerdictMessage i sid v" "pv_decision v = allow"
    using assms(2) by (auto simp: bridge_answer_allow)
  have s: "(0, Resolved m) \<in> set (gc_settled (bridge_client req t es))" using m(3) by (rule map_of_SomeD)
  then have "received (Linked # Requested req # es) m"
    unfolding bridge_client_def by (rule resolved_received [OF _ client_start_settled])
  then have "received es m" by (auto simp: received_def)
  moreover have "message_id m = tcr_id req"
    using client_resolved [OF s [unfolded bridge_client_def]] bridge_requests [of req t es]
    by (simp add: bridge_client_def)
  ultimately show ?thesis using ev(1) m(1) v hook_request_Inr [OF m(2)] by auto
qed

text \<open>
  The hook always gets an answer. Once the timer of the request fired or the link failed,
  whatever else happened, the bridge has a result.
\<close>

theorem bridge_settles:
  assumes "e \<in> set es" "link_failure e \<noteq> None \<or> (\<exists>ev. parseHookEvent stdin = Some ev \<and> e = TimedOut (he_toolUseId ev))"
  shows "\<exists>r. runBridge stdin unreachable t es = Some r"
proof (cases "parseHookEvent stdin")
  case (Some ev)
  show ?thesis
  proof (cases "hook_request ev")
    case (Inr req)
    have "0 \<in> fst ` set (gc_settled (bridge_client req t es))"
      using assms Some hook_request_Inr [OF Inr] unfolding bridge_client_def
      by (intro first_request_settles) auto
    then obtain oc where "map_of (gc_settled (bridge_client req t es)) 0 = Some oc"
      by (metis domIff dom_map_of_conv_image_fst not_Some_eq)
    then show ?thesis using Some Inr by (cases oc) (auto simp: runBridge_def bridgeHookEvent_def split: option.split)
  qed (use Some in \<open>auto simp: runBridge_def bridgeHookEvent_def split: option.split\<close>)
qed (simp add: runBridge_def)

section \<open>Witnesses\<close>

definition a_hook :: string where
  "a_hook = json_stringify (JObj [(''hook_event_name'', JStr ''PreToolUse''), (''session_id'', JStr ''s1''),
     (''tool_name'', JStr ''Bash''), (''tool_use_id'', JStr ''t1'')])"

definition yes :: gateway_message where
  "yes = VerdictMessage ''t1'' ''s1'' \<lparr>pv_decision = allow, pv_reason = ''ok'', pv_ruleId = None, pv_tier = None\<rparr>"

lemma a_hook_parses: "parseHookEvent a_hook = Some \<lparr>he_sessionId = ''s1'', he_toolName = ''Bash'', he_toolInput = JObj [], he_toolUseId = ''t1''\<rparr>"
  by (simp add: parseHookEvent_def a_hook_def json_parse_stringify string_member_def)

lemma a_hook_allowed: "runBridge a_hook None 5 [Received (frame_of yes)] = Some ALLOW"
proof -
  have "message_ok yes" by (simp add: yes_def verdict_ok_def)
  then show ?thesis
    by (simp add: runBridge_def a_hook_parses bridgeHookEvent_def hook_request_def bridge_client_def client_run_def
      client_start_def client_request_def Let_def encode_ok client_data_def push_frame)
      (simp add: client_message_def yes_def settle_def bridge_answer_def)
qed

lemma bridge_allows_on_verdict_witness:
  "\<exists>ev sid v. parseHookEvent a_hook = Some ev \<and> pv_decision v = allow
    \<and> received [Received (frame_of yes)] (VerdictMessage (he_toolUseId ev) sid v)"
  using bridge_allows_on_verdict [OF a_hook_allowed] by (auto simp: ALLOW_def)

lemma bridge_settles_witness: "\<exists>r. runBridge a_hook None 5 [TimedOut ''t1''] = Some r"
  by (rule bridge_settles [of "TimedOut ''t1''"]) (simp_all add: a_hook_parses)

end
