(* ===== verification/GatewayServer.thy ===== *)
theory GatewayServer
  imports Gateway
begin

text \<open>
  The control-plane end of the gateway socket (\<open>src/gateway/server.ts\<close>), as a state machine over
  the events of the sockets and of the mediation handler, in the order the event loop delivers
  them. The requests given to the handler are kept beside the state the code has.
\<close>

section \<open>The server\<close>

record connection =
  cn_buffer :: string
  cn_written :: "string list"
  cn_ended :: bool

text \<open>
  The requests given to the handler, in order, are kept as \<open>gs_handled\<close>; \<open>gs_flight\<close> holds those
  whose answer is awaited, with the connection it will go to.
\<close>

record gateway_server =
  gs_conns :: "(nat \<times> connection) list"
  gs_processed :: "string list"
  gs_flight :: "(nat \<times> tool_call_request) list"
  gs_handled :: "tool_call_request list"

definition server_start :: gateway_server where
  "server_start = \<lparr>gs_conns = [], gs_processed = [], gs_flight = [], gs_handled = []\<rparr>"

definition errorMessage :: "string \<Rightarrow> string \<Rightarrow> string \<Rightarrow> gateway_message" where
  "errorMessage i sessionId m = GatewayError i sessionId m"

definition fresh_connection :: connection where
  "fresh_connection = \<lparr>cn_buffer = [], cn_written = [], cn_ended = False\<rparr>"

definition on_connection :: "nat \<Rightarrow> (connection \<Rightarrow> connection) \<Rightarrow> gateway_server \<Rightarrow> gateway_server" where
  "on_connection c f s = (case map_of (gs_conns s) c of
     None \<Rightarrow> s
   | Some cn \<Rightarrow> s\<lparr>gs_conns := AList.update c (f cn) (gs_conns s)\<rparr>)"

text \<open>
  \<open>sock.write(encodeMessage(m))\<close>: an invalid message throws and nothing is written; a socket that
  was ended or destroyed sends nothing.
\<close>

definition write_message :: "nat \<Rightarrow> gateway_message \<Rightarrow> gateway_server \<Rightarrow> gateway_server" where
  "write_message c m s = (case encodeMessage m of
     Inl e \<Rightarrow> s
   | Inr frame \<Rightarrow> on_connection c (\<lambda>cn. if cn_ended cn then cn else cn\<lparr>cn_written := cn_written cn @ [frame]\<rparr>) s)"

fun kind_name :: "gateway_message \<Rightarrow> string" where
  "kind_name (ToolCallRequest _) = ''tool_call_request''"
| "kind_name (VerdictMessage _ _ _) = ''policy_verdict''"
| "kind_name (ToolCallResult _ _ _ _) = ''tool_call_result''"
| "kind_name (GatewayError _ _ _) = ''error''"

fun message_session :: "gateway_message \<Rightarrow> string" where
  "message_session (ToolCallRequest r) = tcr_sessionId r"
| "message_session (VerdictMessage _ s _) = s"
| "message_session (ToolCallResult _ s _ _) = s"
| "message_session (GatewayError _ s _) = s"

text \<open>\<open>dispatch\<close> up to the await of the handler.\<close>

definition server_dispatch :: "nat \<Rightarrow> gateway_message \<Rightarrow> gateway_server \<Rightarrow> gateway_server" where
  "server_dispatch c m s =
     (case m of
        ToolCallRequest req \<Rightarrow>
          if tcr_id req \<in> set (gs_processed s)
          then write_message c (errorMessage (tcr_id req) (tcr_sessionId req) ''duplicate/replayed request id rejected'') s
          else s\<lparr>gs_processed := gs_processed s @ [tcr_id req], gs_flight := gs_flight s @ [(c, req)],
                 gs_handled := gs_handled s @ [req]\<rparr>
      | _ \<Rightarrow> write_message c (errorMessage (message_id m) (message_session m)
               (''server expects tool_call_request, got '' @ [CHR 0x27] @ kind_name m @ [CHR 0x27])) s)"

text \<open>The data handler of a connection: all frames of the chunk, or the link is ended.\<close>

definition server_data :: "nat \<Rightarrow> string \<Rightarrow> gateway_server \<Rightarrow> gateway_server" where
  "server_data c chunk s =
     (case map_of (gs_conns s) c of
        None \<Rightarrow> s
      | Some cn \<Rightarrow>
          (case push chunk (cn_buffer cn) of
             (r, b) \<Rightarrow>
               let s' = on_connection c (\<lambda>cn. cn\<lparr>cn_buffer := b\<rparr>) s in
               (case r of
                  Inl e \<Rightarrow> on_connection c (\<lambda>cn. cn\<lparr>cn_ended := True\<rparr>)
                    (write_message c (errorMessage ''unknown'' ''unknown'' (err_message e)) s')
                | Inr messages \<Rightarrow> fold (server_dispatch c) messages s')))"

text \<open>The handler of the \<open>i\<close>-th call in flight answers, or throws.\<close>

definition server_answer :: "nat \<Rightarrow> gateway_message result \<Rightarrow> gateway_server \<Rightarrow> gateway_server" where
  "server_answer i res s =
     (if i < length (gs_flight s) then
        (case gs_flight s ! i of
           (c, req) \<Rightarrow>
             let response = (case res of Inr m \<Rightarrow> m
               | Inl e \<Rightarrow> errorMessage (tcr_id req) (tcr_sessionId req) (''mediation failed: '' @ err_message e)) in
             write_message c response
               (s\<lparr>gs_flight := take i (gs_flight s) @ drop (Suc i) (gs_flight s)\<rparr>))
      else s)"

text \<open>\<open>close\<close> destroys every socket and forgets it.\<close>

definition server_close :: "gateway_server \<Rightarrow> gateway_server" where [simp]:
  "server_close s = s\<lparr>gs_conns := []\<rparr>"

datatype server_event =
    Connected nat
  | Data nat string
  | Answered nat "gateway_message result"
  | Dropped nat
  | ServerClosed

fun server_step :: "server_event \<Rightarrow> gateway_server \<Rightarrow> gateway_server" where
  "server_step (Connected c) s = (case map_of (gs_conns s) c of
     None \<Rightarrow> s\<lparr>gs_conns := AList.update c fresh_connection (gs_conns s)\<rparr>
   | Some _ \<Rightarrow> s)"
| "server_step (Data c chunk) s = server_data c chunk s"
| "server_step (Answered i res) s = server_answer i res s"
| "server_step (Dropped c) s = s\<lparr>gs_conns := AList.delete c (gs_conns s)\<rparr>"
| "server_step ServerClosed s = server_close s"

definition server_run :: "server_event list \<Rightarrow> gateway_server \<Rightarrow> gateway_server" where
  "server_run = fold server_step"

section \<open>The replay guard\<close>

definition server_ok :: "gateway_server \<Rightarrow> bool" where
  "server_ok s \<longleftrightarrow> gs_processed s = map tcr_id (gs_handled s) \<and> distinct (gs_processed s)
     \<and> snd ` set (gs_flight s) \<subseteq> set (gs_handled s)"

lemma write_keeps [simp]:
  "gs_processed (write_message c m s) = gs_processed s" "gs_handled (write_message c m s) = gs_handled s"
  "gs_flight (write_message c m s) = gs_flight s"
  "gs_processed (on_connection c f s) = gs_processed s" "gs_handled (on_connection c f s) = gs_handled s"
  "gs_flight (on_connection c f s) = gs_flight s"
  by (auto simp: write_message_def on_connection_def split: sum.split option.split)

lemma server_ok_cong:
  "gs_processed s' = gs_processed s \<Longrightarrow> gs_handled s' = gs_handled s \<Longrightarrow> set (gs_flight s') \<subseteq> set (gs_flight s) \<Longrightarrow>
     server_ok s \<Longrightarrow> server_ok s'"
  by (auto simp: server_ok_def)

lemma dispatch_ok: "server_ok s \<Longrightarrow> server_ok (server_dispatch c m s)"
  by (cases m) (auto simp: server_dispatch_def server_ok_def)

lemma dispatches_ok: "server_ok s \<Longrightarrow> server_ok (fold (server_dispatch c) ms s)"
  by (induction ms arbitrary: s) (auto simp: dispatch_ok)

lemma server_step_ok: "server_ok s \<Longrightarrow> server_ok (server_step e s)"
proof (cases e)
  case (Data c chunk)
  assume s: "server_ok s"
  then have "server_ok (on_connection c f s)" for f by (rule server_ok_cong [rotated 3]) simp_all
  then show ?thesis
    using s Data by (auto simp: server_data_def Let_def dispatches_ok intro: server_ok_cong [rotated 3]
      split: option.split prod.split sum.split)
next
  case (Answered i res)
  assume "server_ok s"
  then show ?thesis using Answered
    by (auto simp: server_answer_def Let_def dest: in_set_takeD in_set_dropD elim!: server_ok_cong [rotated 3] split: prod.split)
qed (auto simp: server_ok_def split: option.split)

lemma server_run_ok: "server_ok s \<Longrightarrow> server_ok (server_run es s)"
  unfolding server_run_def by (induction es arbitrary: s) (auto simp: server_step_ok)

text \<open>
  C12: a request is mediated once. Whatever connections carry it, and however often, no request
  identifier is given to the handler twice, and only requests it was given are answered.
\<close>

theorem handled_once:
  "distinct (map tcr_id (gs_handled (server_run es server_start)))
   \<and> snd ` set (gs_flight (server_run es server_start)) \<subseteq> set (gs_handled (server_run es server_start))"
proof -
  have "server_ok (server_run es server_start)" by (rule server_run_ok) (simp add: server_ok_def server_start_def)
  then show ?thesis unfolding server_ok_def by metis
qed

section \<open>Failures\<close>

lemma error_encodes: "i \<noteq> [] \<Longrightarrow> sid \<noteq> [] \<Longrightarrow> m \<noteq> [] \<Longrightarrow> encodeMessage (errorMessage i sid m) = Inr (frame_of (errorMessage i sid m))"
  by (rule encode_ok) (simp add: errorMessage_def)

text \<open>
  A mediation that throws is answered with an error, never with a verdict. The connection
  gets one frame more, the encoded error under the identifiers of the request.
\<close>

theorem throwing_handler_answers_error:
  assumes "i < length (gs_flight s)" "gs_flight s ! i = (c, req)" "map_of (gs_conns s) c = Some cn" "\<not> cn_ended cn"
    and "tcr_id req \<noteq> []" "tcr_sessionId req \<noteq> []"
  shows "map_of (gs_conns (server_step (Answered i (Inl e)) s)) c = Some (cn\<lparr>cn_written := cn_written cn
     @ [frame_of (GatewayError (tcr_id req) (tcr_sessionId req) (''mediation failed: '' @ err_message e))]\<rparr>)"
  using assms error_encodes [OF assms(5,6), of "''mediation failed: '' @ err_message e"]
  by (simp add: server_answer_def write_message_def on_connection_def errorMessage_def Let_def)

text \<open>
  A rejected link goes on. After a malformed frame the connection is ended, but only its
  writing side: a request that arrives in a later chunk is still given to the handler, and its
  answer is dropped.
\<close>

theorem rejected_link_still_mediates:
  assumes "map_of (gs_conns s) c = Some cn" "cn_buffer cn = []"
    and "newline \<notin> set bad" "str_trim bad \<noteq> []" "decodeMessage bad = Inl e"
    and "message_ok (ToolCallRequest req)" "tcr_id req \<notin> set (gs_processed s)"
  shows "\<exists>s'. server_run [Data c (bad @ [newline]), Data c (frame_of (ToolCallRequest req))] s = s'
    \<and> gs_handled s' = gs_handled s @ [req] \<and> map_option cn_ended (map_of (gs_conns s') c) = Some True"
proof -
  have "push (bad @ [newline]) [] = (Inl e, [])"
    using assms(3-5) take_frames_line [OF assms(3), of "[]" "[]"] by (simp add: push_def)
  moreover have "push (frame_of (ToolCallRequest req)) [] = (Inr [ToolCallRequest req], [])"
    by (rule push_frame [OF assms(6)])
  ultimately show ?thesis
    using assms(1,2,7)
    by (auto simp: server_run_def server_data_def Let_def on_connection_def write_message_def server_dispatch_def split: sum.split)
qed

section \<open>Witnesses\<close>

definition served :: gateway_server where
  "served = \<lparr>gs_conns = [(0, fresh_connection)], gs_processed = [''t1''], gs_flight = [(0, a_request)], gs_handled = [a_request]\<rparr>"

lemma throwing_handler_answers_error_witness:
  "map_of (gs_conns (server_step (Answered 0 (Inl (Error ''x''))) served)) 0 = Some (fresh_connection\<lparr>cn_written :=
     [frame_of (GatewayError ''t1'' ''s1'' ''mediation failed: x'')]\<rparr>)"
  using throwing_handler_answers_error [of 0 served 0 a_request fresh_connection "Error ''x''"]
  by (simp add: served_def a_request_def fresh_connection_def)

lemma rejected_link_still_mediates_witness:
  "\<exists>s'. server_run [Data 0 (''x'' @ [newline]), Data 0 (frame_of (ToolCallRequest (a_request\<lparr>tcr_id := ''t2''\<rparr>)))] served = s'
    \<and> gs_handled s' = [a_request, a_request\<lparr>tcr_id := ''t2''\<rparr>] \<and> map_option cn_ended (map_of (gs_conns s') 0) = Some True"
proof -
  have d: "decodeMessage ''x'' = Inl (GatewayProtocolError (''invalid JSON frame: '' @ ''JSON Parse error''))"
    "newline \<notin> set ''x''" "str_trim ''x'' \<noteq> []" by code_simp+
  have "map_of (gs_conns served) 0 = Some fresh_connection" "cn_buffer fresh_connection = []"
    "message_ok (ToolCallRequest (a_request\<lparr>tcr_id := ''t2''\<rparr>))" "tcr_id (a_request\<lparr>tcr_id := ''t2''\<rparr>) \<notin> set (gs_processed served)"
    by (simp_all add: served_def a_request_def fresh_connection_def)
  from rejected_link_still_mediates [OF this(1,2) d(2,3,1) this(3,4)] show ?thesis by (simp add: served_def)
qed

end
