(* ===== verification/Config.thy ===== *)
theory Config
  imports Policy DockerSafety
begin

text \<open>
  The configuration home (\<open>src/config.ts\<close>) and the prerequisite checks of \<open>agp doctor\<close>
  (\<open>cli/checks.ts\<close>, \<open>cli/probe.ts\<close>, \<open>cli/commands/doctor.ts\<close>), with \<open>agp init\<close>. A file system is a map
  from paths to texts; the host (environment, home directory, search path, clock) is a record; docker
  runs as in theory \<open>Docker\<close>.
\<close>

section \<open>Paths\<close>

text \<open>\<open>join\<close> of \<open>node:path\<close> on a path that does not end in a slash.\<close>

fun normal_segments :: "bool \<Rightarrow> string list \<Rightarrow> string list \<Rightarrow> string list" where
  "normal_segments absolute acc [] = acc"
| "normal_segments absolute acc (seg # segs) =
     (if seg = [] \<or> seg = ''.'' then normal_segments absolute acc segs
      else if seg = ''..'' then
        (if acc \<noteq> [] \<and> last acc \<noteq> ''..'' then normal_segments absolute (butlast acc) segs
         else if absolute then normal_segments absolute acc segs
         else normal_segments absolute (acc @ [seg]) segs)
      else normal_segments absolute (acc @ [seg]) segs)"

definition path_normalize :: "string \<Rightarrow> string" where
  "path_normalize path =
     (let absolute = prefix ''/'' path; segs = normal_segments absolute [] (str_split ''/'' path) in
      if absolute then ''/'' @ str_join ''/'' segs
      else if segs = [] then ''.'' else str_join ''/'' segs)"

definition path_join :: "string list \<Rightarrow> string" where
  "path_join parts = path_normalize (str_join ''/'' (filter (\<lambda>p. p \<noteq> []) parts))"

record agp_paths =
  ap_home :: string
  ap_config :: string
  ap_signingDir :: string
  ap_signingKey :: string
  ap_signingPubKey :: string
  ap_policy :: string
  ap_journal :: string

definition resolvePaths :: "string \<Rightarrow> environment \<Rightarrow> agp_paths" where
  "resolvePaths homedir env =
     (let home = (case env ''AGP_HOME'' of
            Some h \<Rightarrow> if h \<noteq> [] then h else path_join [homedir, ''.agp'']
          | None \<Rightarrow> path_join [homedir, ''.agp'']) in
      \<lparr>ap_home = home, ap_config = path_join [home, ''config.json''], ap_signingDir = path_join [home, ''signing''],
        ap_signingKey = path_join [home, ''signing'', ''journal-ed25519.key''],
        ap_signingPubKey = path_join [home, ''signing'', ''journal-ed25519.pub''],
        ap_policy = path_join [home, ''policy.json''], ap_journal = path_join [home, ''audit.log'']\<rparr>)"

section \<open>The configuration and the Slack credentials\<close>

text \<open>
  The configuration is an untyped JSON value. Reading a member of \<open>null\<close> throws; a member of
  any other value that is not an object is \<open>undefined\<close>.
\<close>

fun json_member :: "json \<Rightarrow> string \<Rightarrow> json option result" where
  "json_member (JObj kvs) k = Inr (map_of kvs k)"
| "json_member JNull k = Inl (Error (''null is not an object (reading '' @ k @ '')''))"
| "json_member _ k = Inr None"

text \<open>\<open>x?.k\<close>\<close>

fun optional_member :: "json option \<Rightarrow> string \<Rightarrow> json option" where
  "optional_member (Some (JObj kvs)) k = map_of kvs k"
| "optional_member _ k = None"

fun truthy :: "json option \<Rightarrow> bool" where
  "truthy (Some (JStr s)) \<longleftrightarrow> s \<noteq> []"
| "truthy (Some (JNum i)) \<longleftrightarrow> i \<noteq> 0"
| "truthy (Some (JBool b)) \<longleftrightarrow> b"
| "truthy (Some (JArr _)) \<longleftrightarrow> True"
| "truthy (Some (JObj _)) \<longleftrightarrow> True"
| "truthy _ \<longleftrightarrow> False"

text \<open>\<open>env.NAME ?? cfg.slack?.key\<close>\<close>

definition slack_setting :: "environment \<Rightarrow> json \<Rightarrow> string \<Rightarrow> string \<Rightarrow> json option result" where
  "slack_setting env cfg name key =
     (case env name of
        Some s \<Rightarrow> Inr (Some (JStr s))
      | None \<Rightarrow> res_bind (json_member cfg ''slack'') (\<lambda>slack. Inr (optional_member slack key)))"

definition slack_settings :: "environment \<Rightarrow> json \<Rightarrow> (json option \<times> json option \<times> json option) result" where
  "slack_settings env cfg =
     res_bind (slack_setting env cfg ''AGP_SLACK_BOT_TOKEN'' ''botToken'') (\<lambda>botToken.
       res_bind (slack_setting env cfg ''AGP_SLACK_APP_TOKEN'' ''appToken'') (\<lambda>appToken.
         res_bind (slack_setting env cfg ''AGP_SLACK_CHANNEL'' ''channel'') (\<lambda>channel.
           Inr (botToken, appToken, channel))))"

record slack_creds =
  sc_botToken :: json
  sc_appToken :: json
  sc_channelId :: json

definition resolveSlackCreds :: "environment \<Rightarrow> json \<Rightarrow> slack_creds result" where
  "resolveSlackCreds env cfg =
     res_bind (slack_settings env cfg) (\<lambda>(botToken, appToken, channelId).
       if \<not> truthy botToken \<or> \<not> truthy appToken \<or> \<not> truthy channelId
       then Inl (Error (''slack creds incomplete (bot token, app token, channel)'' @ emdash @ ''run `agp doctor`''))
       else Inr \<lparr>sc_botToken = the botToken, sc_appToken = the appToken, sc_channelId = the channelId\<rparr>)"

section \<open>The host and the probe\<close>

type_synonym files = "string \<Rightarrow> string option"

text \<open>
  \<open>ho_which\<close> is \<open>Bun.which\<close> of docker; \<open>ho_explain\<close> and \<open>ho_inherited\<close> are the parameters of the policy
  loader and of the lint.
\<close>

record host =
  ho_env :: environment
  ho_homedir :: string
  ho_files :: files
  ho_which :: "string option"
  ho_nowMs :: nat
  ho_explain :: "string \<Rightarrow> string"
  ho_inherited :: "string \<Rightarrow> string option"

definition host_paths :: "host \<Rightarrow> agp_paths" where
  "host_paths H = resolvePaths (ho_homedir H) (ho_env H)"

record probe_answer =
  pa_ok :: bool
  pa_detail :: string

definition SANDBOX_PROBE_IMAGE :: string where
  "SANDBOX_PROBE_IMAGE = ''busybox:1.36.1''"

definition loadConfig :: "host \<Rightarrow> json" where
  "loadConfig H =
     (case ho_files H (ap_config (host_paths H)) of
        None \<Rightarrow> JObj []
      | Some t \<Rightarrow> (case json_parse t of None \<Rightarrow> JObj [] | Some cfg \<Rightarrow> cfg))"

definition probe_docker :: "host \<Rightarrow> 'd docker_runner \<Rightarrow> ('d docker, probe_answer) act" where
  "probe_docker H run =
     (if ho_which H = None \<or> ho_which H = Some [] then act_ret \<lparr>pa_ok = False, pa_detail = ''docker CLI not found on PATH''\<rparr>
      else act_bind (docker_run run [''info'']) (\<lambda>p.
        act_ret (if er_exitCode p \<noteq> 0
          then \<lparr>pa_ok = False, pa_detail = ''docker daemon not reachable (`docker info` failed)''\<rparr>
          else \<lparr>pa_ok = True, pa_detail = ''docker present ('' @ the (ho_which H) @ '')''\<rparr>)))"

definition probe_slack :: "host \<Rightarrow> probe_answer result" where
  "probe_slack H =
     res_bind (slack_settings (ho_env H) (loadConfig H)) (\<lambda>(botToken, appToken, channel).
       let missing = map fst (filter (\<lambda>(_, v). \<not> truthy v)
             [(''bot token'', botToken), (''app token'', appToken), (''channel'', channel)]) in
       Inr (if missing \<noteq> [] then \<lparr>pa_ok = False, pa_detail = ''slack config missing: '' @ str_join '', '' missing\<rparr>
         else \<lparr>pa_ok = True, pa_detail = ''slack bot token, app token, and channel configured''\<rparr>))"

definition probe_signing :: "host \<Rightarrow> probe_answer" where
  "probe_signing H =
     (if ho_files H (ap_signingKey (host_paths H)) = None
      then \<lparr>pa_ok = False, pa_detail = ''signing key not found at '' @ ap_signingKey (host_paths H)\<rparr>
      else \<lparr>pa_ok = True, pa_detail = ''journal signing key present''\<rparr>)"

definition sandbox_probe_args :: "host \<Rightarrow> string list" where
  "sandbox_probe_args H = [''run'', ''-d'', ''--network'', ''none'', ''--cap-drop'', ''ALL'',
     ''--security-opt'', ''no-new-privileges'', ''--label'', ''agp.session=agp-doctor-'' @ show_nat (ho_nowMs H),
     SANDBOX_PROBE_IMAGE, ''sleep'', ''30'']"

text \<open>The throwaway container is probed and, whatever the probe does, removed.\<close>

definition probe_container :: "'d docker_runner \<Rightarrow> string \<Rightarrow> ('d docker, probe_answer) act" where
  "probe_container run cid =
     act_finally
       (act_bind (docker_run run ([''exec'', cid] @ egressProbeArgv)) (\<lambda>p.
         let verdict = classifyEgressProbe p False in
         act_ret (if iv_isolated verdict
           then \<lparr>pa_ok = True, pa_detail = ''sandbox network isolation verified (active egress probe blocked)''\<rparr>
           else \<lparr>pa_ok = False, pa_detail = ''sandbox isolation unverified: '' @ iv_detail verdict\<rparr>)))
       (act_seq (docker_run run [''rm'', ''-f'', cid]) (act_ret ()))"

definition probe_sandbox :: "host \<Rightarrow> 'd docker_runner \<Rightarrow> ('d docker, probe_answer) act" where
  "probe_sandbox H run =
     (if ho_env H ''AGP_SANDBOX_SKIP_NETCHECK'' = Some ''1''
      then act_ret \<lparr>pa_ok = False, pa_detail = ''skipped: network probe disabled (AGP_SANDBOX_SKIP_NETCHECK=1)''\<rparr>
      else act_bind (probe_docker H run) (\<lambda>d.
        if \<not> pa_ok d then act_ret \<lparr>pa_ok = False, pa_detail = ''skipped: docker unavailable''\<rparr>
        else act_bind (docker_run run (sandbox_probe_args H)) (\<lambda>r.
          if er_exitCode r \<noteq> 0 then act_ret \<lparr>pa_ok = False, pa_detail = ''sandbox spawn failed: '' @ errText r\<rparr>
          else
            let id = str_trim (er_stdout r) in
            if id = [] then act_ret \<lparr>pa_ok = False, pa_detail = ''sandbox spawn returned no container id''\<rparr>
            else probe_container run id)))"

definition probe_policy :: "host \<Rightarrow> probe_answer" where
  "probe_policy H =
     (let path = ap_policy (host_paths H) in
      if ho_files H path = None then \<lparr>pa_ok = False, pa_detail = ''policy file not found at '' @ path\<rparr>
      else case loadPolicyFile (ho_explain H) path (ho_files H path) of
        Inl e \<Rightarrow> \<lparr>pa_ok = False, pa_detail = ''invalid policy: '' @ err_message e\<rparr>
      | Inr rules \<Rightarrow>
          (case validatePolicy (ho_inherited H) rules of
             (errors, warnings) \<Rightarrow>
               if errors \<noteq> [] then \<lparr>pa_ok = False, pa_detail = ''policy errors: '' @ str_join ''; '' errors\<rparr>
               else
                 let base = ''policy valid ('' @ show_nat (length rules) @ '' rule''
                       @ (if length rules = 1 then [] else ''s'') @ '')'' in
                 \<lparr>pa_ok = True, pa_detail = (if warnings \<noteq> []
                    then base @ emdash @ ''WARN: '' @ str_join ''; '' warnings else base)\<rparr>))"

section \<open>The checks\<close>

record 'w doctor_probe =
  dp_docker :: "('w, probe_answer) act"
  dp_slack :: "('w, probe_answer) act"
  dp_signing :: "('w, probe_answer) act"
  dp_policy :: "('w, probe_answer) act"
  dp_sandbox :: "('w, probe_answer) act"

definition FsDoctorProbe :: "host \<Rightarrow> 'd docker_runner \<Rightarrow> 'd docker doctor_probe" where
  "FsDoctorProbe H run = \<lparr>dp_docker = probe_docker H run, dp_slack = act_lift (probe_slack H),
     dp_signing = act_ret (probe_signing H), dp_policy = act_ret (probe_policy H), dp_sandbox = probe_sandbox H run\<rparr>"

record check_result =
  cr_name :: string
  cr_status :: bool
  cr_detail :: string

record doctor_report =
  dr_ok :: bool
  dr_results :: "check_result list"

definition CHECK_ORDER :: "(string \<times> ('w doctor_probe \<Rightarrow> ('w, probe_answer) act)) list" where
  "CHECK_ORDER = [(''docker'', dp_docker), (''slack'', dp_slack), (''signing'', dp_signing), (''policy'', dp_policy),
     (''sandbox'', dp_sandbox)]"

fun run_checks :: "'w doctor_probe \<Rightarrow> (string \<times> ('w doctor_probe \<Rightarrow> ('w, probe_answer) act)) list \<Rightarrow>
    ('w, check_result list) act" where
  "run_checks P [] = act_ret []"
| "run_checks P ((name, check) # cs) =
     act_bind (check P) (\<lambda>a. act_bind (run_checks P cs) (\<lambda>rs.
       act_ret (\<lparr>cr_name = name, cr_status = pa_ok a, cr_detail = pa_detail a\<rparr> # rs)))"

text \<open>An empty name selects all checks, as a missing one does.\<close>

definition runDoctor :: "'w doctor_probe \<Rightarrow> string option \<Rightarrow> ('w, doctor_report) act" where
  "runDoctor P only =
     (let name = (case only of None \<Rightarrow> [] | Some n \<Rightarrow> n);
          selected = (if name \<noteq> [] then filter (\<lambda>c. fst c = name) CHECK_ORDER else CHECK_ORDER) in
      if name \<noteq> [] \<and> selected = []
      then act_ret \<lparr>dr_ok = False, dr_results = [\<lparr>cr_name = name, cr_status = False,
        cr_detail = ''unknown check '' @ single_quoted name @ '' (valid: '' @ str_join '', '' (map fst (CHECK_ORDER
          :: (string \<times> ('w doctor_probe \<Rightarrow> ('w, probe_answer) act)) list)) @ '')''\<rparr>]\<rparr>
      else act_bind (run_checks P selected) (\<lambda>results.
        act_ret \<lparr>dr_ok = list_all cr_status results, dr_results = results\<rparr>))"

definition check_mark :: string where
  "check_mark = [CHR 0xE2, CHR 0x9C, CHR 0x93]"

definition cross_mark :: string where
  "cross_mark = [CHR 0xE2, CHR 0x9C, CHR 0x97]"

definition check_line :: "check_result \<Rightarrow> string" where
  "check_line r = (if cr_status r then check_mark else cross_mark) @ '' '' @ cr_name r
     @ replicate (8 - length (cr_name r)) (CHR '' '') @ '' '' @ cr_detail r"

text \<open>The exit code and the lines printed.\<close>

definition doctorCommand :: "host \<Rightarrow> 'd docker_runner \<Rightarrow> string option \<Rightarrow> ('d docker, int \<times> string list) act" where
  "doctorCommand H run only =
     act_bind (runDoctor (FsDoctorProbe H run) only) (\<lambda>report.
       act_ret (if dr_ok report then 0 else 1,
         map check_line (dr_results report)
           @ [if dr_ok report then [newline] @ ''agp doctor: all prerequisites satisfied.''
              else [newline] @ ''agp doctor: prerequisites missing'' @ emdash @ ''resolve the '' @ cross_mark
                @ '' items above. (fail-closed)'']))"

section \<open>Scaffolding the home\<close>

definition CONFIG_SKELETON :: string where
  "CONFIG_SKELETON = json_stringify_indent (JObj [
     (''slack'', JObj [(''botToken'', JStr []), (''appToken'', JStr []), (''channel'', JStr [])]),
     (''sandbox'', JObj [(''image'', JStr [])])]) @ [newline]"

definition POLICY_SKELETON :: string where
  "POLICY_SKELETON = json_stringify_indent (JObj [(''rules'', JArr [])]) @ [newline]"

record init_result =
  in_files :: files
  in_created :: "string list"
  in_skipped :: "string list"
  in_message :: string

fun init_files :: "bool \<Rightarrow> (string \<times> string) list \<Rightarrow> files \<Rightarrow> files \<times> string list \<times> string list" where
  "init_files force [] F = (F, [], [])"
| "init_files force ((path, content) # rest) F =
     (if F path \<noteq> None \<and> \<not> force
      then (case init_files force rest F of (F', created, skipped) \<Rightarrow> (F', created, path # skipped))
      else (case init_files force rest (F(path \<mapsto> content)) of (F', created, skipped) \<Rightarrow> (F', path # created, skipped)))"

definition init_message :: "agp_paths \<Rightarrow> string" where
  "init_message p = str_join [newline] [
     ''AGP config home: '' @ ap_home p,
     ''Next steps:'',
     ''  1. Fill Slack credentials in '' @ ap_config p
       @ '' (or set AGP_SLACK_BOT_TOKEN / AGP_SLACK_APP_TOKEN / AGP_SLACK_CHANNEL).'',
     ''  2. Generate the Ed25519 journal-signing key at '' @ ap_signingKey p @ ''.'',
     ''  3. Define gating rules in '' @ ap_policy p @ ''.'',
     ''  4. Run `agp doctor` to verify.'']"

definition initCommand :: "string \<Rightarrow> environment \<Rightarrow> bool \<Rightarrow> files \<Rightarrow> init_result" where
  "initCommand homedir env force F =
     (let paths = resolvePaths homedir env in
      case init_files force [(ap_config paths, CONFIG_SKELETON), (ap_policy paths, POLICY_SKELETON)] F of
        (F', created, skipped) \<Rightarrow> \<lparr>in_files = F', in_created = created, in_skipped = skipped,
          in_message = init_message paths\<rparr>)"

section \<open>The checks and what uses them\<close>

lemma slack_setting_sum: "slack_settings env cfg = Inr (b, a, c) \<Longrightarrow>
   (\<exists>x. resolveSlackCreds env cfg = Inr x) \<longleftrightarrow> truthy b \<and> truthy a \<and> truthy c"
  by (auto simp: resolveSlackCreds_def)

text \<open>
  The doctor's check of Slack agrees with the code that reads the credentials. The check
  passes exactly when the credentials resolve, from the same environment and the same file, so
  a caller that looked at the check first never sees the resolution throw.
\<close>

theorem slack_check_agrees:
  "(\<exists>a. probe_slack H = Inr a \<and> pa_ok a) \<longleftrightarrow> (\<exists>c. resolveSlackCreds (ho_env H) (loadConfig H) = Inr c)"
proof (cases "slack_settings (ho_env H) (loadConfig H)")
  case (Inr t)
  then show ?thesis by (cases t) (auto simp: probe_slack_def slack_setting_sum Let_def)
qed (simp add: probe_slack_def resolveSlackCreds_def)

text \<open>
  The configuration file may hold any JSON text; one that holds \<open>null\<close> parses, so it is not
  replaced by the empty configuration, and reading it throws: the check throws rather than fails.
\<close>

lemma null_config_throws:
  assumes "ho_files H (ap_config (host_paths H)) = Some ''null''" "ho_env H ''AGP_SLACK_BOT_TOKEN'' = None"
  shows "\<exists>e. probe_slack H = Inl e"
proof -
  have "json_parse ''null'' = Some JNull" by code_simp
  then show ?thesis using assms by (simp add: probe_slack_def loadConfig_def slack_settings_def slack_setting_def)
qed

section \<open>The throwaway container\<close>

text \<open>What an action leaves standing of the containers and networks it started.\<close>

definition left_clean :: "'d docker \<Rightarrow> 'd docker \<Rightarrow> bool" where
  "left_clean w w' \<longleftrightarrow> (\<exists>cs. dk_calls w' = dk_calls w @ cs \<and> outstanding {} cs = {})"

interpretation clean: effect_order left_clean
proof
  fix w w' w'' :: "'d docker"
  show "left_clean w w" by (simp add: left_clean_def)
  show "left_clean w w' \<Longrightarrow> left_clean w' w'' \<Longrightarrow> left_clean w w''" by (auto simp: left_clean_def)
qed

lemma wp_finally [wp_simps]:
  "act_wp (act_finally m k) Q w \<longleftrightarrow> act_wp m (\<lambda>r w'. act_wp k (\<lambda>r' w''. case r' of Inl e \<Rightarrow> Q (Inl e) w'' | Inr _ \<Rightarrow> Q r w'') w') w"
  by (simp add: act_wp_def act_finally_def split: prod.splits sum.splits)

lemma wp_docker_call:
  "(\<And>r s. Q r (w\<lparr>dk_state := s, dk_calls := dk_calls w @ [(args, r)]\<rparr>)) \<Longrightarrow> act_wp (docker_run run args) Q w"
  by (auto simp: act_wp_def docker_run_def split: prod.splits)

lemma act_within_wp: "act_within R m \<longleftrightarrow> (\<forall>w. act_wp m (\<lambda>_. R w) w)"
  by (simp add: act_within_def act_wp_def split_beta)

lemma resources_info [simp]: "started [''info''] res = {}" "removed [''info''] = {}"
  by (simp_all add: started_def removed_def split: sum.split)

lemma resources_probe [simp]:
  "started (sandbox_probe_args H) (Inr r) =
     (if er_exitCode r = 0 \<and> str_trim (er_stdout r) \<noteq> [] then {Container (str_trim (er_stdout r))} else {})"
  "started (sandbox_probe_args H) (Inl e) = {}" "removed (sandbox_probe_args H) = {}"
  by (simp_all add: started_def removed_def sandbox_probe_args_def)

lemma probe_docker_clean: "act_within left_clean (probe_docker H run)"
  unfolding act_within_wp probe_docker_def
  by (auto simp: wp_simps left_clean_def intro!: wp_docker_call split: sum.split)

lemma probe_sandbox_tail_clean:
  "act_within left_clean (act_bind (docker_run run (sandbox_probe_args H)) (\<lambda>r.
     if er_exitCode r \<noteq> 0 then act_ret (a r)
     else let id = str_trim (er_stdout r) in if id = [] then act_ret b else probe_container run id))"
  unfolding act_within_wp probe_container_def Let_def
  by (auto simp: wp_simps left_clean_def intro!: wp_docker_call split: sum.split)

lemma probe_sandbox_clean: "act_within left_clean (probe_sandbox H run)"
proof (cases "ho_env H ''AGP_SANDBOX_SKIP_NETCHECK'' = Some ''1''")
  case False
  have "act_within left_clean (if \<not> pa_ok d then act_ret a else act_bind (docker_run run (sandbox_probe_args H)) (\<lambda>r.
     if er_exitCode r \<noteq> 0 then act_ret (b r)
     else let id = str_trim (er_stdout r) in if id = [] then act_ret c else probe_container run id))" for d a b c
    using probe_sandbox_tail_clean clean.within_ret by (cases "pa_ok d") (simp_all only: if_True if_False not_True_eq_False not_False_eq_True)
  then show ?thesis using False unfolding probe_sandbox_def
    by (simp only: if_False) (intro clean.within_bind probe_docker_clean)
qed (simp add: probe_sandbox_def clean.within_ret)

lemma run_checks_clean:
  "(\<And>name check. (name, check) \<in> set cs \<Longrightarrow> act_within left_clean (check P)) \<Longrightarrow> act_within left_clean (run_checks P cs)"
  by (induction P cs rule: run_checks.induct) (auto intro!: clean.within_bind clean.within_ret)

lemma checks_clean: "(name, check) \<in> set CHECK_ORDER \<Longrightarrow> act_within left_clean (check (FsDoctorProbe H run))"
  by (auto simp: CHECK_ORDER_def FsDoctorProbe_def
    intro: probe_docker_clean probe_sandbox_clean clean.within_lift clean.within_ret)

text \<open>
  The doctor cleans up. Whatever docker answers or throws, and whichever checks are run, every
  container the command started has been removed when it is over.
\<close>

theorem doctor_cleans_up: "left_clean w (snd (doctorCommand H run only w))"
proof -
  have "act_within left_clean (runDoctor (FsDoctorProbe H run) only)"
    unfolding runDoctor_def Let_def
    by (auto intro!: clean.within_ret clean.within_bind run_checks_clean checks_clean)
  then have "act_within left_clean (doctorCommand H run only)"
    unfolding doctorCommand_def by (intro clean.within_bind clean.within_ret)
  then show ?thesis by (simp add: act_within_def)
qed

section \<open>A clean bill\<close>

lemma run_checks_Inr_Cons:
  "run_checks P ((name, check) # cs) w = (Inr rs, w') \<longleftrightarrow> (\<exists>a w1 rs'. check P w = (Inr a, w1)
     \<and> run_checks P cs w1 = (Inr rs', w') \<and> rs = \<lparr>cr_name = name, cr_status = pa_ok a, cr_detail = pa_detail a\<rparr> # rs')"
  by (auto simp: act_bind_eq_Inr act_ret_def)

lemma probe_docker_calls:
  "probe_docker H run w = (Inr a, w') \<Longrightarrow> \<exists>cs. dk_calls w' = dk_calls w @ cs"
  by (auto simp: probe_docker_def act_bind_eq_Inr act_ret_def dest!: docker_run_calls split: if_splits)

lemma probe_container_ok:
  assumes "probe_container run cid w = (Inr a, w')" "pa_ok a"
  shows "\<exists>r q. dk_calls w' = dk_calls w @ [([''exec'', cid] @ egressProbeArgv, Inr r), ([''rm'', ''-f'', cid], q)]
    \<and> iv_isolated (classifyEgressProbe r False)"
proof -
  have "act_wp (probe_container run cid) (\<lambda>x v. \<forall>b. x = Inr b \<longrightarrow> pa_ok b \<longrightarrow>
      (\<exists>r q. dk_calls v = dk_calls w @ [([''exec'', cid] @ egressProbeArgv, Inr r), ([''rm'', ''-f'', cid], q)]
        \<and> iv_isolated (classifyEgressProbe r False))) w"
    unfolding probe_container_def Let_def by (auto simp: wp_simps intro!: wp_docker_call split: sum.split)
  from act_wpD [OF this assms(1)] assms(2) show ?thesis by simp
qed

lemma probe_sandbox_ok:
  assumes "probe_sandbox H run w = (Inr a, w')" "pa_ok a"
  shows "\<exists>cs cid r q. dk_calls w' = dk_calls w @ cs @ [([''exec'', cid] @ egressProbeArgv, Inr r), ([''rm'', ''-f'', cid], q)]
    \<and> iv_isolated (classifyEgressProbe r False)"
  using assms unfolding probe_sandbox_def
  by (auto simp: act_bind_eq_Inr act_ret_def Let_def dest!: probe_docker_calls docker_run_calls probe_container_ok split: if_splits)

lemma probe_policy_ok:
  assumes "pa_ok (probe_policy H)"
  shows "\<exists>rules. loadPolicyFile (ho_explain H) (ap_policy (host_paths H)) (ho_files H (ap_policy (host_paths H))) = Inr rules
    \<and> distinct (map pr_id rules)"
  using assms by (auto simp: probe_policy_def Let_def validatePolicy_def duplicate_ids_Nil split: if_splits sum.splits)


section \<open>A fresh home\<close>

lemma normal_segments_append:
  "f \<noteq> [] \<Longrightarrow> f \<noteq> ''.'' \<Longrightarrow> f \<noteq> ''..'' \<Longrightarrow>
     normal_segments b acc (segs @ [f]) = normal_segments b acc segs @ [f]"
  by (induction b acc segs rule: normal_segments.induct) auto

lemma str_join_snoc: "str_join sep (xs @ [x]) = (if xs = [] then [] else str_join sep xs @ sep) @ x"
proof (induction xs)
  case (Cons y ys)
  then show ?case by (cases ys) auto
qed simp

text \<open>The name of a file in a directory stands at the end of its path.\<close>

definition plain_name :: "string \<Rightarrow> bool" where
  "plain_name f \<longleftrightarrow> f \<noteq> [] \<and> f \<noteq> ''.'' \<and> f \<noteq> ''..'' \<and> CHR ''/'' \<notin> set f"

lemma path_join_name: "\<exists>base. \<forall>f. plain_name f \<longrightarrow> path_join (parts @ [f]) = base @ f"
proof (cases "filter (\<lambda>p. p \<noteq> []) parts = []")
  case True
  have "path_join (parts @ [f]) = [] @ f" if "plain_name f" for f
    using that True by (cases f) (auto simp: path_join_def path_normalize_def plain_name_def str_split_char_none)
  then show ?thesis by blast
next
  case False
  let ?h = "str_join ''/'' (filter (\<lambda>p. p \<noteq> []) parts)"
  let ?S = "normal_segments (prefix ''/'' ?h) [] (str_split ''/'' ?h)"
  have h: "?h \<noteq> []" using False by (cases "filter (\<lambda>p. p \<noteq> []) parts"; cases "tl (filter (\<lambda>p. p \<noteq> []) parts)") (auto simp: filter_eq_Cons_iff)
  have "path_join (parts @ [f]) = ((if prefix ''/'' ?h then ''/'' else []) @ (if ?S = [] then [] else str_join ''/'' ?S @ ''/'')) @ f"
    if "plain_name f" for f
  proof -
    have "str_split ''/'' (?h @ ''/'' @ f) = str_split ''/'' ?h @ [f]"
      using that str_split_append_char [of "CHR ''/''" ?h f] by (simp add: plain_name_def str_split_char_none)
    moreover have "prefix ''/'' (?h @ ''/'' @ f) = prefix ''/'' ?h" using h by (cases ?h) auto
    moreover have "str_join ''/'' (filter (\<lambda>p. p \<noteq> []) (parts @ [f])) = ?h @ ''/'' @ f"
      using that False by (simp add: plain_name_def str_join_snoc)
    ultimately show ?thesis
      using that by (simp add: path_join_def path_normalize_def plain_name_def Let_def normal_segments_append str_join_snoc)
  qed
  then show ?thesis by blast
qed

lemma init_paths_distinct: "ap_config (resolvePaths hm env) \<noteq> ap_policy (resolvePaths hm env)"
proof -
  have "plain_name ''config.json''" "plain_name ''policy.json''" by (simp_all add: plain_name_def)
  moreover from path_join_name [of "[ap_home (resolvePaths hm env)]"]
  obtain base where "\<forall>f. plain_name f \<longrightarrow> path_join [ap_home (resolvePaths hm env), f] = base @ f" by auto
  ultimately show ?thesis by (simp add: resolvePaths_def Let_def)
qed

lemma key_paths:
  "\<exists>base. ap_signingKey (resolvePaths hm env) = base @ ''journal-ed25519.key''
     \<and> ap_signingPubKey (resolvePaths hm env) = base @ ''journal-ed25519.pub''"
proof -
  have "plain_name ''journal-ed25519.key''" "plain_name ''journal-ed25519.pub''" by (simp_all add: plain_name_def)
  moreover from path_join_name [of "[ap_home (resolvePaths hm env), ''signing'']"]
  obtain base where "\<forall>f. plain_name f \<longrightarrow> path_join [ap_home (resolvePaths hm env), ''signing'', f] = base @ f" by auto
  ultimately show ?thesis by (auto simp: resolvePaths_def Let_def)
qed

lemma skeleton_loads: "loadPolicyFile explain path (Some POLICY_SKELETON) = Inr []"
proof -
  have "json_parse POLICY_SKELETON = Some (policy_json [])" by code_simp
  then show ?thesis by (simp add: loadPolicyFile_def PolicyFile_reads)
qed

text \<open>
  A fresh home denies everything. \<open>agp init\<close> without \<open>--force\<close> changes no file that exists; where
  there was no policy it leaves one that loads and under which no call of any tool is allowed.
\<close>

theorem init_fail_closed:
  assumes "F (ap_policy (resolvePaths hm env)) = None"
  shows "\<exists>rules. loadPolicyFile explain path (in_files (initCommand hm env False F) (ap_policy (resolvePaths hm env))) = Inr rules
    \<and> (\<forall>call v. evaluate rules call = Inr v \<longrightarrow> pv_decision v = deny)
    \<and> (\<forall>p. F p \<noteq> None \<longrightarrow> in_files (initCommand hm env False F) p = F p)"
proof (intro exI [of _ "[]"] conjI allI impI)
  show "loadPolicyFile explain path (in_files (initCommand hm env False F) (ap_policy (resolvePaths hm env))) = Inr []"
    using assms init_paths_distinct [of hm env] by (auto simp: initCommand_def Let_def skeleton_loads)
next
  fix call v assume "evaluate [] call = Inr v"
  then show "pv_decision v = deny" by (auto simp: evaluate_default effects_of_empty)
next
  fix p assume "F p \<noteq> None"
  then show "in_files (initCommand hm env False F) p = F p" using assms by (auto simp: initCommand_def Let_def)
qed

section \<open>Witnesses\<close>

definition a_host :: host where
  "a_host = \<lparr>ho_env = Map.empty(''AGP_HOME'' \<mapsto> ''/h''), ho_homedir = ''/root'',
     ho_files = Map.empty(''/h/policy.json'' \<mapsto> POLICY_SKELETON, ''/h/signing/journal-ed25519.key'' \<mapsto> ''k'',
       ''/h/config.json'' \<mapsto> json_stringify (JObj [(''slack'', JObj [(''botToken'', JStr ''b''), (''appToken'', JStr ''a''),
         (''channel'', JStr ''c'')])])),
     ho_which = Some ''/usr/bin/docker'', ho_nowMs = 1, ho_explain = (\<lambda>_. []), ho_inherited = (\<lambda>_. None)\<rparr>"

text \<open>A docker whose containers print an identifier and whose probe is blocked.\<close>

definition quiet_docker :: "unit docker_runner" where
  "quiet_docker args s = (Inr (if take 1 args = [''exec''] then \<lparr>er_exitCode = 1, er_stdout = [], er_stderr = []\<rparr>
     else \<lparr>er_exitCode = 0, er_stdout = ''c1'', er_stderr = []\<rparr>), s)"

definition idle_docker :: "unit docker" where
  "idle_docker = \<lparr>dk_state = (), dk_calls = [], dk_warnings = []\<rparr>"

lemma a_host_paths: "host_paths a_host = \<lparr>ap_home = ''/h'', ap_config = ''/h/config.json'', ap_signingDir = ''/h/signing'',
   ap_signingKey = ''/h/signing/journal-ed25519.key'', ap_signingPubKey = ''/h/signing/journal-ed25519.pub'',
   ap_policy = ''/h/policy.json'', ap_journal = ''/h/audit.log''\<rparr>"
  by code_simp


lemma init_fail_closed_witness:
  "\<exists>rules. loadPolicyFile (\<lambda>_. []) ''/h/policy.json'' (in_files (initCommand ''/root'' (ho_env a_host) False Map.empty)
      (ap_policy (resolvePaths ''/root'' (ho_env a_host)))) = Inr rules \<and> (\<forall>call v. evaluate rules call = Inr v \<longrightarrow> pv_decision v = deny)"
  using init_fail_closed [of Map.empty "''/root''" "ho_env a_host" "\<lambda>_. []" "''/h/policy.json''"] by auto

end
