(* ===== verification/LiveProcess.thy ===== *)
theory LiveProcess
  imports Harness GatewayServer Config
begin

text \<open>
  The processes that start a real harness: \<open>BunClaudeProcess\<close> (\<open>claude-code/bun-claude-process.ts\<close>, on
  the host or, with \<open>docker-claude-launch.ts\<close>, in a container) and \<open>LiveCodexProcess\<close>
  (\<open>codex/live-codex-process.ts\<close>), over the model of the gateway server. Launching a command, writing
  a file and changing a mode are recorded in the state.
\<close>

section \<open>Settings and commands\<close>

definition CONTAINER_WORK :: string where "CONTAINER_WORK = ''/work''"

definition CONTAINER_SOCK_DIR :: string where "CONTAINER_SOCK_DIR = ''/agp-sock''"

definition CONTAINER_AGP_DIR :: string where "CONTAINER_AGP_DIR = ''/agp''"

definition CONTAINER_SOCKET :: string where "CONTAINER_SOCKET = CONTAINER_SOCK_DIR @ ''/gate.sock''"

definition CONTAINER_SETTINGS :: string where "CONTAINER_SETTINGS = CONTAINER_SOCK_DIR @ ''/settings.json''"

definition buildContainerBridgeCommand :: string where
  "buildContainerBridgeCommand = ''bun '' @ CONTAINER_AGP_DIR @ ''/src/cli/index.ts bridge --socket '' @ CONTAINER_SOCKET"

definition buildHookSettings :: "string \<Rightarrow> json" where
  "buildHookSettings bridgeCommand = JObj [(''hooks'', JObj [(''PreToolUse'', JArr [JObj [(''matcher'', JStr ''*''),
     (''hooks'', JArr [JObj [(''type'', JStr ''command''), (''command'', JStr bridgeCommand)]])]])])]"

definition or_default :: "string option \<Rightarrow> string \<Rightarrow> string" where
  "or_default x d = (case x of Some s \<Rightarrow> s | None \<Rightarrow> d)"

definition buildClaudeArgs :: "string \<Rightarrow> string \<Rightarrow> string option \<Rightarrow> string list" where
  "buildClaudeArgs task settingsPath claudeBin = [or_default claudeBin ''claude'', ''--settings'', settingsPath,
     ''--permission-mode'', ''default'', ''--print'', task]"

definition dquoted :: "string \<Rightarrow> string" where
  "dquoted s = [CHR 0x22] @ s @ [CHR 0x22]"

text \<open>\<open>execPath\<close> runs the commands of \<open>cliEntry\<close>.\<close>

definition buildBridgeCommand :: "string \<Rightarrow> string \<Rightarrow> string \<Rightarrow> string" where
  "buildBridgeCommand cliEntry socketPath execPath =
     dquoted execPath @ '' '' @ dquoted cliEntry @ '' bridge --socket '' @ dquoted socketPath"

record docker_claude_options =
  dc_image :: string
  dc_repoPath :: string
  dc_socketDir :: string
  dc_agpRepoPath :: string
  dc_task :: string
  dc_networkEnabled :: "bool option"
  dc_withApiKey :: bool
  dc_claudeBin :: "string option"

definition buildDockerClaudeArgv :: "string \<Rightarrow> docker_claude_options \<Rightarrow> string list" where
  "buildDockerClaudeArgv cwd opts =
     [''run'', ''--rm'', ''--network'', if dc_networkEnabled opts = Some False then ''none'' else ''bridge'',
      ''--cap-drop'', ''ALL'', ''--security-opt'', ''no-new-privileges'',
      ''-v'', path_resolve cwd (dc_repoPath opts) @ '':'' @ CONTAINER_WORK,
      ''-v'', path_resolve cwd (dc_socketDir opts) @ '':'' @ CONTAINER_SOCK_DIR,
      ''-v'', path_resolve cwd (dc_agpRepoPath opts) @ '':'' @ CONTAINER_AGP_DIR @ '':ro'',
      ''-w'', CONTAINER_WORK]
     @ (if dc_withApiKey opts then [''-e'', ''ANTHROPIC_API_KEY''] else [])
     @ [dc_image opts, or_default (dc_claudeBin opts) ''claude'', ''--settings'', CONTAINER_SETTINGS,
        ''--permission-mode'', ''default'', ''--print'', dc_task opts]"

definition buildCodexArgv :: "string \<Rightarrow> string option \<Rightarrow> string list" where
  "buildCodexArgv task codexBin = [or_default codexBin ''codex'', ''exec'', task]"

text \<open>A command given to the process launcher; the environment is inherited unless given.\<close>

record launched =
  ln_argv :: "string list"
  ln_cwd :: "string option"
  ln_env :: "environment option"

definition dockerClaudeLaunch :: "string \<Rightarrow> environment \<Rightarrow> docker_claude_options \<Rightarrow> string option \<Rightarrow> launched" where
  "dockerClaudeLaunch cwd env opts apiKey =
     \<lparr>ln_argv = ''docker'' # buildDockerClaudeArgv cwd (opts\<lparr>dc_withApiKey := apiKey \<noteq> None\<rparr>), ln_cwd = None,
       ln_env = Some (case apiKey of None \<Rightarrow> env | Some k \<Rightarrow> env(''ANTHROPIC_API_KEY'' \<mapsto> k))\<rparr>"

section \<open>The state of a live process\<close>

text \<open>
  \<open>pending\<close> maps a call to its open promise, the entry of the server's flight with that identifier.
  Beside what the code has, the state keeps the events handed to the handler and the answers given.
\<close>

record live_process =
  lp_handler :: bool
  lp_pending :: "string list"
  lp_server :: gateway_server
  lp_listening :: bool
  lp_sessionId :: string
  lp_child :: "launched option"
  lp_killed :: bool
  lp_written :: "(string \<times> string) list"
  lp_chmods :: "string list"
  lp_events :: "tool_event list"
  lp_answered :: "(string \<times> hook_decision) list"

definition fresh_process :: live_process where
  "fresh_process = \<lparr>lp_handler = False, lp_pending = [], lp_server = server_start, lp_listening = False, lp_sessionId = [],
     lp_child = None, lp_killed = False, lp_written = [], lp_chmods = [], lp_events = [], lp_answered = []\<rparr>"

text \<open>The promise of a call is settled: its request is looked up in the flight.\<close>

fun flight_index :: "string \<Rightarrow> (nat \<times> tool_call_request) list \<Rightarrow> nat" where
  "flight_index i [] = 0"
| "flight_index i ((c, req) # fs) = (if tcr_id req = i then 0 else Suc (flight_index i fs))"

definition resolve_call :: "string \<Rightarrow> gateway_message \<Rightarrow> gateway_server \<Rightarrow> gateway_server" where
  "resolve_call i m s = server_answer (flight_index i (gs_flight s)) (Inr m) s"

text \<open>The server's handler: a request is surfaced and stays open, or is refused when nobody listens.\<close>

definition live_handle :: "tool_call_request \<Rightarrow> live_process \<Rightarrow> live_process" where
  "live_handle req p =
     (if \<not> lp_handler p
      then p\<lparr>lp_server := resolve_call (tcr_id req)
             (GatewayError (tcr_id req) (tcr_sessionId req) ''no gate handler registered'') (lp_server p)\<rparr>
      else p\<lparr>lp_pending := List.insert (tcr_id req) (lp_pending p),
             lp_events := lp_events p @ [\<lparr>te_id = tcr_id req, te_tool = tcr_tool req, te_args = tcr_args req\<rparr>]\<rparr>)"

text \<open>An event of a socket: the server runs, then its handler on the requests it took up.\<close>

definition live_socket :: "server_event \<Rightarrow> live_process \<Rightarrow> live_process" where
  "live_socket e p =
     (let s = server_step e (lp_server p) in
      fold live_handle (drop (length (gs_handled (lp_server p))) (gs_handled s)) (p\<lparr>lp_server := s\<rparr>))"

definition toVerdict :: "live_process \<Rightarrow> string \<Rightarrow> hook_decision \<Rightarrow> gateway_message" where
  "toVerdict p callId decision = VerdictMessage callId (lp_sessionId p) (case decision of
     HookAllow \<Rightarrow> \<lparr>pv_decision = allow, pv_reason = ''approved'', pv_ruleId = None, pv_tier = None\<rparr>
   | HookDeny r \<Rightarrow> \<lparr>pv_decision = deny, pv_reason = r, pv_ruleId = None, pv_tier = None\<rparr>)"

definition live_respond :: "string \<Rightarrow> hook_decision \<Rightarrow> live_process \<Rightarrow> live_process" where
  "live_respond callId decision p =
     (if callId \<notin> set (lp_pending p) then p
      else p\<lparr>lp_pending := remove1 callId (lp_pending p), lp_answered := lp_answered p @ [(callId, decision)],
             lp_server := resolve_call callId (toVerdict p callId decision) (lp_server p)\<rparr>)"

definition live_onHook :: "live_process \<Rightarrow> live_process" where
  "live_onHook p = p\<lparr>lp_handler := True\<rparr>"

text \<open>
  \<open>stop\<close> kills the child, settles the open promises and closes the server in one turn of the event
  loop. What awaits a promise runs only after that turn, so the sockets are gone when the
  answers are written.
\<close>

definition live_stop_process :: "live_process \<Rightarrow> live_process" where
  "live_stop_process p =
     (fold (\<lambda>callId q. live_respond callId (HookDeny ''session terminated'') q) (lp_pending p)
       (p\<lparr>lp_killed := (lp_child p \<noteq> None), lp_server := server_step ServerClosed (lp_server p)\<rparr>))\<lparr>lp_listening := False\<rparr>"

section \<open>Starting and running\<close>

text \<open>The gate of the live paths: without the flag nothing is opened and nothing spawned.\<close>

definition assertLive :: "environment \<Rightarrow> string \<Rightarrow> string \<Rightarrow> unit result" where
  "assertLive env flag message = (if env flag \<noteq> Some ''1'' then Inl (Error message) else Inr ())"

definition claude_gated :: string where
  "claude_gated = ''BunClaudeProcess: the live `claude` spawn is gated. Set AGP_CLAUDE_LIVE=1 to dogfood on a real ''
     @ ''harness (login session required; not run in CI). The deterministic reference is InMemoryClaudeProcess.''"

definition codex_gated :: string where
  "codex_gated = ''LiveCodexProcess: the live `codex` spawn is gated. Set AGP_CODEX_LIVE=1 to run the real Codex harness ''
     @ ''(operator's Codex credentials required; not run in CI). The deterministic reference is InMemoryCodexProcess.''"

text \<open>Listening on the socket may fail; the server is kept only when it listens.\<close>

definition live_open :: "js_error option \<Rightarrow> string \<Rightarrow> (live_process, unit) act" where
  "live_open listen sid p =
     (case listen of
        Some e \<Rightarrow> (Inl e, p\<lparr>lp_sessionId := sid\<rparr>)
      | None \<Rightarrow> (Inr (), p\<lparr>lp_sessionId := sid, lp_server := server_start, lp_listening := True\<rparr>))"

record docker_target =
  dt_image :: string
  dt_agpRepoPath :: string
  dt_apiKey :: "string option"
  dt_networkEnabled :: "bool option"

text \<open>The options, with what the code reads of its process: directory of temporary files, binary, entry, directory.\<close>

record live_options =
  lo_task :: string
  lo_repoPath :: string
  lo_bin :: "string option"
  lo_bridgeSocket :: string
  lo_env :: "environment option"
  lo_processEnv :: environment
  lo_docker :: "docker_target option"
  lo_listen :: "js_error option"
  lo_tmpdir :: string
  lo_execPath :: string
  lo_cliEntry :: string
  lo_cwd :: string

definition live_env :: "live_options \<Rightarrow> environment" where
  "live_env S = (case lo_env S of Some e \<Rightarrow> e | None \<Rightarrow> lo_processEnv S)"

definition bun_start :: "live_options \<Rightarrow> string \<Rightarrow> (live_process, unit) act" where
  "bun_start S sid = act_seq (act_lift (assertLive (live_env S) ''AGP_CLAUDE_LIVE'' claude_gated)) (live_open (lo_listen S) sid)"

definition codex_live_start :: "live_options \<Rightarrow> string \<Rightarrow> (live_process, unit) act" where
  "codex_live_start S sid = act_seq (act_lift (assertLive (live_env S) ''AGP_CODEX_LIVE'' codex_gated)) (live_open (lo_listen S) sid)"

definition path_dirname :: "string \<Rightarrow> string" where
  "path_dirname p = (let i = last_index_of (CHR ''/'') p in
     if i < 0 then ''.'' else if i = 0 then ''/'' else take (nat i) p)"

definition write_settings :: "string \<Rightarrow> string \<Rightarrow> live_process \<Rightarrow> live_process" where
  "write_settings path bridgeCommand p =
     p\<lparr>lp_written := lp_written p @ [(path, json_stringify_indent (buildHookSettings bridgeCommand))]\<rparr>"

text \<open>Both paths of \<open>run\<close> up to the end of the child they await.\<close>

definition bun_launch_docker :: "live_options \<Rightarrow> docker_target \<Rightarrow> live_process \<Rightarrow> live_process" where
  "bun_launch_docker S t p =
     (let socketDir = path_dirname (lo_bridgeSocket S);
          q = write_settings (path_join [socketDir, ''settings.json'']) buildContainerBridgeCommand p in
      q\<lparr>lp_chmods := lp_chmods q @ [lo_bridgeSocket S],
        lp_child := Some (dockerClaudeLaunch (lo_cwd S) (lo_processEnv S)
          \<lparr>dc_image = dt_image t, dc_repoPath = lo_repoPath S, dc_socketDir = socketDir, dc_agpRepoPath = dt_agpRepoPath t,
            dc_task = lo_task S, dc_networkEnabled = (case dt_networkEnabled t of None \<Rightarrow> Some True | n \<Rightarrow> n),
            dc_withApiKey = False, dc_claudeBin = None\<rparr> (dt_apiKey t))\<rparr>)"

definition bun_launch_host :: "live_options \<Rightarrow> live_process \<Rightarrow> live_process" where
  "bun_launch_host S p =
     (let settingsPath = path_join [lo_tmpdir S, ''agp-'' @ lp_sessionId p @ ''-settings.json''];
          q = write_settings settingsPath (buildBridgeCommand (lo_cliEntry S) (lo_bridgeSocket S) (lo_execPath S)) p in
      q\<lparr>lp_child := Some \<lparr>ln_argv = buildClaudeArgs (lo_task S) settingsPath (lo_bin S), ln_cwd = Some (lo_repoPath S), ln_env = None\<rparr>\<rparr>)"

definition bun_run :: "live_options \<Rightarrow> (live_process, unit) act" where
  "bun_run S = act_seq (act_lift (assertLive (live_env S) ''AGP_CLAUDE_LIVE'' claude_gated))
     (act_modify (case lo_docker S of Some t \<Rightarrow> bun_launch_docker S t | None \<Rightarrow> bun_launch_host S))"

definition codex_live_run :: "live_options \<Rightarrow> (live_process, unit) act" where
  "codex_live_run S = act_seq (act_lift (assertLive (live_env S) ''AGP_CODEX_LIVE'' codex_gated))
     (act_modify (\<lambda>p. p\<lparr>lp_child := Some \<lparr>ln_argv = buildCodexArgv (lo_task S) (lo_bin S), ln_cwd = Some (lo_repoPath S), ln_env = None\<rparr>\<rparr>))"

definition BunClaudeProcess :: "live_options \<Rightarrow> live_process harness_process" where
  "BunClaudeProcess S = \<lparr>hp_start = bun_start S, hp_respond = (\<lambda>i d. act_modify (live_respond i d)), hp_run = bun_run S,
     hp_stop = act_modify live_stop_process\<rparr>"

definition LiveCodexProcess :: "live_options \<Rightarrow> live_process harness_process" where
  "LiveCodexProcess S = \<lparr>hp_start = codex_live_start S, hp_respond = (\<lambda>i d. act_modify (live_respond i d)), hp_run = codex_live_run S,
     hp_stop = act_modify live_stop_process\<rparr>"

section \<open>Every call is answered once\<close>

datatype live_event =
    LSocket server_event
  | LRespond string hook_decision
  | LHook
  | LStop

fun live_step :: "live_event \<Rightarrow> live_process \<Rightarrow> live_process" where
  "live_step (LSocket e) p = (case e of Answered _ _ \<Rightarrow> p | ServerClosed \<Rightarrow> p | _ \<Rightarrow> live_socket e p)"
| "live_step (LRespond i d) p = live_respond i d p"
| "live_step LHook p = live_onHook p"
| "live_step LStop p = live_stop_process p"

text \<open>The calls surfaced are split into the open ones and the answered ones.\<close>

definition live_ok :: "live_process \<Rightarrow> bool" where
  "live_ok p \<longleftrightarrow> server_ok (lp_server p) \<and> distinct (lp_pending p) \<and> distinct (map fst (lp_answered p))
     \<and> set (lp_pending p) \<inter> fst ` set (lp_answered p) = {}
     \<and> te_id ` set (lp_events p) = set (lp_pending p) \<union> fst ` set (lp_answered p)
     \<and> (\<forall>ev \<in> set (lp_events p). te_id ev \<in> tcr_id ` set (gs_handled (lp_server p)))"

lemma answer_keeps [simp]:
  "gs_handled (server_answer k r s) = gs_handled s" "gs_processed (server_answer k r s) = gs_processed s"
  "gs_handled (resolve_call i m s) = gs_handled s" "gs_processed (resolve_call i m s) = gs_processed s"
  by (auto simp: server_answer_def resolve_call_def Let_def split: prod.split)

lemma server_ok_resolve: "server_ok s \<Longrightarrow> server_ok (resolve_call i m s)"
  using server_step_ok [of s "Answered (flight_index i (gs_flight s)) (Inr m)"] by (simp add: resolve_call_def)

lemma live_respond_ok: "live_ok p \<Longrightarrow> live_ok (live_respond i d p)"
  by (auto simp: live_ok_def live_respond_def server_ok_resolve)

lemma live_responds_ok: "live_ok p \<Longrightarrow> live_ok (fold (\<lambda>i q. live_respond i (f i) q) is p)"
  by (induction "is" arbitrary: p) (auto simp: live_respond_ok)

lemma live_stop_ok: "live_ok p \<Longrightarrow> live_ok (live_stop_process p)"
proof -
  assume p: "live_ok p"
  then have "live_ok (p\<lparr>lp_killed := (lp_child p \<noteq> None), lp_server := server_step ServerClosed (lp_server p)\<rparr>)"
    by (auto simp: live_ok_def server_ok_def)
  from live_responds_ok [OF this] show ?thesis unfolding live_stop_process_def live_ok_def by simp
qed

text \<open>Requests that are new to the process, with distinct identifiers among those handled.\<close>

lemma live_handles_ok:
  assumes "live_ok p" "distinct (map tcr_id reqs)" "set reqs \<subseteq> set (gs_handled (lp_server p))"
    "tcr_id ` set reqs \<inter> te_id ` set (lp_events p) = {}"
  shows "live_ok (fold live_handle reqs p)"
  using assms
proof (induction reqs arbitrary: p)
  case (Cons req reqs)
  have "live_ok (live_handle req p)"
    using Cons.prems by (auto simp: live_ok_def live_handle_def server_ok_resolve)
  moreover have "gs_handled (lp_server (live_handle req p)) = gs_handled (lp_server p)"
    "te_id ` set (lp_events (live_handle req p)) \<subseteq> insert (tcr_id req) (te_id ` set (lp_events p))"
    by (auto simp: live_handle_def)
  moreover have "tcr_id ` set reqs \<inter> te_id ` set (lp_events (live_handle req p)) = {}"
  proof -
    have "A \<subseteq> insert x B \<Longrightarrow> x \<notin> C \<Longrightarrow> C \<inter> B = {} \<Longrightarrow> C \<inter> A = {}" for A B C and x :: string by blast
    from this [OF calculation(3)] show ?thesis using Cons.prems(2,4) by simp
  qed
  ultimately show ?case using Cons.prems by (auto intro!: Cons.IH)
qed simp

lemma dispatch_handled: "\<exists>new. gs_handled (server_dispatch c m s) = gs_handled s @ new"
  by (cases m) (auto simp: server_dispatch_def)

lemma dispatches_handled: "\<exists>new. gs_handled (fold (server_dispatch c) ms s) = gs_handled s @ new"
proof (induction ms arbitrary: s)
  case (Cons m ms)
  then show ?case using dispatch_handled [of c m s] by (metis append.assoc fold_simps(2))
qed simp

lemma step_handled: "\<exists>new. gs_handled (server_step e s) = gs_handled s @ new"
proof (cases e)
  case (Data c chunk)
  show ?thesis
  proof (cases "map_of (gs_conns s) c")
    case (Some cn)
    obtain r b where "push chunk (cn_buffer cn) = (r, b)" by fastforce
    then show ?thesis using Data Some dispatches_handled [of c _ "on_connection c (\<lambda>cn. cn\<lparr>cn_buffer := b\<rparr>) s"]
      by (cases r) (auto simp: server_data_def Let_def)
  qed (use Data in \<open>simp add: server_data_def\<close>)
qed (auto split: option.split)

lemma live_socket_ok:
  assumes p: "live_ok p"
  shows "live_ok (live_socket e p)"
proof -
  let ?s = "server_step e (lp_server p)"
  obtain new where new: "gs_handled ?s = gs_handled (lp_server p) @ new" using step_handled by blast
  have ok: "server_ok ?s" using p by (simp add: live_ok_def server_step_ok)
  then have d: "distinct (map tcr_id (gs_handled (lp_server p) @ new))" unfolding server_ok_def new by metis
  have "live_ok (fold live_handle new (p\<lparr>lp_server := ?s\<rparr>))"
  proof (rule live_handles_ok)
    show "live_ok (p\<lparr>lp_server := ?s\<rparr>)" using p ok new by (auto simp: live_ok_def)
    show "distinct (map tcr_id new)" using d by simp
    show "set new \<subseteq> set (gs_handled (lp_server (p\<lparr>lp_server := ?s\<rparr>)))" using new by simp
    show "tcr_id ` set new \<inter> te_id ` set (lp_events (p\<lparr>lp_server := ?s\<rparr>)) = {}"
    proof -
      have "te_id ` set (lp_events p) \<subseteq> tcr_id ` set (gs_handled (lp_server p))" using p unfolding live_ok_def by blast
      moreover have "tcr_id ` set (gs_handled (lp_server p)) \<inter> tcr_id ` set new = {}" using d by auto
      ultimately show ?thesis by auto
    qed
  qed
  then show ?thesis by (simp add: live_socket_def new)
qed

lemma live_onHook_ok: "live_ok p \<Longrightarrow> live_ok (live_onHook p)"
  by (simp add: live_onHook_def live_ok_def)

lemma live_step_ok: "live_ok p \<Longrightarrow> live_ok (live_step e p)"
  by (cases e) (auto simp: live_socket_ok live_respond_ok live_stop_ok live_onHook_ok split: server_event.split)

text \<open>
  C21: a live call is answered once. Whatever arrives on the sockets, however the gate responds, and
  whenever the session stops, every call handed to the adapter is either open or has been
  answered, never both and never twice, and no other call is answered.
\<close>

theorem live_answered_once:
  "distinct (map fst (lp_answered (fold live_step es fresh_process)))
   \<and> set (lp_pending (fold live_step es fresh_process)) \<inter> fst ` set (lp_answered (fold live_step es fresh_process)) = {}
   \<and> te_id ` set (lp_events (fold live_step es fresh_process))
       = set (lp_pending (fold live_step es fresh_process)) \<union> fst ` set (lp_answered (fold live_step es fresh_process))"
proof -
  have "live_ok p \<Longrightarrow> live_ok (fold live_step es p)" for p by (induction es arbitrary: p) (auto simp: live_step_ok)
  moreover have "live_ok fresh_process" by (simp add: live_ok_def fresh_process_def server_ok_def server_start_def)
  ultimately show ?thesis unfolding live_ok_def by metis
qed

section \<open>Stopping\<close>

lemma resolve_without_connections: "gs_conns s = [] \<Longrightarrow> gs_conns (resolve_call i m s) = []"
  by (auto simp: resolve_call_def server_answer_def write_message_def on_connection_def Let_def split: prod.split sum.split)

lemma stop_answers:
  assumes "distinct is" "set is \<subseteq> set (lp_pending p)" "gs_conns (lp_server p) = []"
  shows "lp_answered (fold (\<lambda>i q. live_respond i d q) is p) = lp_answered p @ map (\<lambda>i. (i, d)) is
    \<and> gs_conns (lp_server (fold (\<lambda>i q. live_respond i d q) is p)) = []
    \<and> lp_pending (fold (\<lambda>i q. live_respond i d q) is p) = foldl (\<lambda>xs i. remove1 i xs) (lp_pending p) is"
  using assms
proof (induction "is" arbitrary: p)
  case (Cons i "is")
  let ?q = "live_respond i d p"
  have q: "lp_answered ?q = lp_answered p @ [(i, d)]" "lp_pending ?q = remove1 i (lp_pending p)" "gs_conns (lp_server ?q) = []"
    using Cons.prems by (simp_all add: live_respond_def resolve_without_connections)
  have "set is \<subseteq> set (lp_pending ?q)"
  proof
    fix x assume x: "x \<in> set is"
    then have "x \<noteq> i" using Cons.prems(1) by auto
    then show "x \<in> set (lp_pending ?q)" using x Cons.prems(2) q(2) by (auto simp: in_set_remove1)
  qed
  then show ?case using Cons.IH [of ?q] Cons.prems q by simp
qed simp

lemma remove_each: "foldl (\<lambda>ys i. remove1 i ys) xs xs = []"
  by (induction xs) auto


section \<open>The gate answers a live hook\<close>

lemma flight_index_found:
  "i \<in> tcr_id ` snd ` set fs \<Longrightarrow> flight_index i fs < length fs \<and> tcr_id (snd (fs ! flight_index i fs)) = i"
  by (induction i fs rule: flight_index.induct) auto

text \<open>The connection on which a call came.\<close>

definition call_connection :: "live_process \<Rightarrow> string \<Rightarrow> connection option" where
  "call_connection p i = (let fs = gs_flight (lp_server p); k = flight_index i fs in
     if k < length fs then map_of (gs_conns (lp_server p)) (fst (fs ! k)) else None)"

definition call_socket :: "live_process \<Rightarrow> string \<Rightarrow> nat" where
  "call_socket p i = fst (gs_flight (lp_server p) ! flight_index i (gs_flight (lp_server p)))"

lemma respond_writes:
  assumes "i \<in> set (lp_pending p)" "call_connection p i = Some cn" "\<not> cn_ended cn" "message_ok (toVerdict p i d)"
  shows "map_of (gs_conns (lp_server (live_respond i d p))) (call_socket p i)
    = Some (cn\<lparr>cn_written := cn_written cn @ [frame_of (toVerdict p i d)]\<rparr>)"
  using assms encode_ok [OF assms(4)]
  by (auto simp: live_respond_def resolve_call_def server_answer_def call_connection_def call_socket_def Let_def
      write_message_def on_connection_def split: prod.split if_splits)

lemma deliver_live:
  "ia_deliver (ClaudeCodeIntendant (BunClaudeProcess S)) (VerdictMessage i s v) x = (r, y) \<Longrightarrow>
     li_process y = live_respond i (if pv_decision v = deny then HookDeny (pv_reason v) else HookAllow) (li_process x)"
  "ia_deliver (CodexIntendant (LiveCodexProcess S)) (VerdictMessage i s v) x = (r, y) \<Longrightarrow>
     li_process y = live_respond i (if pv_decision v = deny then HookDeny (pv_reason v) else HookAllow) (li_process x)"
  by (auto simp: ClaudeCodeIntendant_def claude_deliver_def BunClaudeProcess_def CodexIntendant_def codex_deliver_def
    LiveCodexProcess_def on_process_def act_modify_def)

text \<open>
  C6: the verdict reaches the hook that asked. When the gate returns for an open call of a live
  Claude Code or Codex session, one frame has been written on the connection the call came on: the
  verdict on that very call, which allows exactly when the policy or a human did.
\<close>

theorem live_gate_answers:
  assumes "gate D (ClaudeCodeIntendant (BunClaudeProcess S)) req w = (Inr out, w')
    \<or> gate D (CodexIntendant (LiveCodexProcess S)) req w = (Inr out, w')"
    and "p = li_process (w_intendant w)" "tcr_id req \<in> set (lp_pending p)" "tcr_id req \<noteq> []" "lp_sessionId p \<noteq> []"
    and "call_connection p (tcr_id req) = Some cn" "\<not> cn_ended cn"
  shows "\<exists>v. map_of (gs_conns (lp_server (li_process (w_intendant w')))) (call_socket p (tcr_id req))
       = Some (cn\<lparr>cn_written := cn_written cn @ [frame_of (VerdictMessage (tcr_id req) (lp_sessionId p) v)]\<rparr>)
    \<and> (pv_decision v = allow \<longleftrightarrow> allowed_by out)"
proof -
  obtain e where e: "e = allow \<longleftrightarrow> allowed_by out" "verdict_ok (effective_verdict (mo_verdict out) e)"
    and p': "li_process (w_intendant w') = live_respond (tcr_id req)
       (if e = deny then HookDeny (pv_reason (effective_verdict (mo_verdict out) e)) else HookAllow) p" "e = allow \<or> e = deny"
  proof -
    have dec: "pv_decision (effective_verdict v e) = e" for v e by (simp add: effective_verdict_def)
    from assms(1) show thesis
    proof
      assume "gate D (ClaudeCodeIntendant (BunClaudeProcess S)) req w = (Inr out, w')"
      from gate_delivers [OF this] show thesis
        by (auto simp: dec allowed_by_def assms(2) dest!: deliver_live(1) intro: that)
    next
      assume "gate D (CodexIntendant (LiveCodexProcess S)) req w = (Inr out, w')"
      from gate_delivers [OF this] show thesis
        by (auto simp: dec allowed_by_def assms(2) dest!: deliver_live(2) intro: that)
    qed
  qed
  let ?d = "if e = deny then HookDeny (pv_reason (effective_verdict (mo_verdict out) e)) else HookAllow"
  have ok: "message_ok (toVerdict p (tcr_id req) ?d)"
    using assms(4,5) e(2) p'(2) by (auto simp: toVerdict_def verdict_ok_def)
  obtain v where v: "toVerdict p (tcr_id req) ?d = VerdictMessage (tcr_id req) (lp_sessionId p) v" "pv_decision v = allow \<longleftrightarrow> e = allow"
    using p'(2) by (auto simp: toVerdict_def)
  show ?thesis
    using respond_writes [OF assms(3,6,7) ok] v e(1) unfolding p'(1) by (intro exI [of _ v]) simp
qed

section \<open>The gates of the live paths, and the key\<close>

text \<open>Without its flag a live process neither listens nor spawns: both calls throw and change nothing.\<close>

lemma live_gated:
  "live_env S ''AGP_CLAUDE_LIVE'' \<noteq> Some ''1'' \<Longrightarrow>
     hp_start (BunClaudeProcess S) sid p = (Inl (Error claude_gated), p) \<and> hp_run (BunClaudeProcess S) p = (Inl (Error claude_gated), p)"
  "live_env S ''AGP_CODEX_LIVE'' \<noteq> Some ''1'' \<Longrightarrow>
     hp_start (LiveCodexProcess S) sid p = (Inl (Error codex_gated), p) \<and> hp_run (LiveCodexProcess S) p = (Inl (Error codex_gated), p)"
  by (simp_all add: BunClaudeProcess_def LiveCodexProcess_def bun_start_def bun_run_def codex_live_start_def codex_live_run_def
      assertLive_def act_seq_lift)

text \<open>The command line of the container does not depend on the API key, which rides the environment.\<close>

lemma docker_key_by_name:
  "ln_argv (dockerClaudeLaunch cwd env opts (Some k1)) = ln_argv (dockerClaudeLaunch cwd env opts (Some k2))"
  "map_option (\<lambda>f. f ''ANTHROPIC_API_KEY'') (ln_env (dockerClaudeLaunch cwd env opts (Some k1))) = Some (Some k1)"
  by (simp_all add: dockerClaudeLaunch_def)

section \<open>Witnesses\<close>

definition live_process_one :: live_process where
  "live_process_one = fresh_process\<lparr>lp_handler := True, lp_sessionId := ''s1'', lp_pending := [''c1''],
     lp_events := [\<lparr>te_id = ''c1'', te_tool = ''Read'', te_args = tcr_args demo_call\<rparr>],
     lp_server := \<lparr>gs_conns = [(0, fresh_connection)], gs_processed = [''c1''], gs_flight = [(0, demo_call)], gs_handled = [demo_call]\<rparr>\<rparr>"

definition live_world :: "(string option, string list, recording list, live_process live_intendant) world" where
  "live_world = \<lparr>w_journal = no_files, w_store = None, w_channel = [], w_sandbox = [],
     w_intendant = \<lparr>li_process = live_process_one, li_handler = True, li_sessionId = ''s1''\<rparr>,
     w_stamps = 0, w_ticks = 0, w_log = []\<rparr>"

lemma live_answers: "collaborators_answer demo (ClaudeCodeIntendant (BunClaudeProcess S))"
  by (auto simp: collaborators_answer_def demo_def toy_crypto_ok toy_datetime ConsoleChannel_def console_post_def
      RecordingSandbox_def recording_exec_def act_ret_def ClaudeCodeIntendant_def claude_deliver_def on_process_def
      BunClaudeProcess_def act_modify_def split: gateway_message.split)

definition host_options :: live_options where
  "host_options = \<lparr>lo_task = ''fix'', lo_repoPath = ''/r'', lo_bin = None, lo_bridgeSocket = ''/tmp/a/gate.sock'', lo_env = None,
     lo_processEnv = Map.empty(''AGP_CLAUDE_LIVE'' \<mapsto> ''1''), lo_docker = None, lo_listen = None, lo_tmpdir = ''/tmp'',
     lo_execPath = ''bun'', lo_cliEntry = ''/agp/src/cli/index.ts'', lo_cwd = ''/''\<rparr>"

lemma live_gate_answers_witness:
  "\<exists>out w' v. gate demo (ClaudeCodeIntendant (BunClaudeProcess host_options)) demo_call live_world = (Inr out, w')
     \<and> map_of (gs_conns (lp_server (li_process (w_intendant w')))) 0
         = Some (fresh_connection\<lparr>cn_written := [frame_of (VerdictMessage ''c1'' ''s1'' v)]\<rparr>)
     \<and> (pv_decision v = allow \<longleftrightarrow> allowed_by out)"
proof -
  have "journal_usable demo live_world"
    unfolding journal_usable_def live_world_def using journal_good_no_files [of toy_crypto] by (auto simp: demo_def)
  then obtain out w' where g: "gate demo (ClaudeCodeIntendant (BunClaudeProcess host_options)) demo_call live_world = (Inr out, w')"
    using gate_settles [OF live_answers demo_judged] unfolding succeeds_def by blast
  have p: "li_process (w_intendant live_world) = live_process_one" by (simp add: live_world_def)
  have c: "call_connection live_process_one (tcr_id demo_call) = Some fresh_connection" "call_socket live_process_one (tcr_id demo_call) = 0"
    by (simp_all add: call_connection_def call_socket_def live_process_one_def)
  show ?thesis
    using live_gate_answers [OF disjI1 [OF g] p [symmetric] _ _ _ c(1)] g c(2)
    by (auto simp: live_process_one_def demo_call_def fresh_connection_def)
qed

definition one_open :: "live_event list" where
  "one_open = [LHook, LSocket (Connected 0), LSocket (Data 0 (frame_of (ToolCallRequest a_request)))]"

lemma one_open_pending: "lp_pending (fold live_step one_open fresh_process) = [''t1'']"
proof -
  have "message_ok (ToolCallRequest a_request)" by (simp add: a_request_def)
  from push_frame [OF this] show ?thesis
    by (simp add: one_open_def live_socket_def live_onHook_def fresh_process_def server_start_def server_data_def fresh_connection_def
        on_connection_def server_dispatch_def live_handle_def Let_def) (simp add: a_request_def)
qed


end
