(* ===== verification/HookPath.thy ===== *)
theory HookPath
  imports HookBridge LiveProcess
begin

text \<open>
  A live Claude Code session as one system: the hook bridges (theory \<open>HookBridge\<close>), the process that
  listens for them (\<open>LiveProcess\<close>) and the gate of the daemon (\<open>Daemon\<close>), joined by the Unix socket.
  The socket carries bytes in order, cut anywhere; other programs may connect to it and write what
  they like. Everything happens in any order.
\<close>

section \<open>Requests and events\<close>

definition event_of :: "tool_call_request \<Rightarrow> tool_event" where
  "event_of r = \<lparr>te_id = tcr_id r, te_tool = tcr_tool r, te_args = tcr_args r\<rparr>"

text \<open>The request a bridge makes of what it reads from its standard input, and what it writes on the socket.\<close>

definition link_request :: "string \<Rightarrow> tool_call_request option" where
  "link_request stdin = (case parseHookEvent stdin of
     None \<Rightarrow> None
   | Some ev \<Rightarrow> (case hook_request ev of Inl _ \<Rightarrow> None | Inr req \<Rightarrow> Some req))"

definition hook_sends :: "nat \<Rightarrow> string \<Rightarrow> string" where
  "hook_sends t stdin = (case link_request stdin of
     None \<Rightarrow> []
   | Some req \<Rightarrow> concat (gc_sent (bridge_client req t [])))"

lemma link_request_ok:
  assumes "link_request stdin = Some req"
  shows "message_ok (ToolCallRequest req)"
    "\<exists>ev. parseHookEvent stdin = Some ev \<and> hook_request ev = Inr req"
proof -
  obtain ev where ev: "parseHookEvent stdin = Some ev" "hook_request ev = Inr req"
    using assms by (auto simp: link_request_def split: option.splits sum.splits)
  then show "\<exists>ev. parseHookEvent stdin = Some ev \<and> hook_request ev = Inr req" by blast
  obtain kvs where j: "json_parse stdin = Some (JObj kvs)"
    using ev(1) by (auto simp: parseHookEvent_def split: option.splits json.splits)
  have args: "json_ok j" if "map_of kvs k = Some j" for k j
    using json_parse_ok [OF j] map_of_SomeD [OF that] by (auto simp: list_all_iff)
  have "string_member kvs k = Some s \<Longrightarrow> s \<noteq> []" for k s
    by (auto simp: string_member_def split: option.splits json.splits if_splits)
  then have "he_toolUseId ev \<noteq> [] \<and> he_sessionId ev \<noteq> [] \<and> he_toolName ev \<noteq> []
      \<and> (he_toolInput ev = JObj [] \<or> json_ok (he_toolInput ev))"
    using ev(1) j args by (fastforce simp: parseHookEvent_def split: option.splits json.splits if_splits)
  then show "message_ok (ToolCallRequest req)"
    using ev(2) by (auto simp: hook_request_def split: json.splits)
qed

lemma hook_sends_frame:
  "hook_sends t stdin = concat (map frame_of (case link_request stdin of None \<Rightarrow> [] | Some req \<Rightarrow> [ToolCallRequest req]))"
  using encode_ok [OF link_request_ok(1)]
  by (auto simp: hook_sends_def bridge_client_def client_run_def client_start_def client_request_def Let_def split: option.split)

section \<open>The bridge reads the socket\<close>

fun received_text :: "client_event list \<Rightarrow> string" where
  "received_text [] = []"
| "received_text (Received chunk # es) = chunk @ received_text es"
| "received_text (_ # es) = received_text es"

lemma received_text_append: "received_text (es @ fs) = received_text es @ received_text fs"
  by (induction es rule: received_text.induct) auto

fun bridge_event :: "client_event \<Rightarrow> bool" where
  "bridge_event (Requested _) = False"
| "bridge_event _ = True"

lemma failAll_pending: "gc_pending (failAll e s) = []"
  by (simp add: failAll_def)

lemma timeout_keeps:
  "gc_pending s = [] \<Longrightarrow> gc_pending (client_timeout i s) = []" "gc_buffer (client_timeout i s) = gc_buffer s"
  "(n, Resolved m) \<in> set (gc_settled (client_timeout i s)) \<Longrightarrow> (n, Resolved m) \<in> set (gc_settled s)"
  by (auto simp: client_timeout_def settle_def split: option.splits if_splits)

lemma messages_buffer:
  "gc_buffer (fold client_message ms s) = gc_buffer s"
  "gc_pending s = [] \<Longrightarrow> fold client_message ms s = s"
  by (induction ms arbitrary: s) (auto simp: client_message_def settle_def split: option.split)

text \<open>What settles the request of a bridge are messages of the stream it reads.\<close>

lemma bridge_reads:
  assumes "prefix (received_text es) (concat (map frame_of ms))" "\<forall>m \<in> set ms. message_ok m" "\<forall>e \<in> set es. bridge_event e"
  shows "(\<forall>n m. (n, Resolved m) \<in> set (gc_settled (bridge_client req t es)) \<longrightarrow> m \<in> set ms)
    \<and> (gc_pending (bridge_client req t es) = [] \<or> gc_buffer (bridge_client req t es) = rest_line (received_text es))"
  using assms(1,3)
proof (induction es rule: rev_induct)
  case Nil
  show ?case
    by (auto simp: bridge_client_def client_run_def client_start_def client_request_def settle_def Let_def lines_none split: sum.split)
next
  case (snoc e es)
  let ?s = "bridge_client req t es"
  have IH: "(\<forall>n m. (n, Resolved m) \<in> set (gc_settled ?s) \<longrightarrow> m \<in> set ms)
      \<and> (gc_pending ?s = [] \<or> gc_buffer ?s = rest_line (received_text es))"
    using snoc by (auto simp: received_text_append dest: append_prefixD)
  have step: "bridge_client req t (es @ [e]) = client_step e ?s" by (simp add: bridge_client_def client_run_def)
  show ?case
  proof (cases e)
    case (Received chunk)
    obtain y where y: "received_text es @ chunk @ y = concat (map frame_of ms)"
      using snoc.prems(1) Received by (auto simp: received_text_append prefix_def)
    have s': "bridge_client req t (es @ [e]) = client_data chunk ?s" using step Received by simp
    obtain r b where p: "push chunk (gc_buffer ?s) = (r, b)" by fastforce
    show ?thesis
    proof (cases "gc_pending ?s = []")
      case True
      then show ?thesis
        using IH p unfolding s'
        by (cases r) (auto simp: client_data_def messages_buffer failAll_pending dest!: failAll_resolved)
    next
      case False
      then have "push chunk (rest_line (received_text es)) = (r, b)" using IH p by simp
      from stream_push [OF y assms(2) this]
      have b: "b = rest_line (received_text es @ chunk)" "\<And>out. r = Inr out \<Longrightarrow> set out \<subseteq> set ms" by auto
      show ?thesis
        using IH p b Received unfolding s'
        by (cases r) (auto simp: client_data_def messages_buffer failAll_pending received_text_append
            dest!: failAll_resolved messages_resolved)
    qed
  next
    case (TimedOut i)
    have "bridge_client req t (es @ [e]) = client_timeout i ?s" using step TimedOut by simp
    then show ?thesis using IH timeout_keeps [where s = ?s and i = i] TimedOut by (auto simp: received_text_append)
  qed (use IH step snoc.prems(2) in \<open>auto simp: received_text_append failAll_pending dest!: failAll_resolved\<close>)
qed


section \<open>The system\<close>

text \<open>
  A bridge, by the number of its socket: what it read, how many bytes of its request have arrived,
  what was written for it, how much of that has arrived, and the events of its client.
\<close>

record hook_link =
  hl_stdin :: string
  hl_up :: nat
  hl_down :: string
  hl_got :: nat
  hl_events :: "client_event list"

text \<open>\<open>pl_peers\<close> are the sockets of other programs. The world is the one of the daemon.\<close>

record ('s, 'c, 'b) plane =
  pl_world :: "('s, 'c, 'b, live_process live_intendant) world"
  pl_hooks :: "(nat \<times> hook_link) list"
  pl_peers :: "nat list"

definition new_link :: "string \<Rightarrow> hook_link" where
  "new_link stdin = \<lparr>hl_stdin = stdin, hl_up = 0, hl_down = [], hl_got = 0, hl_events = []\<rparr>"

definition plane_process :: "('s, 'c, 'b) plane \<Rightarrow> live_process" where
  "plane_process P = li_process (w_intendant (pl_world P))"

definition on_live :: "(live_process \<Rightarrow> live_process) \<Rightarrow> ('s, 'c, 'b) plane \<Rightarrow> ('s, 'c, 'b) plane" where
  "on_live f P = P\<lparr>pl_world := (pl_world P)\<lparr>w_intendant := (w_intendant (pl_world P))\<lparr>li_process := f (plane_process P)\<rparr>\<rparr>\<rparr>"

text \<open>What the server has written on a socket is on its way to the bridge, also when the socket closes.\<close>

definition server_wrote :: "live_process \<Rightarrow> nat \<Rightarrow> string option" where
  "server_wrote p c = map_option (\<lambda>cn. concat (cn_written cn)) (map_of (gs_conns (lp_server p)) c)"

definition carry_link :: "live_process \<Rightarrow> nat \<Rightarrow> hook_link \<Rightarrow> hook_link" where
  "carry_link p c l = (case server_wrote p c of None \<Rightarrow> l | Some text \<Rightarrow> l\<lparr>hl_down := text\<rparr>)"

definition relink :: "(nat \<Rightarrow> hook_link \<Rightarrow> hook_link) \<Rightarrow> (nat \<times> hook_link) list \<Rightarrow> (nat \<times> hook_link) list" where
  "relink f hs = map (\<lambda>(c, l). (c, f c l)) hs"

definition carry :: "('s, 'c, 'b) plane \<Rightarrow> ('s, 'c, 'b) plane" where
  "carry P = P\<lparr>pl_hooks := relink (carry_link (plane_process P)) (pl_hooks P)\<rparr>"

definition with_link :: "nat \<Rightarrow> (hook_link \<Rightarrow> hook_link) \<Rightarrow> ('s, 'c, 'b) plane \<Rightarrow> ('s, 'c, 'b) plane" where
  "with_link c f P = P\<lparr>pl_hooks := relink (\<lambda>d l. if d = c then f l else l) (pl_hooks P)\<rparr>"

definition client_gets :: "client_event \<Rightarrow> hook_link \<Rightarrow> hook_link" where
  "client_gets e l = l\<lparr>hl_events := hl_events l @ [e]\<rparr>"

text \<open>
  The daemon gates a call that was surfaced to the adapter. The other events are those of sockets,
  timers and the end of the session.
\<close>

datatype plane_event =
    HookStarts nat string
  | ToServer nat nat
  | ToHook nat nat
  | HookTimes nat
  | HookLoses nat
  | PeerConnects nat
  | PeerSends nat string
  | PeerLeaves nat
  | GateJudges tool_event
  | SessionStops

definition unused :: "nat \<Rightarrow> ('s, 'c, 'b) plane \<Rightarrow> bool" where
  "unused c P \<longleftrightarrow> c \<notin> fst ` set (pl_hooks P) \<and> c \<notin> set (pl_peers P)"

definition gate_judges :: "('sk, 'pk, 's, 'c, 'b) daemon \<Rightarrow> live_options \<Rightarrow> tool_event \<Rightarrow>
    ('s, 'c, 'b, live_process live_intendant) world \<Rightarrow> ('s, 'c, 'b, live_process live_intendant) world" where
  "gate_judges D S te w =
     (case claude_onPreToolUse te (w_intendant w) of
        (Inl _, _) \<Rightarrow> w
      | (Inr req, _) \<Rightarrow> snd (gate D (ClaudeCodeIntendant (BunClaudeProcess S)) req w))"

fun plane_move :: "('sk, 'pk, 's, 'c, 'b) daemon \<Rightarrow> live_options \<Rightarrow> nat \<Rightarrow> plane_event \<Rightarrow> ('s, 'c, 'b) plane \<Rightarrow> ('s, 'c, 'b) plane" where
  "plane_move D S t (HookStarts c stdin) P =
     (if \<not> unused c P then P
      else on_live (live_socket (Connected c))
        (P\<lparr>pl_hooks := pl_hooks P @ [(c, new_link stdin)]\<rparr>))"
| "plane_move D S t (ToServer c n) P =
     (case map_of (pl_hooks P) c of
        None \<Rightarrow> P
      | Some l \<Rightarrow>
          let chunk = take n (drop (hl_up l) (hook_sends t (hl_stdin l))) in
          on_live (live_socket (Data c chunk)) (with_link c (\<lambda>l. l\<lparr>hl_up := hl_up l + length chunk\<rparr>) P))"
| "plane_move D S t (ToHook c n) P =
     with_link c (\<lambda>l. let chunk = take n (drop (hl_got l) (hl_down l)) in
       client_gets (Received chunk) (l\<lparr>hl_got := hl_got l + length chunk\<rparr>)) P"
| "plane_move D S t (HookTimes c) P =
     with_link c (\<lambda>l. case parseHookEvent (hl_stdin l) of
         None \<Rightarrow> l
       | Some ev \<Rightarrow> client_gets (TimedOut (he_toolUseId ev)) l) P"
| "plane_move D S t (HookLoses c) P =
     (if c \<in> set (pl_peers P) then P
      else on_live (live_socket (Dropped c)) (with_link c (client_gets LinkClosed) P))"
| "plane_move D S t (PeerConnects c) P =
     (if \<not> unused c P then P else on_live (live_socket (Connected c)) (P\<lparr>pl_peers := c # pl_peers P\<rparr>))"
| "plane_move D S t (PeerSends c chunk) P =
     (if c \<in> set (pl_peers P) then on_live (live_socket (Data c chunk)) P else P)"
| "plane_move D S t (PeerLeaves c) P =
     (if c \<in> set (pl_peers P) then on_live (live_socket (Dropped c)) P else P)"
| "plane_move D S t (GateJudges te) P =
     (if te \<in> set (lp_events (plane_process P)) then P\<lparr>pl_world := gate_judges D S te (pl_world P)\<rparr> else P)"
| "plane_move D S t SessionStops P = on_live live_stop_process P"

definition plane_step :: "('sk, 'pk, 's, 'c, 'b) daemon \<Rightarrow> live_options \<Rightarrow> nat \<Rightarrow> plane_event \<Rightarrow> ('s, 'c, 'b) plane \<Rightarrow> ('s, 'c, 'b) plane" where
  "plane_step D S t e P = carry (plane_move D S t e P)"

text \<open>The session as it is opened: the process listens, and the adapter has the handler of the daemon.\<close>

definition plane_start :: "string \<Rightarrow> ('s, 'c, 'b, 'i) world \<Rightarrow> ('s, 'c, 'b) plane" where
  "plane_start sid w = \<lparr>pl_world = \<lparr>w_journal = w_journal w, w_store = w_store w, w_channel = w_channel w, w_sandbox = w_sandbox w,
       w_intendant = \<lparr>li_process = fresh_process\<lparr>lp_handler := True, lp_sessionId := sid, lp_listening := True\<rparr>,
         li_handler = True, li_sessionId = sid\<rparr>,
       w_stamps = w_stamps w, w_ticks = w_ticks w, w_log = w_log w\<rparr>,
     pl_hooks = [], pl_peers = []\<rparr>"

definition plane_run :: "('sk, 'pk, 's, 'c, 'b) daemon \<Rightarrow> live_options \<Rightarrow> nat \<Rightarrow> string \<Rightarrow> ('s, 'c, 'b, 'i) world \<Rightarrow> plane_event list \<Rightarrow> ('s, 'c, 'b) plane" where
  "plane_run D S t sid w es = fold (plane_step D S t) es (plane_start sid w)"

text \<open>It is what the constructor of the adapter, \<open>start\<close> and \<open>onToolCall\<close> make of a fresh process.\<close>

lemma plane_start_opens:
  assumes "live_env S ''AGP_CLAUDE_LIVE'' = Some ''1''" "lo_listen S = None"
  shows "act_seq (live_start (BunClaudeProcess S) sid) live_onToolCall \<lparr>li_process = live_onHook fresh_process, li_handler = False, li_sessionId = []\<rparr>
    = (Inr (), w_intendant (pl_world (plane_start sid w)))"
  using assms
  by (simp add: live_start_def live_onToolCall_def act_seq_def act_bind_def act_modify_def on_process_def BunClaudeProcess_def
      bun_start_def assertLive_def act_lift_def live_open_def live_onHook_def plane_start_def fresh_process_def)


section \<open>The server towards the bridges\<close>

text \<open>
  \<open>F\<close> maps the sockets of bridges to what the bridges read, \<open>U\<close> to the bytes that have arrived. What is in
  flight on such a socket is the bridge's own request; the server's buffer is the rest of what
  arrived; and what it wrote are errors and verdicts on the bridge's own, surfaced, answered call.
\<close>

definition routed :: "(nat \<Rightarrow> string option) \<Rightarrow> gateway_server \<Rightarrow> bool" where
  "routed F s \<longleftrightarrow> (\<forall>(c, r) \<in> set (gs_flight s). \<forall>stdin. F c = Some stdin \<longrightarrow> link_request stdin = Some r)"

definition buffered :: "nat \<Rightarrow> (nat \<Rightarrow> string option) \<Rightarrow> (nat \<Rightarrow> nat) \<Rightarrow> gateway_server \<Rightarrow> bool" where
  "buffered t F U s \<longleftrightarrow> (\<forall>c stdin cn. F c = Some stdin \<longrightarrow> map_of (gs_conns s) c = Some cn \<longrightarrow>
     cn_buffer cn = rest_line (take (U c) (hook_sends t stdin)))"

definition answer_ok :: "(string \<times> hook_decision) set \<Rightarrow> tool_event set \<Rightarrow> string \<Rightarrow> gateway_message \<Rightarrow> bool" where
  "answer_ok A E stdin m \<longleftrightarrow> message_ok m
     \<and> (\<forall>i sid v. m = VerdictMessage i sid v \<longrightarrow> (\<exists>req d. link_request stdin = Some req \<and> tcr_id req = i \<and> event_of req \<in> E
          \<and> (i, d) \<in> A \<and> (pv_decision v = allow \<longrightarrow> d = HookAllow)))"

definition answers_ok :: "(string \<times> hook_decision) set \<Rightarrow> tool_event set \<Rightarrow> string \<Rightarrow> string list \<Rightarrow> bool" where
  "answers_ok A E stdin fs \<longleftrightarrow> (\<exists>ms. fs = map frame_of ms \<and> (\<forall>m \<in> set ms. answer_ok A E stdin m))"

definition answering :: "(string \<times> hook_decision) set \<Rightarrow> tool_event set \<Rightarrow> (nat \<Rightarrow> string option) \<Rightarrow> gateway_server \<Rightarrow> bool" where
  "answering A E F s \<longleftrightarrow> (\<forall>c stdin cn. F c = Some stdin \<longrightarrow> map_of (gs_conns s) c = Some cn \<longrightarrow> answers_ok A E stdin (cn_written cn))"

lemma answer_ok_mono: "answer_ok A E stdin m \<Longrightarrow> A \<subseteq> A' \<Longrightarrow> E \<subseteq> E' \<Longrightarrow> answer_ok A' E' stdin m"
  by (auto simp: answer_ok_def) (meson subsetD | force dest: subsetD)+

lemma answers_ok_mono: "answers_ok A E stdin fs \<Longrightarrow> A \<subseteq> A' \<Longrightarrow> E \<subseteq> E' \<Longrightarrow> answers_ok A' E' stdin fs"
  unfolding answers_ok_def by (metis answer_ok_mono)

lemma answering_mono: "answering A E F s \<Longrightarrow> A \<subseteq> A' \<Longrightarrow> E \<subseteq> E' \<Longrightarrow> answering A' E' F s"
  unfolding answering_def by (metis answers_ok_mono)

lemma answers_ok_snoc: "answers_ok A E stdin fs \<Longrightarrow> answer_ok A E stdin m \<Longrightarrow> answers_ok A E stdin (fs @ [frame_of m])"
  unfolding answers_ok_def by (elim exE) (rule_tac x = "ms @ [m]" in exI, auto)

text \<open>What the encoder lets through is well formed.\<close>

lemma encode_Inr:
  assumes "encodeMessage m = Inr f" "\<forall>r. m \<noteq> ToolCallRequest r" "\<forall>i s b x. m \<noteq> ToolCallResult i s b x"
  shows "message_ok m \<and> f = frame_of m"
proof -
  have v: "PolicyVerdict (Some (verdict_json v)) = (if verdict_ok v then Some v else None)" for v
    by (simp add: PolicyVerdict_def verdict_json_def z_object_def schema_reads z_refine_def verdict_ok_def)
  have "message_ok m"
    using assms
    by (cases m) (auto simp: encodeMessage_def GatewayMessage_def VerdictMessage_schema_def GatewayError_schema_def z_object_def
        z_literal_def schema_reads result_simps v
        split: option.splits if_splits)
  then show ?thesis using assms(1) encode_ok by auto
qed

lemma write_inv [simp]:
  "buffered t F U s \<Longrightarrow> buffered t F U (write_message c m s)" "routed F s \<Longrightarrow> routed F (write_message c m s)"
  by (auto simp: buffered_def routed_def write_message_def on_connection_def map_of_update split: sum.splits option.splits)

lemma write_answering:
  assumes "\<forall>r. m \<noteq> ToolCallRequest r" "\<forall>i s b x. m \<noteq> ToolCallResult i s b x"
    and "\<And>stdin. F c = Some stdin \<Longrightarrow> message_ok m \<Longrightarrow> answer_ok A E stdin m" and "answering A E F s"
  shows "answering A E F (write_message c m s)"
  using encode_Inr [OF _ assms(1,2)] assms(3,4)
  by (auto simp: answering_def write_message_def on_connection_def map_of_update split: sum.splits option.splits
      intro!: answers_ok_snoc)

lemma write_error: "answering A E F s \<Longrightarrow> answering A E F (write_message c (errorMessage i sid m) s)"
  by (rule write_answering) (simp_all add: answer_ok_def errorMessage_def)


lemma inv_conns [simp]:
  "answering A E F (s\<lparr>gs_processed := x, gs_flight := y, gs_handled := z\<rparr>) = answering A E F s"
  "buffered t F U (s\<lparr>gs_processed := x, gs_flight := y, gs_handled := z\<rparr>) = buffered t F U s"
  "answering A E F (s\<lparr>gs_flight := y\<rparr>) = answering A E F s" "buffered t F U (s\<lparr>gs_flight := y\<rparr>) = buffered t F U s"
  by (simp_all add: answering_def buffered_def)

lemma routed_flight: "routed F s \<Longrightarrow> set fl \<subseteq> set (gs_flight s) \<Longrightarrow> routed F (s\<lparr>gs_flight := fl\<rparr>)"
  unfolding routed_def by simp blast

lemma on_connection_inv:
  "(\<And>cn. cn_written (f cn) = cn_written cn) \<Longrightarrow> answering A E F s \<Longrightarrow> answering A E F (on_connection c f s)"
  "(\<And>cn. cn_buffer (f cn) = cn_buffer cn) \<Longrightarrow> buffered t F U s \<Longrightarrow> buffered t F U (on_connection c f s)"
  "routed F s \<Longrightarrow> routed F (on_connection c f s)"
  by (auto simp: answering_def buffered_def routed_def on_connection_def map_of_update split: option.split)

lemma dispatch_inv:
  assumes "\<And>stdin r. F c = Some stdin \<Longrightarrow> m = ToolCallRequest r \<Longrightarrow> link_request stdin = Some r"
  shows "answering A E F s \<Longrightarrow> answering A E F (server_dispatch c m s)"
    "buffered t F U s \<Longrightarrow> buffered t F U (server_dispatch c m s)"
    "routed F s \<Longrightarrow> routed F (server_dispatch c m s)"
proof -
  show "answering A E F s \<Longrightarrow> answering A E F (server_dispatch c m s)"
    by (cases m) (auto simp: server_dispatch_def intro!: write_error)
  show "buffered t F U s \<Longrightarrow> buffered t F U (server_dispatch c m s)"
    by (cases m) (auto simp: server_dispatch_def)
  show "routed F s \<Longrightarrow> routed F (server_dispatch c m s)"
    using assms by (cases m) (auto simp: server_dispatch_def routed_def)
qed

lemma dispatches_inv:
  assumes "\<And>stdin r. F c = Some stdin \<Longrightarrow> ToolCallRequest r \<in> set ms \<Longrightarrow> link_request stdin = Some r"
  shows "answering A E F s \<Longrightarrow> answering A E F (fold (server_dispatch c) ms s)"
    "buffered t F U s \<Longrightarrow> buffered t F U (fold (server_dispatch c) ms s)"
    "routed F s \<Longrightarrow> routed F (fold (server_dispatch c) ms s)"
  using assms by (induction ms arbitrary: s) (auto simp: dispatch_inv)

text \<open>The bytes of a bridge arrive: the server takes up at most the bridge's request.\<close>

lemma data_inv:
  assumes "\<And>stdin. F c = Some stdin \<Longrightarrow> \<exists>y. take (U c) (hook_sends t stdin) @ chunk @ y = hook_sends t stdin"
    and "buffered t F U s" "routed F s" "answering A E F s"
  shows "buffered t F (U(c := U c + length chunk)) (server_data c chunk s)" "routed F (server_data c chunk s)"
    "answering A E F (server_data c chunk s)"
proof -
  let ?U = "U(c := U c + length chunk)"
  have all: "buffered t F ?U (server_data c chunk s) \<and> routed F (server_data c chunk s) \<and> answering A E F (server_data c chunk s)"
  proof (cases "map_of (gs_conns s) c")
    case None
    then show ?thesis using assms(2-4) by (auto simp: server_data_def buffered_def)
  next
    case (Some cn)
    obtain r b where p: "push chunk (cn_buffer cn) = (r, b)" by fastforce
    have hook: "b = rest_line (take (?U c) (hook_sends t stdin)) \<and> (\<forall>out q. r = Inr out \<longrightarrow> ToolCallRequest q \<in> set out \<longrightarrow> link_request stdin = Some q)"
      if F: "F c = Some stdin" for stdin
    proof -
      let ?ms = "case link_request stdin of None \<Rightarrow> [] | Some req \<Rightarrow> [ToolCallRequest req]"
      obtain y where y: "take (U c) (hook_sends t stdin) @ chunk @ y = hook_sends t stdin" using assms(1) [OF F] by blast
      have ok: "\<forall>m \<in> set ?ms. message_ok m" using link_request_ok(1) by (auto split: option.splits)
      have "push chunk (rest_line (take (U c) (hook_sends t stdin))) = (r, b)"
        using p assms(2) F Some by (simp add: buffered_def)
      from stream_push [OF trans [OF y hook_sends_frame] ok this]
      have s: "b = rest_line (take (U c) (hook_sends t stdin) @ chunk) \<and> (\<forall>out. r = Inr out \<longrightarrow> set out \<subseteq> set ?ms)" .
      moreover have "take (U c + length chunk) (hook_sends t stdin) = take (U c) (hook_sends t stdin) @ chunk"
      proof (cases "U c \<le> length (hook_sends t stdin)")
        case True
        then show ?thesis using arg_cong [OF y, of "take (U c + length chunk)"] by simp
      next
        case False
        then show ?thesis using y by simp
      qed
      ultimately show ?thesis by (cases "link_request stdin") auto
    qed
    let ?s = "on_connection c (\<lambda>cn. cn\<lparr>cn_buffer := b\<rparr>) s"
    have s: "buffered t F ?U ?s" "routed F ?s" "answering A E F ?s"
      using hook assms(2-4) Some
      by (auto simp: buffered_def routed_def answering_def on_connection_def map_of_update split: if_splits)
    show ?thesis
    proof (cases r)
      case (Inr out)
      then show ?thesis
        using Some p hook dispatches_inv [where F = F and c = c and ms = out] s by (auto simp: server_data_def Let_def)
    next
      case (Inl e)
      let ?w = "write_message c (errorMessage ''unknown'' ''unknown'' (err_message e)) ?s"
      have w: "buffered t F ?U ?w" "routed F ?w" "answering A E F ?w"
        using s by (simp_all add: write_error)
      have "server_data c chunk s = on_connection c (\<lambda>cn. cn\<lparr>cn_ended := True\<rparr>) ?w"
        using Some p Inl by (simp add: server_data_def Let_def)
      then show ?thesis
        using w by (simp add: on_connection_inv)
    qed
  qed
  then show "buffered t F ?U (server_data c chunk s)" "routed F (server_data c chunk s)" "answering A E F (server_data c chunk s)" by auto
qed


section \<open>The process\<close>

definition sockets_in :: "nat set \<Rightarrow> gateway_server \<Rightarrow> bool" where
  "sockets_in K s \<longleftrightarrow> fst ` set (gs_conns s) \<subseteq> K \<and> fst ` set (gs_flight s) \<subseteq> K"

lemma connection_keys [simp]: "fst ` set (gs_conns (on_connection c f s)) = fst ` set (gs_conns s)"
proof (cases "map_of (gs_conns s) c")
  case (Some cn)
  then have "c \<in> fst ` set (gs_conns s)" by (metis domI dom_map_of_conv_image_fst)
  moreover have "fst ` set (gs_conns (on_connection c f s)) = insert c (fst ` set (gs_conns s))"
    using Some by (simp add: on_connection_def dom_update)
  ultimately show ?thesis by (simp add: insert_absorb)
qed (simp add: on_connection_def)

lemma sockets_kept [simp]:
  "sockets_in K (on_connection c f s) = sockets_in K s" "sockets_in K (write_message c m s) = sockets_in K s"
proof -
  show k: "sockets_in K (on_connection c f s) = sockets_in K s" for f by (simp add: sockets_in_def)
  show "sockets_in K (write_message c m s) = sockets_in K s" by (simp add: write_message_def k split: sum.split)
qed

lemma sockets_flight: "sockets_in K s \<Longrightarrow> set fl \<subseteq> set (gs_flight s) \<Longrightarrow> sockets_in K (s\<lparr>gs_flight := fl\<rparr>)"
  unfolding sockets_in_def by (auto dest!: subsetD)

lemma sockets_dispatch:
  assumes "sockets_in K s" "c \<in> K"
  shows "sockets_in K (server_dispatch c m s)"
proof -
  have "sockets_in K (s\<lparr>gs_processed := x, gs_flight := gs_flight s @ [(c, r)], gs_handled := z\<rparr>)" for x r z
    using assms by (simp add: sockets_in_def)
  then show ?thesis using assms(1) by (cases m) (simp_all add: server_dispatch_def)
qed

lemma sockets_data:
  assumes "sockets_in K s" "c \<in> K"
  shows "sockets_in K (server_data c chunk s)"
proof -
  have d: "sockets_in K s \<Longrightarrow> sockets_in K (fold (server_dispatch c) ms s)" for ms s
    using assms(2) by (induction ms arbitrary: s) (simp_all add: sockets_dispatch)
  show ?thesis using assms(1) d by (auto simp: server_data_def Let_def split: option.split prod.split sum.split)
qed

definition process_ok :: "nat \<Rightarrow> nat set \<Rightarrow> (nat \<Rightarrow> string option) \<Rightarrow> (nat \<Rightarrow> nat) \<Rightarrow> live_process \<Rightarrow> bool" where
  "process_ok t K F U p \<longleftrightarrow> server_ok (lp_server p) \<and> lp_handler p \<and> lp_events p = map event_of (gs_handled (lp_server p))
     \<and> sockets_in K (lp_server p) \<and> routed F (lp_server p) \<and> buffered t F U (lp_server p)
     \<and> answering (set (lp_answered p)) (set (lp_events p)) F (lp_server p)"

lemma handles:
  "lp_handler p \<Longrightarrow> \<exists>xs. fold live_handle rs p = p\<lparr>lp_pending := xs, lp_events := lp_events p @ map event_of rs\<rparr>"
proof (induction rs arbitrary: p)
  case Nil
  show ?case by (rule exI [of _ "lp_pending p"]) simp
next
  case (Cons r rs)
  have "lp_handler (live_handle r p)" "lp_events (live_handle r p) = lp_events p @ [event_of r]"
    "\<And>xs es. (live_handle r p)\<lparr>lp_pending := xs, lp_events := es\<rparr> = p\<lparr>lp_pending := xs, lp_events := es\<rparr>"
    using Cons.prems by (simp_all add: live_handle_def event_of_def)
  then show ?case using Cons.IH [of "live_handle r p"] by simp
qed

lemma socket_process_ok:
  assumes "process_ok t K F U p" and s: "s = server_step e (lp_server p)"
    and "sockets_in K' s" "routed F' s" "buffered t F' U' s" "answering (set (lp_answered p)) (set (lp_events p)) F' s"
  shows "process_ok t K' F' U' (live_socket e p) \<and> lp_answered (live_socket e p) = lp_answered p
    \<and> set (lp_events p) \<subseteq> set (lp_events (live_socket e p)) \<and> lp_server (live_socket e p) = s"
proof -
  obtain new where n: "gs_handled s = gs_handled (lp_server p) @ new" using step_handled unfolding s by blast
  have p: "lp_handler p" "lp_events p = map event_of (gs_handled (lp_server p))" "server_ok (lp_server p)"
    using assms(1) by (simp_all add: process_ok_def)
  obtain xs where "live_socket e p = p\<lparr>lp_server := s, lp_pending := xs, lp_events := lp_events p @ map event_of new\<rparr>"
    using handles [of "p\<lparr>lp_server := s\<rparr>" new] n p(1) by (auto simp: live_socket_def s [symmetric] Let_def)
  then show ?thesis
    using p n assms(3-5) answering_mono [OF assms(6) order_refl, of "set (lp_events p @ map event_of new)"] server_step_ok [OF p(3), of e]
    by (simp add: process_ok_def s)
qed

lemma flight_index_lt: "flight_index i fs < length fs \<Longrightarrow> tcr_id (snd (fs ! flight_index i fs)) = i"
  by (induction i fs rule: flight_index.induct) auto

lemma respond_process_ok:
  assumes "process_ok t K F U p"
  shows "process_ok t K F U (live_respond i d p)"
proof (cases "i \<in> set (lp_pending p)")
  case True
  let ?s = "lp_server p" and ?m = "toVerdict p i d" and ?A = "insert (i, d) (set (lp_answered p))" and ?E = "set (lp_events p)"
  let ?k = "flight_index i (gs_flight ?s)"
  have p: "server_ok ?s" "sockets_in K ?s" "routed F ?s" "buffered t F U ?s" "lp_handler p" "lp_events p = map event_of (gs_handled ?s)"
    and "answering (set (lp_answered p)) ?E F ?s"
    using assms unfolding process_ok_def by blast+
  then have a: "answering ?A ?E F ?s" by (elim answering_mono) auto
  have m: "\<forall>r. ?m \<noteq> ToolCallRequest r" "\<forall>i s b x. ?m \<noteq> ToolCallResult i s b x" by (simp_all add: toVerdict_def)
  have "routed F (resolve_call i ?m ?s) \<and> buffered t F U (resolve_call i ?m ?s) \<and> answering ?A ?E F (resolve_call i ?m ?s)"
  proof (cases "?k < length (gs_flight ?s)")
    case True
    obtain c r where cr: "gs_flight ?s ! ?k = (c, r)" by fastforce
    then have r: "(c, r) \<in> set (gs_flight ?s)" "tcr_id r = i" using True flight_index_lt [OF True] by (auto dest: nth_mem)
    have rest: "set (take ?k (gs_flight ?s) @ drop (Suc ?k) (gs_flight ?s)) \<subseteq> set (gs_flight ?s)"
      using set_take_subset set_drop_subset by fastforce
    let ?t = "?s\<lparr>gs_flight := take ?k (gs_flight ?s) @ drop (Suc ?k) (gs_flight ?s)\<rparr>"
    have t: "routed F ?t" "buffered t F U ?t" "answering ?A ?E F ?t"
      using p(3,4) a routed_flight [OF p(3) rest] by simp_all
    have "answer_ok ?A ?E stdin ?m" if "F c = Some stdin" "message_ok ?m" for stdin
    proof -
      have "link_request stdin = Some r" using p(3) r(1) that(1) by (auto simp: routed_def)
      moreover have "event_of r \<in> ?E" using p(1,6) r(1) by (force simp: server_ok_def)
      ultimately show ?thesis using that(2) r(2) by (auto simp: answer_ok_def toVerdict_def split: hook_decision.splits)
    qed
    then show ?thesis
      using t True cr write_answering [OF m] by (simp add: resolve_call_def server_answer_def Let_def)
  qed (use p a in \<open>simp add: resolve_call_def server_answer_def\<close>)
  moreover have "sockets_in K (resolve_call i ?m ?s)"
    using sockets_flight [OF p(2), of "take ?k (gs_flight ?s) @ drop (Suc ?k) (gs_flight ?s)"]
      set_take_subset [of ?k "gs_flight ?s"] set_drop_subset [of "Suc ?k" "gs_flight ?s"] p(2)
    by (simp add: resolve_call_def server_answer_def Let_def split: prod.split)
  ultimately show ?thesis
    using True p server_ok_resolve [OF p(1), of i ?m]
    by (auto simp: process_ok_def live_respond_def resolve_call_def server_answer_def Let_def split: prod.splits)
qed (use assms in \<open>simp add: live_respond_def\<close>)


lemma closed_process_ok:
  assumes "process_ok t K F U p"
  shows "process_ok t K F U (p\<lparr>lp_killed := b, lp_server := server_step ServerClosed (lp_server p)\<rparr>)"
  using assms by (auto simp: process_ok_def server_ok_def sockets_in_def routed_def buffered_def answering_def)

lemma responds_process_ok:
  "process_ok t K F U p \<Longrightarrow> process_ok t K F U (fold (\<lambda>i q. live_respond i (f i) q) is p)"
  by (induction "is" arbitrary: p) (auto simp: respond_process_ok)

lemma listening_ok: "process_ok t K F U (p\<lparr>lp_listening := b\<rparr>) = process_ok t K F U p"
  by (simp add: process_ok_def)

lemma stop_process_ok: "process_ok t K F U p \<Longrightarrow> process_ok t K F U (live_stop_process p)"
  unfolding live_stop_process_def listening_ok by (intro responds_process_ok closed_process_ok)

section \<open>What was written stays written\<close>

definition grows :: "gateway_server \<Rightarrow> gateway_server \<Rightarrow> bool" where
  "grows s s' \<longleftrightarrow> (\<forall>c cn'. map_of (gs_conns s') c = Some cn' \<longrightarrow>
     (\<exists>cn. map_of (gs_conns s) c = Some cn \<and> prefix (cn_written cn) (cn_written cn')))"

lemma grows_refl: "gs_conns s' = gs_conns s \<Longrightarrow> grows s s'"
  by (simp add: grows_def)

lemma grows_trans: "grows s s' \<Longrightarrow> grows s' s'' \<Longrightarrow> grows s s''"
  unfolding grows_def by (meson prefix_order.trans)

lemma grows_connection: "(\<And>cn. prefix (cn_written cn) (cn_written (f cn))) \<Longrightarrow> grows s (on_connection c f s)"
  by (auto simp: grows_def on_connection_def map_of_update split: option.splits if_splits)

lemma grows_write: "grows s (write_message c m s)"
  by (auto simp: write_message_def grows_refl intro!: grows_connection split: sum.split)

lemma grows_dispatch: "grows s (server_dispatch c m s)"
  by (cases m) (auto simp: server_dispatch_def grows_write grows_refl)

lemma grows_dispatches: "grows s (fold (server_dispatch c) ms s)"
  by (induction ms arbitrary: s) (auto simp: grows_refl intro: grows_trans [OF grows_dispatch])

lemma grows_answer: "grows s (server_answer k r s)"
  using grows_trans [OF grows_refl grows_write]
  by (auto simp: server_answer_def Let_def grows_refl split: prod.split)

lemma grows_data: "grows s (server_data c chunk s)"
proof (cases "map_of (gs_conns s) c")
  case (Some cn)
  obtain r b where p: "push chunk (cn_buffer cn) = (r, b)" by fastforce
  have g: "grows s (on_connection c (\<lambda>cn. cn\<lparr>cn_buffer := b\<rparr>) s)" by (rule grows_connection) simp
  then show ?thesis
    using Some p grows_trans [OF g grows_dispatches] grows_trans [OF grows_trans [OF g grows_write] grows_connection]
    by (cases r) (simp_all add: server_data_def Let_def)
qed (simp add: server_data_def grows_refl)

text \<open>How a process goes on: it keeps what it wrote, surfaced and answered, and lets no call through.\<close>

definition goes_on :: "live_process \<Rightarrow> live_process \<Rightarrow> bool" where
  "goes_on p q \<longleftrightarrow> grows (lp_server p) (lp_server q) \<and> set (lp_events p) \<subseteq> set (lp_events q) \<and> set (lp_answered p) \<subseteq> set (lp_answered q)"

lemma goes_on_trans: "goes_on p q \<Longrightarrow> goes_on q r \<Longrightarrow> goes_on p r"
  unfolding goes_on_def using grows_trans by blast

lemma goes_on_respond: "goes_on p (live_respond i d p)"
  by (auto simp: goes_on_def live_respond_def resolve_call_def grows_answer grows_refl)

lemma goes_on_responds: "goes_on p (fold (\<lambda>i q. live_respond i (f i) q) is p)"
proof (induction "is" arbitrary: p)
  case Nil
  show ?case by (simp add: goes_on_def grows_refl)
next
  case (Cons i "is")
  from goes_on_trans [OF goes_on_respond Cons.IH] show ?case by simp
qed

lemma responds_answered:
  "set (lp_answered (fold (\<lambda>i q. live_respond i (f i) q) is p)) \<subseteq> set (lp_answered p) \<union> (\<lambda>i. (i, f i)) ` set is"
proof (induction "is" arbitrary: p)
  case (Cons i "is")
  have "set (lp_answered (live_respond i (f i) p)) \<subseteq> insert (i, f i) (set (lp_answered p))" by (auto simp: live_respond_def)
  then show ?case using Cons.IH [of "live_respond i (f i) p"] by auto
qed simp

lemma goes_on_stop:
  "goes_on p (live_stop_process p)" "(i, HookAllow) \<in> set (lp_answered (live_stop_process p)) \<Longrightarrow> (i, HookAllow) \<in> set (lp_answered p)"
proof -
  let ?q = "p\<lparr>lp_killed := (lp_child p \<noteq> None), lp_server := server_step ServerClosed (lp_server p)\<rparr>"
  have "goes_on p ?q" by (simp add: goes_on_def grows_def)
  from goes_on_trans [OF this goes_on_responds] show "goes_on p (live_stop_process p)"
    by (simp add: live_stop_process_def goes_on_def)
  assume "(i, HookAllow) \<in> set (lp_answered (live_stop_process p))"
  then show "(i, HookAllow) \<in> set (lp_answered p)"
    using responds_answered [of "\<lambda>_. HookDeny ''session terminated''" "lp_pending p" ?q] by (auto simp: live_stop_process_def)
qed

section \<open>The gate\<close>

lemma settle_intendant: "settle_call D req v w = (r, w') \<Longrightarrow> w_intendant w' = w_intendant w"
  by (auto simp: settle_call_def act_bind_def act_seq_def act_catch_def act_ret_def
      dest!: keeps_intendant split: prod.splits sum.splits if_splits)

lemma deliver_never_throws: "ia_deliver (ClaudeCodeIntendant (BunClaudeProcess S)) m x = (r, y) \<Longrightarrow> r = Inr ()"
  by (auto simp: ClaudeCodeIntendant_def claude_deliver_def BunClaudeProcess_def on_process_def act_modify_def act_ret_def
      split: gateway_message.splits)

lemma gate_throws_early:
  assumes "gate D (ClaudeCodeIntendant (BunClaudeProcess S)) req w = (Inl e, w')"
  shows "w_intendant w' = w_intendant w"
  using assms
  by (auto simp: gate_def act_bind_def act_seq_def act_lift_def act_ret_def deliver_message_def on_intendant_def
      dest!: judge_keeps settle_intendant keeps_intendant(1) deliver_never_throws split: prod.splits sum.splits)

lemma deliver_live_whole:
  "ia_deliver (ClaudeCodeIntendant (BunClaudeProcess S)) (VerdictMessage i s v) x = (r, y) \<Longrightarrow>
     y = x\<lparr>li_process := live_respond i (if pv_decision v = deny then HookDeny (pv_reason v) else HookAllow) (li_process x)\<rparr>"
  by (auto simp: ClaudeCodeIntendant_def claude_deliver_def BunClaudeProcess_def on_process_def act_modify_def)

text \<open>What a gated call does to the process: it is answered after its complete record, or not at all.\<close>

lemma gate_hook:
  assumes "gate D (ClaudeCodeIntendant (BunClaudeProcess S)) req w = (r, w')"
  shows "\<exists>t. w_log w' = w_log w @ t \<and> (w_intendant w' = w_intendant w
     \<or> (\<exists>v d dec. judged D req = Inr v \<and> t = gate_log req v d \<and> (dec = HookAllow \<longrightarrow> permitted v d)
          \<and> w_intendant w' = (w_intendant w)\<lparr>li_process := live_respond (tcr_id req) dec (li_process (w_intendant w))\<rparr>))"
proof (cases r)
  case (Inl e)
  then have "w_intendant w' = w_intendant w" using assms gate_throws_early by blast
  moreover have "\<exists>t. w_log w' = w_log w @ t" using gate_runs [OF assms] by (auto split: sum.splits)
  ultimately show ?thesis by blast
next
  case (Inr out)
  then have g: "gate D (ClaudeCodeIntendant (BunClaudeProcess S)) req w = (Inr out, w')" using assms by simp
  obtain v d where v: "judged D req = Inr v" "w_log w' = w_log w @ gate_log req v d" "mo_verdict out = v" "mo_approved out = approved_by v d"
    using gate_runs [OF assms] Inr by (auto split: sum.splits)
  obtain e where e: "e = allow \<longleftrightarrow> pv_decision v = allow \<or> pv_decision v = require \<and> approved_by v d = Some True" "e = allow \<or> e = deny"
    "ia_deliver (ClaudeCodeIntendant (BunClaudeProcess S)) (VerdictMessage (tcr_id req) (tcr_sessionId req) (effective_verdict v e)) (w_intendant w)
        = (Inr (), w_intendant w')"
    using gate_delivers [OF g] v(3,4) by auto
  have "e = allow \<longrightarrow> permitted v d" using e(1) by (auto simp: permitted_def approved_by_def split: if_splits)
  moreover have "pv_decision (effective_verdict v e) = e" by (simp add: effective_verdict_def)
  ultimately show ?thesis
    using v(1,2) e(2) deliver_live_whole [OF e(3)]
    by (intro exI [of _ "gate_log req v d"] conjI disjI2 exI [of _ v] exI [of _ d]
        exI [of _ "if e = deny then HookDeny (pv_reason (effective_verdict v e)) else HookAllow"]) auto
qed

section \<open>The invariant of the session\<close>

definition sockets_of :: "('s, 'c, 'b) plane \<Rightarrow> nat set" where
  "sockets_of P = fst ` set (pl_hooks P) \<union> set (pl_peers P)"

definition read_of :: "(nat \<times> hook_link) list \<Rightarrow> nat \<Rightarrow> string option" where
  "read_of hs c = map_option hl_stdin (map_of hs c)"

definition up_of :: "(nat \<times> hook_link) list \<Rightarrow> nat \<Rightarrow> nat" where
  "up_of hs c = (case map_of hs c of None \<Rightarrow> 0 | Some l \<Rightarrow> hl_up l)"

definition link_ok :: "live_process \<Rightarrow> nat \<Rightarrow> hook_link \<Rightarrow> bool" where
  "link_ok p c l \<longleftrightarrow>
     (\<exists>ms. hl_down l = concat (map frame_of ms) \<and> (\<forall>m \<in> set ms. answer_ok (set (lp_answered p)) (set (lp_events p)) (hl_stdin l) m))
     \<and> received_text (hl_events l) = take (hl_got l) (hl_down l) \<and> hl_got l \<le> length (hl_down l)
     \<and> (\<forall>e \<in> set (hl_events l). bridge_event e)
     \<and> (\<forall>text. server_wrote p c = Some text \<longrightarrow> prefix (hl_down l) text)"

definition let_through :: "('sk, 'pk, 's, 'c, 'b) daemon \<Rightarrow> tool_call_request \<Rightarrow> effect list \<Rightarrow> bool" where
  "let_through D req log \<longleftrightarrow> (\<exists>v d pre post. judged D req = Inr v \<and> permitted v d \<and> log = pre @ gate_log req v d @ post)"

definition surfaced :: "string \<Rightarrow> tool_event \<Rightarrow> tool_call_request" where
  "surfaced sid te = \<lparr>tcr_id = te_id te, tcr_sessionId = sid, tcr_tool = te_tool te, tcr_args = te_args te, tcr_actor = claude_process\<rparr>"

definition plane_ok :: "('sk, 'pk, 's, 'c, 'b) daemon \<Rightarrow> nat \<Rightarrow> string \<Rightarrow> ('s, 'c, 'b) plane \<Rightarrow> bool" where
  "plane_ok D t sid P \<longleftrightarrow>
     process_ok t (sockets_of P) (read_of (pl_hooks P)) (up_of (pl_hooks P)) (plane_process P)
     \<and> distinct (map fst (pl_hooks P)) \<and> fst ` set (pl_hooks P) \<inter> set (pl_peers P) = {}
     \<and> (\<forall>(c, l) \<in> set (pl_hooks P). link_ok (plane_process P) c l)
     \<and> li_handler (w_intendant (pl_world P)) \<and> li_sessionId (w_intendant (pl_world P)) = sid
     \<and> (\<forall>i. (i, HookAllow) \<in> set (lp_answered (plane_process P)) \<longrightarrow>
          (\<exists>te \<in> set (lp_events (plane_process P)). te_id te = i \<and> let_through D (surfaced sid te) (w_log (pl_world P))))"

lemma link_kept:
  assumes "link_ok p c l" "set (lp_answered p) \<subseteq> set (lp_answered q)" "set (lp_events p) \<subseteq> set (lp_events q)"
    and "\<And>out'. server_wrote q c = Some out' \<Longrightarrow> \<exists>out. server_wrote p c = Some out \<and> prefix out out'"
  shows "link_ok q c l"
proof -
  obtain ms where ms: "hl_down l = concat (map frame_of ms)"
      "\<forall>m \<in> set ms. answer_ok (set (lp_answered p)) (set (lp_events p)) (hl_stdin l) m"
    using assms(1) by (auto simp: link_ok_def)
  have "\<forall>m \<in> set ms. answer_ok (set (lp_answered q)) (set (lp_events q)) (hl_stdin l) m"
    using ms(2) assms(2,3) answer_ok_mono by blast
  moreover have "prefix (hl_down l) out'" if "server_wrote q c = Some out'" for out'
    using assms(1) assms(4) [OF that] prefix_order.trans unfolding link_ok_def by blast
  ultimately show ?thesis using assms(1) ms(1) unfolding link_ok_def by blast
qed

lemma grows_wrote:
  "grows (lp_server p) (lp_server q) \<Longrightarrow> server_wrote q c = Some out' \<Longrightarrow> \<exists>out. server_wrote p c = Some out \<and> prefix out out'"
  by (fastforce simp: server_wrote_def grows_def prefix_def)

lemma link_goes_on: "link_ok p c l \<Longrightarrow> goes_on p q \<Longrightarrow> link_ok q c l"
  unfolding goes_on_def using link_kept grows_wrote by blast

text \<open>Updates of the links.\<close>

lemma map_links: "map_of (relink f hs) c = map_option (f c) (map_of hs c)"
  unfolding relink_def by (induction hs) auto

lemma keys_links [simp]: "fst ` set (relink f hs) = fst ` set hs" "map fst (relink f hs) = map fst hs"
  by (force simp: relink_def image_image, simp add: relink_def comp_def case_prod_unfold)

lemma read_links: "(\<And>c l. hl_stdin (f c l) = hl_stdin l) \<Longrightarrow> read_of (relink f hs) = read_of hs"
  by (rule ext) (simp add: read_of_def map_links option.map_comp comp_def)

lemma up_links: "(\<And>c l. hl_up (f c l) = hl_up l) \<Longrightarrow> up_of (relink f hs) = up_of hs"
  by (rule ext) (simp add: up_of_def map_links split: option.split)

lemma links_ok_map: "(\<forall>(c, l) \<in> set (relink f hs). link_ok p c l) \<longleftrightarrow> (\<forall>(c, l) \<in> set hs. link_ok p c (f c l))"
  by (auto simp: relink_def)

lemma plane_simps [simp]:
  "plane_process (on_live f P) = f (plane_process P)" "pl_hooks (on_live f P) = pl_hooks P" "pl_peers (on_live f P) = pl_peers P"
  "plane_process (P\<lparr>pl_hooks := hs\<rparr>) = plane_process P" "plane_process (P\<lparr>pl_peers := ps\<rparr>) = plane_process P"
  "w_log (pl_world (on_live f P)) = w_log (pl_world P)"
  "li_handler (w_intendant (pl_world (on_live f P))) = li_handler (w_intendant (pl_world P))"
  "li_sessionId (w_intendant (pl_world (on_live f P))) = li_sessionId (w_intendant (pl_world P))"
  by (simp_all add: plane_process_def on_live_def)

lemma moved_ok:
  assumes "plane_ok D t sid P"
    and "process_ok t (fst ` set hs \<union> set ps) (read_of hs) (up_of hs) (f (plane_process P))"
    and "distinct (map fst hs)" "fst ` set hs \<inter> set ps = {}" "\<forall>(c, l) \<in> set hs. link_ok (f (plane_process P)) c l"
    and "set (lp_events (plane_process P)) \<subseteq> set (lp_events (f (plane_process P)))"
    and "\<And>i. (i, HookAllow) \<in> set (lp_answered (f (plane_process P))) \<Longrightarrow> (i, HookAllow) \<in> set (lp_answered (plane_process P))"
  shows "plane_ok D t sid (on_live f (P\<lparr>pl_hooks := hs, pl_peers := ps\<rparr>))"
  using assms unfolding plane_ok_def sockets_of_def by (auto; blast)

lemma carry_ok:
  assumes "plane_ok D t sid P"
  shows "plane_ok D t sid (carry P)"
proof -
  let ?p = "plane_process P"
  have k: "hl_stdin (carry_link p c l) = hl_stdin l" "hl_up (carry_link p c l) = hl_up l" for p c l
    by (simp_all add: carry_link_def split: option.split)
  have "link_ok ?p c (carry_link ?p c l)" if cl: "(c, l) \<in> set (pl_hooks P)" for c l
  proof (cases "map_of (gs_conns (lp_server ?p)) c")
    case None
    then show ?thesis using assms cl by (auto simp: plane_ok_def carry_link_def server_wrote_def)
  next
    case (Some cn)
    have l: "link_ok ?p c l" "answering (set (lp_answered ?p)) (set (lp_events ?p)) (read_of (pl_hooks P)) (lp_server ?p)"
      "distinct (map fst (pl_hooks P))"
      using assms cl by (auto simp: plane_ok_def process_ok_def)
    have "read_of (pl_hooks P) c = Some (hl_stdin l)" using cl l(3) by (simp add: read_of_def)
    then obtain ms where ms: "cn_written cn = map frame_of ms"
        "\<forall>m \<in> set ms. answer_ok (set (lp_answered ?p)) (set (lp_events ?p)) (hl_stdin l) m"
      using l(2) Some unfolding answering_def answers_ok_def by blast
    have pre: "prefix (hl_down l) (concat (map frame_of ms))" using l(1) Some ms(1) by (simp add: link_ok_def server_wrote_def)
    then have "take (hl_got l) (concat (map frame_of ms)) = take (hl_got l) (hl_down l)" "hl_got l \<le> length (concat (map frame_of ms))"
      using l(1) by (auto simp: prefix_def link_ok_def)
    then show ?thesis
      using l(1) ms Some by (auto simp: link_ok_def carry_link_def server_wrote_def)
  qed
  then have "\<forall>(c, l) \<in> set (relink (carry_link ?p) (pl_hooks P)). link_ok ?p c l" unfolding links_ok_map by blast
  then show ?thesis using assms by (simp add: plane_ok_def sockets_of_def carry_def read_links up_links k)
qed

section \<open>Every move keeps it\<close>

lemma plane_eta: "P\<lparr>pl_hooks := hs, pl_peers := pl_peers P\<rparr> = P\<lparr>pl_hooks := hs\<rparr>" "on_live (\<lambda>p. p) P = P"
  by (simp_all add: on_live_def plane_process_def)

lemma buffered_cong: "(\<And>c. F c \<noteq> None \<Longrightarrow> U c = U' c) \<Longrightarrow> buffered t F U s \<Longrightarrow> buffered t F U' s"
  unfolding buffered_def by (metis option.distinct(1))

text \<open>A move of the links alone.\<close>

lemma relinked_ok:
  assumes "plane_ok D t sid P" "\<And>c l. hl_stdin (f c l) = hl_stdin l" "\<And>c l. hl_up (f c l) = hl_up l"
    and "\<And>c l. link_ok (plane_process P) c l \<Longrightarrow> link_ok (plane_process P) c (f c l)"
  shows "plane_ok D t sid (P\<lparr>pl_hooks := relink f (pl_hooks P)\<rparr>)"
proof -
  have "\<forall>(c, l) \<in> set (relink f (pl_hooks P)). link_ok (plane_process P) c l"
    unfolding links_ok_map using assms(1,4) by (auto simp: plane_ok_def)
  then show ?thesis using assms(1) by (simp add: plane_ok_def sockets_of_def read_links up_links assms(2,3))
qed

text \<open>A move of the server.\<close>

lemma socket_moved_ok:
  assumes ok: "plane_ok D t sid P" and p: "p = plane_process P" and s: "s = server_step e (lp_server p)"
    and "sockets_in (fst ` set hs \<union> set ps) s" "routed (read_of hs) s" "buffered t (read_of hs) (up_of hs) s"
    and "answering (set (lp_answered p)) (set (lp_events p)) (read_of hs) s"
    and "distinct (map fst hs)" "fst ` set hs \<inter> set ps = {}"
    and links: "\<And>q c l. (c, l) \<in> set hs \<Longrightarrow> lp_answered q = lp_answered p \<Longrightarrow> set (lp_events p) \<subseteq> set (lp_events q) \<Longrightarrow>
       lp_server q = s \<Longrightarrow> link_ok q c l"
  shows "plane_ok D t sid (on_live (live_socket e) (P\<lparr>pl_hooks := hs, pl_peers := ps\<rparr>))"
proof -
  have "process_ok t (sockets_of P) (read_of (pl_hooks P)) (up_of (pl_hooks P)) p" using ok by (simp add: plane_ok_def p)
  note q = socket_process_ok [OF this s assms(4-7)]
  have "\<forall>(c, l) \<in> set hs. link_ok (live_socket e p) c l" using links q by blast
  then show ?thesis using moved_ok [OF ok, of hs ps "live_socket e"] q assms(8,9) unfolding p by simp
qed

lemma data_moved_ok:
  assumes ok: "plane_ok D t sid P"
    and chunk: "\<And>stdin. read_of (pl_hooks P) c = Some stdin \<Longrightarrow>
       \<exists>y. take (up_of (pl_hooks P) c) (hook_sends t stdin) @ chunk @ y = hook_sends t stdin"
    and c: "c \<in> sockets_of P"
  shows "plane_ok D t sid (on_live (live_socket (Data c chunk))
    (P\<lparr>pl_hooks := relink (\<lambda>d l. if d = c then l\<lparr>hl_up := hl_up l + length chunk\<rparr> else l) (pl_hooks P), pl_peers := pl_peers P\<rparr>))"
proof -
  let ?p = "plane_process P" and ?F = "read_of (pl_hooks P)" and ?U = "up_of (pl_hooks P)"
  let ?hs = "relink (\<lambda>d l. if d = c then l\<lparr>hl_up := hl_up l + length chunk\<rparr> else l) (pl_hooks P)"
  have p: "buffered t ?F ?U (lp_server ?p)" "routed ?F (lp_server ?p)" "sockets_in (sockets_of P) (lp_server ?p)"
    "answering (set (lp_answered ?p)) (set (lp_events ?p)) ?F (lp_server ?p)"
    using ok by (auto simp: plane_ok_def process_ok_def)
  note d = data_inv [where F = ?F, OF chunk p(1,2,4)]
  have F: "read_of ?hs = ?F" by (rule read_links) simp
  have U: "buffered t ?F (up_of ?hs) (server_data c chunk (lp_server ?p))"
    by (rule buffered_cong [OF _ d(1)]) (auto simp: read_of_def up_of_def map_links)
  show ?thesis
  proof (rule socket_moved_ok [OF ok refl refl])
    show "sockets_in (fst ` set ?hs \<union> set (pl_peers P)) (server_step (Data c chunk) (lp_server ?p))"
      using sockets_data [OF p(3) c] by (simp add: sockets_of_def)
    fix q :: live_process and b l
    assume l: "(b, l) \<in> set ?hs" and q: "lp_answered q = lp_answered ?p" "set (lp_events ?p) \<subseteq> set (lp_events q)"
      "lp_server q = server_step (Data c chunk) (lp_server ?p)"
    have "goes_on ?p q" using q grows_data by (simp add: goes_on_def)
    moreover obtain l' where "(b, l') \<in> set (pl_hooks P)" "l = l' \<or> l = l'\<lparr>hl_up := hl_up l' + length chunk\<rparr>"
      using l by (auto simp: relink_def split: if_splits)
    moreover from this ok have "link_ok ?p b l" by (auto simp: plane_ok_def link_ok_def)
    ultimately show "link_ok q b l" using link_goes_on by blast
  qed (use F U d ok in \<open>simp_all add: plane_ok_def\<close>)
qed

lemma dropped_moved_ok:
  assumes ok: "plane_ok D t sid P"
  shows "plane_ok D t sid (on_live (live_socket (Dropped c)) P)"
proof -
  let ?p = "plane_process P"
  have "sockets_in (sockets_of P) (lp_server ?p)" "routed (read_of (pl_hooks P)) (lp_server ?p)"
    "buffered t (read_of (pl_hooks P)) (up_of (pl_hooks P)) (lp_server ?p)"
    "answering (set (lp_answered ?p)) (set (lp_events ?p)) (read_of (pl_hooks P)) (lp_server ?p)"
    using ok by (auto simp: plane_ok_def process_ok_def)
  then have s: "sockets_in (sockets_of P) (server_step (Dropped c) (lp_server ?p))"
    "routed (read_of (pl_hooks P)) (server_step (Dropped c) (lp_server ?p))"
    "buffered t (read_of (pl_hooks P)) (up_of (pl_hooks P)) (server_step (Dropped c) (lp_server ?p))"
    "answering (set (lp_answered ?p)) (set (lp_events ?p)) (read_of (pl_hooks P)) (server_step (Dropped c) (lp_server ?p))"
    by (auto simp: sockets_in_def routed_def buffered_def answering_def AList.map_of_delete AList.delete_conv' restrict_map_def set_delete
        split: if_splits)
  have g: "grows (lp_server ?p) (server_step (Dropped c) (lp_server ?p))"
    by (auto simp: grows_def AList.delete_conv' restrict_map_def split: if_splits)
  have "plane_ok D t sid (on_live (live_socket (Dropped c)) (P\<lparr>pl_hooks := pl_hooks P, pl_peers := pl_peers P\<rparr>))"
  proof (rule socket_moved_ok [OF ok refl refl])
    fix q :: live_process and b l
    assume "(b, l) \<in> set (pl_hooks P)" "lp_answered q = lp_answered ?p" "set (lp_events ?p) \<subseteq> set (lp_events q)"
      "lp_server q = server_step (Dropped c) (lp_server ?p)"
    then show "link_ok q b l" using ok g link_goes_on [of ?p b l q] by (auto simp: plane_ok_def goes_on_def)
  qed (use s ok in \<open>simp_all add: plane_ok_def sockets_of_def\<close>)
  then show ?thesis by simp
qed

lemma connected_inv:
  assumes "map_of (gs_conns s) c = None" "c \<notin> fst ` set (gs_flight s)" "\<And>d. d \<noteq> c \<Longrightarrow> F' d = F d" "\<And>d. d \<noteq> c \<Longrightarrow> U' d = U d" "U' c = 0"
  shows "routed F s \<Longrightarrow> routed F' (server_step (Connected c) s)"
    "buffered t F U s \<Longrightarrow> buffered t F' U' (server_step (Connected c) s)"
    "answering A E F s \<Longrightarrow> answering A E F' (server_step (Connected c) s)"
proof -
  show "routed F s \<Longrightarrow> routed F' (server_step (Connected c) s)"
    using assms(1-3) by (force simp: routed_def)
  show "buffered t F U s \<Longrightarrow> buffered t F' U' (server_step (Connected c) s)"
    using assms by (auto simp: buffered_def map_of_update fresh_connection_def lines_none)
  show "answering A E F s \<Longrightarrow> answering A E F' (server_step (Connected c) s)"
    using assms by (auto simp: answering_def map_of_update fresh_connection_def answers_ok_def)
qed

lemma connected_moved_ok:
  assumes ok: "plane_ok D t sid P" and c: "unused c P"
    and hs: "hs = pl_hooks P \<and> ps = c # pl_peers P \<or> hs = pl_hooks P @ [(c, new_link stdin)] \<and> ps = pl_peers P"
  shows "plane_ok D t sid (on_live (live_socket (Connected c)) (P\<lparr>pl_hooks := hs, pl_peers := ps\<rparr>))"
proof -
  let ?p = "plane_process P" and ?s = "server_step (Connected c) (lp_server (plane_process P))"
  have p: "sockets_in (sockets_of P) (lp_server ?p)" "routed (read_of (pl_hooks P)) (lp_server ?p)"
    "buffered t (read_of (pl_hooks P)) (up_of (pl_hooks P)) (lp_server ?p)"
    "answering (set (lp_answered ?p)) (set (lp_events ?p)) (read_of (pl_hooks P)) (lp_server ?p)"
    using ok by (auto simp: plane_ok_def process_ok_def)
  have new: "c \<notin> sockets_of P" using c by (simp add: unused_def sockets_of_def)
  then have "c \<notin> fst ` set (gs_conns (lp_server ?p))" and f: "c \<notin> fst ` set (gs_flight (lp_server ?p))"
    using p(1) unfolding sockets_in_def by blast+
  then have n: "map_of (gs_conns (lp_server ?p)) c = None" by (simp add: map_of_eq_None_iff)
  have h: "map_of (pl_hooks P) c = None" using new by (simp add: sockets_of_def map_of_eq_None_iff)
  have F: "d \<noteq> c \<Longrightarrow> read_of hs d = read_of (pl_hooks P) d" "d \<noteq> c \<Longrightarrow> up_of hs d = up_of (pl_hooks P) d" "up_of hs c = 0" for d
    using hs h by (auto simp: read_of_def up_of_def map_add_def new_link_def split: option.split)
  note inv = connected_inv [where s = "lp_server ?p" and F = "read_of (pl_hooks P)" and F' = "read_of hs"
      and U = "up_of (pl_hooks P)" and U' = "up_of hs", OF n f F]
  have K: "sockets_in (fst ` set hs \<union> set ps) ?s"
  proof -
    have "fst ` set hs \<union> set ps = insert c (sockets_of P)" using hs by (auto simp: sockets_of_def)
    then show ?thesis using p(1) n by (simp add: sockets_in_def dom_update subset_insertI2)
  qed
  have links: "link_ok q b l" if "(b, l) \<in> set hs" "lp_answered q = lp_answered ?p" "set (lp_events ?p) \<subseteq> set (lp_events q)" "lp_server q = ?s"
    for b l and q :: live_process
  proof (cases "b = c")
    case True
    then have "l = new_link stdin" using that(1) hs h by (force simp: map_of_eq_None_iff)
    then show ?thesis by (simp add: link_ok_def new_link_def) (rule exI [of _ "[]"], simp)
  next
    case False
    have "link_ok ?p b l" using that(1) hs False ok by (auto simp: plane_ok_def)
    then show ?thesis using that(2-4) n False by (elim link_kept) (auto simp: server_wrote_def map_of_update)
  qed
  have "distinct (map fst (pl_hooks P))" "fst ` set (pl_hooks P) \<inter> set (pl_peers P) = {}" using ok by (simp_all add: plane_ok_def)
  then have "distinct (map fst hs)" "fst ` set hs \<inter> set ps = {}" using hs c by (elim disjE; simp add: unused_def)+
  then show ?thesis using socket_moved_ok [OF ok refl refl K _ _ _ _ _ links] inv p by blast
qed

lemma stopped_moved_ok:
  assumes ok: "plane_ok D t sid P"
  shows "plane_ok D t sid (on_live live_stop_process P)"
proof -
  have l: "\<forall>(c, l) \<in> set (pl_hooks P). link_ok (live_stop_process (plane_process P)) c l"
    using ok link_goes_on [OF _ goes_on_stop(1)] by (auto simp: plane_ok_def)
  have "plane_ok D t sid (on_live live_stop_process (P\<lparr>pl_hooks := pl_hooks P, pl_peers := pl_peers P\<rparr>))"
    using goes_on_stop(1) [of "plane_process P"] goes_on_stop(2) [of _ "plane_process P"] stop_process_ok ok
    by (intro moved_ok [where f = live_stop_process and hs = "pl_hooks P" and ps = "pl_peers P", OF ok _ _ _ l]) (auto simp: plane_ok_def sockets_of_def goes_on_def)
  then show ?thesis by simp
qed

lemma let_through_grows: "let_through D req log \<Longrightarrow> let_through D req (log @ t)"
  unfolding let_through_def by (metis append.assoc)

lemma respond_allows:
  "(i, HookAllow) \<in> set (lp_answered (live_respond j dec p)) \<Longrightarrow> (i, HookAllow) \<in> set (lp_answered p) \<or> i = j \<and> dec = HookAllow"
  by (auto simp: live_respond_def split: if_splits)

lemma gate_moved_ok:
  assumes ok: "plane_ok D t sid P" and te: "te \<in> set (lp_events (plane_process P))"
  shows "plane_ok D t sid (P\<lparr>pl_world := gate_judges D S te (pl_world P)\<rparr>)"
proof -
  let ?w = "pl_world P" and ?p = "plane_process P" and ?req = "surfaced sid te"
  obtain r w' where g: "gate D (ClaudeCodeIntendant (BunClaudeProcess S)) ?req ?w = (r, w')" by fastforce
  have j: "gate_judges D S te ?w = w'"
    using ok g by (simp add: gate_judges_def claude_onPreToolUse_def plane_ok_def surfaced_def)
  obtain u where u: "w_log w' = w_log ?w @ u" "w_intendant w' = w_intendant ?w
     \<or> (\<exists>v d dec. judged D ?req = Inr v \<and> u = gate_log ?req v d \<and> (dec = HookAllow \<longrightarrow> permitted v d)
          \<and> w_intendant w' = (w_intendant ?w)\<lparr>li_process := live_respond (te_id te) dec (li_process (w_intendant ?w))\<rparr>)"
    using gate_hook [OF g] by (auto simp: surfaced_def)
  have old: "\<And>i. (i, HookAllow) \<in> set (lp_answered ?p) \<Longrightarrow>
      \<exists>te \<in> set (lp_events ?p). te_id te = i \<and> let_through D (surfaced sid te) (w_log ?w @ u)"
    using ok let_through_grows unfolding plane_ok_def by blast
  from u(2) have "plane_ok D t sid (P\<lparr>pl_world := w'\<rparr>)"
  proof
    assume "w_intendant w' = w_intendant ?w"
    then show ?thesis using ok old u(1) by (simp add: plane_ok_def plane_process_def sockets_of_def)
  next
    assume "\<exists>v d dec. judged D ?req = Inr v \<and> u = gate_log ?req v d \<and> (dec = HookAllow \<longrightarrow> permitted v d)
          \<and> w_intendant w' = (w_intendant ?w)\<lparr>li_process := live_respond (te_id te) dec (li_process (w_intendant ?w))\<rparr>"
    then obtain v d dec where v: "judged D ?req = Inr v" "u = gate_log ?req v d" "dec = HookAllow \<longrightarrow> permitted v d"
      and w': "w_intendant w' = (w_intendant ?w)\<lparr>li_process := live_respond (te_id te) dec ?p\<rparr>"
      unfolding plane_process_def by blast
    let ?q = "live_respond (te_id te) dec ?p"
    have new: "\<exists>te \<in> set (lp_events ?q). te_id te = i \<and> let_through D (surfaced sid te) (w_log w')"
      if "(i, HookAllow) \<in> set (lp_answered ?q)" for i
    proof -
      have e: "lp_events ?q = lp_events ?p" by (simp add: live_respond_def)
      have "let_through D ?req (w_log w')" if "dec = HookAllow"
        unfolding let_through_def u(1) v(2) using v that by (intro exI [of _ v] exI [of _ d] exI [of _ "w_log ?w"] exI [of _ "[]"]) simp
      then show ?thesis using respond_allows [OF that] te old unfolding e u(1) by blast
    qed
    have "\<forall>(c, l) \<in> set (pl_hooks P). link_ok ?q c l"
      using ok link_goes_on [OF _ goes_on_respond] by (auto simp: plane_ok_def)
    then show ?thesis
      using ok new w' respond_process_ok by (simp add: plane_ok_def plane_process_def sockets_of_def)
  qed
  then show ?thesis using j by simp
qed

lemma start_ok: "plane_ok D t sid (plane_start sid w)"
  by (simp add: plane_ok_def plane_start_def plane_process_def process_ok_def fresh_process_def server_start_def server_ok_def
      sockets_in_def routed_def buffered_def answering_def sockets_of_def)

lemma link_client_gets:
  "link_ok p c l \<Longrightarrow> bridge_event e \<Longrightarrow> received_text [e] = [] \<Longrightarrow> link_ok p c (client_gets e l)"
  by (auto simp: link_ok_def client_gets_def received_text_append)

lemma link_client_received:
  assumes "link_ok p c l"
  shows "link_ok p c (client_gets (Received (take n (drop (hl_got l) (hl_down l))))
    (l\<lparr>hl_got := hl_got l + length (take n (drop (hl_got l) (hl_down l)))\<rparr>))"
proof -
  have "take (hl_got l) (hl_down l) @ take n (drop (hl_got l) (hl_down l))
      = take (hl_got l + length (take n (drop (hl_got l) (hl_down l)))) (hl_down l)"
    by (simp add: take_add) (simp add: min_def)
  then show ?thesis using assms by (auto simp: link_ok_def client_gets_def received_text_append)
qed

lemma move_ok:
  assumes ok: "plane_ok D t sid P"
  shows "plane_ok D t sid (plane_move D S t e P)"
proof (cases e)
  case (HookStarts c stdin)
  then show ?thesis
    using ok connected_moved_ok [OF ok, of c "pl_hooks P @ [(c, new_link stdin)]" "pl_peers P" stdin] by (auto simp: plane_eta)
next
  case (ToServer c n)
  show ?thesis
  proof (cases "map_of (pl_hooks P) c")
    case (Some l)
    have c: "c \<in> sockets_of P" using Some unfolding sockets_of_def by (metis UnI1 domI dom_map_of_conv_image_fst)
    have "\<exists>y. take (hl_up l) xs @ take n (drop (hl_up l) xs) @ y = xs" for xs :: string
      by (rule exI [of _ "drop n (drop (hl_up l) xs)"]) (metis append_take_drop_id)
    then have "plane_ok D t sid (on_live (live_socket (Data c (take n (drop (hl_up l) (hook_sends t (hl_stdin l))))))
      (P\<lparr>pl_hooks := relink (\<lambda>d k. if d = c then k\<lparr>hl_up := hl_up k + length (take n (drop (hl_up l) (hook_sends t (hl_stdin l))))\<rparr> else k)
         (pl_hooks P), pl_peers := pl_peers P\<rparr>))"
      by (intro data_moved_ok [OF ok _ c]) (auto simp: read_of_def up_of_def Some)
    then show ?thesis using ToServer Some by (simp add: with_link_def plane_eta Let_def)
  qed (use ok ToServer in simp)
next
  case (ToHook c n)
  show ?thesis
    unfolding ToHook plane_move.simps with_link_def
    by (rule relinked_ok [OF ok]) (auto simp: Let_def client_gets_def intro!: link_client_received [unfolded client_gets_def, simplified])
next
  case (HookTimes c)
  show ?thesis
    unfolding HookTimes plane_move.simps with_link_def
    by (rule relinked_ok [OF ok]) (auto simp: client_gets_def intro!: link_client_gets [unfolded client_gets_def] split: option.split)
next
  case (HookLoses c)
  have "plane_ok D t sid (with_link c (client_gets LinkClosed) P)"
    unfolding with_link_def
    by (rule relinked_ok [OF ok]) (auto simp: client_gets_def intro!: link_client_gets [unfolded client_gets_def])
  from dropped_moved_ok [OF this] show ?thesis using HookLoses ok by simp
next
  case (PeerConnects c)
  then show ?thesis using ok connected_moved_ok [OF ok, of c "pl_hooks P" "c # pl_peers P"] by auto
next
  case (PeerSends c chunk)
  show ?thesis
  proof (cases "c \<in> set (pl_peers P)")
    case True
    then have none: "map_of (pl_hooks P) c = None" using ok by (auto simp: plane_ok_def map_of_eq_None_iff)
    then have "relink (\<lambda>d l. if d = c then l\<lparr>hl_up := hl_up l + length chunk\<rparr> else l) (pl_hooks P) = pl_hooks P"
      unfolding relink_def by (intro map_idI) (force simp: map_of_eq_None_iff)
    then show ?thesis
      using PeerSends True none data_moved_ok [OF ok, of c chunk] by (simp add: read_of_def sockets_of_def)
  qed (use ok PeerSends in simp)
qed (use ok dropped_moved_ok [OF ok] gate_moved_ok [OF ok] stopped_moved_ok [OF ok] in \<open>simp_all\<close>)

lemma run_ok: "plane_ok D t sid (plane_run D S t sid w es)"
proof -
  have "plane_ok D t sid P \<Longrightarrow> plane_ok D t sid (fold (plane_step D S t) es P)" for P
    by (induction es arbitrary: P) (simp_all add: plane_step_def carry_ok move_ok)
  then show ?thesis unfolding plane_run_def using start_ok by blast
qed

section \<open>From the hook to the record\<close>

text \<open>
  C4: a hook that lets its tool run has a permission on record. Whatever connects to the socket, however
  the bytes of requests and answers are cut, delayed or lost, and in whatever order calls are gated
  and the session stops: when a bridge exits with zero, the daemon's policy was asked for exactly the
  tool and the arguments the bridge read, it allowed them or a human approved them, and the whole
  protocol of that permission stands in the daemon's log.
\<close>

theorem hook_allowed_on_record:
  assumes "P = plane_run D S t sid w es" "(c, l) \<in> set (pl_hooks P)"
    and "runBridge (hl_stdin l) None t (hl_events l) = Some r" "br_exitCode r = 0"
  shows "\<exists>ev args req v d pre post. parseHookEvent (hl_stdin l) = Some ev \<and> he_toolInput ev = JObj args
    \<and> req = \<lparr>tcr_id = he_toolUseId ev, tcr_sessionId = sid, tcr_tool = he_toolName ev, tcr_args = args, tcr_actor = claude_process\<rparr>
    \<and> evaluate (dd_policy D) \<lparr>tc_tool = he_toolName ev, tc_actor = claude_process\<rparr> = Inr v
    \<and> permitted v d \<and> w_log (pl_world P) = pre @ gate_log req v d @ post"
proof -
  let ?p = "plane_process P"
  have ok: "plane_ok D t sid P" unfolding assms(1) by (rule run_ok)
  obtain ev where ev: "parseHookEvent (hl_stdin l) = Some ev" "bridgeHookEvent ev None t (hl_events l) = Some r"
    using assms(3,4) by (auto simp: runBridge_def bridge_deny_def split: option.splits)
  then obtain req m where m: "hook_request ev = Inr req" "(0, Resolved m) \<in> set (gc_settled (bridge_client req t (hl_events l)))"
      "r = bridge_answer m"
    using assms(4) by (auto simp: bridgeHookEvent_def bridge_deny_def bridge_error_def dest: map_of_SomeD split: option.splits sum.splits outcome.splits)
  obtain i s v where v: "m = VerdictMessage i s v" "pv_decision v = allow" using m(3) assms(4) by (auto simp: bridge_answer_allow)
  obtain ms where ms: "hl_down l = concat (map frame_of ms)"
      "\<forall>m \<in> set ms. answer_ok (set (lp_answered ?p)) (set (lp_events ?p)) (hl_stdin l) m"
    and ps: "prefix (received_text (hl_events l)) (hl_down l)" "\<forall>e \<in> set (hl_events l). bridge_event e"
    using ok assms(2) by (auto simp: plane_ok_def link_ok_def take_is_prefix)
  have "m \<in> set ms"
    using bridge_reads [OF ps(1) [unfolded ms(1)] _ ps(2), of req t] ms(2) m(2) by (auto simp: answer_ok_def)
  then have a: "link_request (hl_stdin l) = Some req" "tcr_id req = i" "event_of req \<in> set (lp_events ?p)" "(i, HookAllow) \<in> set (lp_answered ?p)"
    using ms(2) v ev(1) m(1) by (fastforce simp: answer_ok_def link_request_def)+
  obtain te where te: "te \<in> set (lp_events ?p)" "te_id te = i" "let_through D (surfaced sid te) (w_log (pl_world P))"
    using ok a(4) unfolding plane_ok_def by blast
  have d: "distinct (map te_id (lp_events ?p))"
    using ok by (auto simp: plane_ok_def process_ok_def server_ok_def event_of_def comp_def)
  have "te = event_of req"
    using d te(1,2) a(2,3) by (auto simp: distinct_map inj_on_def event_of_def)
  then have "let_through D (surfaced sid (event_of req)) (w_log (pl_world P))" using te(3) by simp
  moreover obtain args where "he_toolInput ev = JObj args"
      "req = \<lparr>tcr_id = he_toolUseId ev, tcr_sessionId = he_sessionId ev, tcr_tool = he_toolName ev, tcr_args = args, tcr_actor = claude_process\<rparr>"
    using m(1) by (auto simp: hook_request_def split: json.splits)
  ultimately show ?thesis
    using ev(1) by (auto simp: let_through_def surfaced_def event_of_def judged_def)
qed

section \<open>A call that is served\<close>

definition asked :: "nat \<Rightarrow> string \<Rightarrow> tool_call_request \<Rightarrow> live_process" where
  "asked c sid req = fresh_process\<lparr>lp_handler := True, lp_sessionId := sid, lp_listening := True,
     lp_pending := [tcr_id req], lp_events := [event_of req],
     lp_server := \<lparr>gs_conns = [(c, fresh_connection)], gs_processed = [tcr_id req], gs_flight = [(c, req)], gs_handled = [req]\<rparr>\<rparr>"

definition hook_asks :: "nat \<Rightarrow> nat \<Rightarrow> string \<Rightarrow> plane_event list" where
  "hook_asks t c stdin = [HookStarts c stdin, ToServer c (length (hook_sends t stdin))]"

lemma asked_by:
  assumes "link_request stdin = Some req"
  shows "plane_run D S t sid w (hook_asks t c stdin) =
    \<lparr>pl_world = (pl_world (plane_start sid w))\<lparr>w_intendant := \<lparr>li_process = asked c sid req, li_handler = True, li_sessionId = sid\<rparr>\<rparr>,
     pl_hooks = [(c, (new_link stdin)\<lparr>hl_up := length (hook_sends t stdin)\<rparr>)], pl_peers = []\<rparr>"
proof -
  have f: "hook_sends t stdin = frame_of (ToolCallRequest req)" using assms hook_sends_frame [of t stdin] by simp
  have p: "push (frame_of (ToolCallRequest req)) [] = (Inr [ToolCallRequest req], [])"
    by (rule push_frame [OF link_request_ok(1) [OF assms]])
  show ?thesis
    by (simp add: plane_run_def hook_asks_def plane_step_def plane_start_def unused_def carry_def relink_def carry_link_def server_wrote_def
        on_live_def plane_process_def with_link_def new_link_def live_socket_def fresh_process_def server_start_def fresh_connection_def
        server_data_def server_dispatch_def on_connection_def live_handle_def asked_def event_of_def f p Let_def)
qed

lemma asked_answered:
  assumes "message_ok (toVerdict (asked c sid req) (tcr_id req) d)"
  shows "map_of (gs_conns (lp_server (live_respond (tcr_id req) d (asked c sid req)))) c
    = Some (fresh_connection\<lparr>cn_written := [frame_of (toVerdict (asked c sid req) (tcr_id req) d)]\<rparr>)"
proof -
  have "tcr_id req \<in> set (lp_pending (asked c sid req))" "call_socket (asked c sid req) (tcr_id req) = c"
    "call_connection (asked c sid req) (tcr_id req) = Some fresh_connection" "\<not> cn_ended fresh_connection"
    by (simp_all add: asked_def call_connection_def call_socket_def fresh_connection_def)
  from respond_writes [OF this(1,3,4) assms] this(2) show ?thesis by (simp add: fresh_connection_def)
qed

lemma bridge_served:
  assumes "parseHookEvent stdin = Some ev" "hook_request ev = Inr req" "message_ok m" "message_id m = tcr_id req"
  shows "runBridge stdin None t [Received (frame_of m)] = Some (bridge_answer m)"
proof -
  have "message_ok (ToolCallRequest req)" using link_request_ok(1) [of stdin req] assms(1,2) by (simp add: link_request_def)
  then show ?thesis
    using assms
    by (simp add: runBridge_def bridgeHookEvent_def bridge_client_def client_run_def
      client_start_def client_request_def Let_def encode_ok client_data_def push_frame)
      (simp add: client_message_def settle_def)
qed

lemma served_call:
  assumes "parseHookEvent stdin = Some ev" "hook_request ev = Inr req" "sid \<noteq> []"
    and "gate D (ClaudeCodeIntendant (BunClaudeProcess S)) (surfaced sid (event_of req)) (pl_world (plane_run D S t sid w (hook_asks t c stdin))) = (Inr out, w')"
  shows "\<exists>n l r. pl_hooks (plane_run D S t sid w (hook_asks t c stdin @ [GateJudges (event_of req), ToHook c n])) = [(c, l)]
    \<and> hl_stdin l = stdin \<and> runBridge stdin None t (hl_events l) = Some r \<and> (br_exitCode r = 0 \<longleftrightarrow> allowed_by out)"
proof -
  let ?P = "plane_run D S t sid w (hook_asks t c stdin)"
  have lr: "link_request stdin = Some req" using assms(1,2) by (simp add: link_request_def)
  note P = asked_by [OF lr, of D S t sid w c]
  obtain e where e: "e = allow \<longleftrightarrow> allowed_by out" "e = allow \<or> e = deny" "verdict_ok (effective_verdict (mo_verdict out) e)"
    and d: "ia_deliver (ClaudeCodeIntendant (BunClaudeProcess S)) (VerdictMessage (tcr_id req) sid (effective_verdict (mo_verdict out) e))
        (w_intendant (pl_world ?P)) = (Inr (), w_intendant w')"
    using gate_delivers [OF assms(4)] by (auto simp: allowed_by_def surfaced_def event_of_def)
  define dec where "dec = (if e = deny then HookDeny (pv_reason (effective_verdict (mo_verdict out) e)) else HookAllow)"
  let ?m = "toVerdict (asked c sid req) (tcr_id req) dec"
  have dec: "pv_decision (effective_verdict v e) = e" for v by (simp add: effective_verdict_def)
  have w': "li_process (w_intendant w') = live_respond (tcr_id req) dec (asked c sid req)"
    using deliver_live_whole [OF d] by (simp add: P dec dec_def)
  have id: "tcr_id req \<noteq> []" using link_request_ok(1) [OF lr] by simp
  have sess: "lp_sessionId (asked c sid req) = sid" by (simp add: asked_def)
  have m: "message_ok ?m" using id assms(3) e(2,3) sess by (auto simp: toVerdict_def dec_def verdict_ok_def)
  have te: "event_of req \<in> set (lp_events (plane_process ?P))" by (simp add: P plane_process_def asked_def)
  have j: "gate_judges D S (event_of req) (pl_world ?P) = w'"
    using assms(4) by (simp add: gate_judges_def claude_onPreToolUse_def P surfaced_def)
  have g: "plane_run D S t sid w (hook_asks t c stdin @ [GateJudges (event_of req)]) = carry (?P\<lparr>pl_world := w'\<rparr>)"
    using te by (simp add: plane_run_def plane_step_def j [unfolded plane_run_def])
  have sw: "server_wrote (li_process (w_intendant w')) c = Some (frame_of ?m)"
    using asked_answered [OF m] by (simp add: w' server_wrote_def)
  define l0 where "l0 = (new_link stdin)\<lparr>hl_up := length (hook_sends t stdin), hl_down := frame_of ?m\<rparr>"
  have h: "pl_hooks (plane_run D S t sid w (hook_asks t c stdin @ [GateJudges (event_of req)])) = [(c, l0)]"
    "plane_process (plane_run D S t sid w (hook_asks t c stdin @ [GateJudges (event_of req)])) = li_process (w_intendant w')"
    unfolding g by (simp_all add: carry_def relink_def carry_link_def plane_process_def sw P l0_def)
  define l where "l = client_gets (Received (frame_of ?m)) (l0\<lparr>hl_got := length (frame_of ?m)\<rparr>)"
  have "plane_run D S t sid w (hook_asks t c stdin @ [GateJudges (event_of req), ToHook c n])
      = plane_step D S t (ToHook c n) (plane_run D S t sid w (hook_asks t c stdin @ [GateJudges (event_of req)]))" for n
    by (simp add: plane_run_def)
  then have "pl_hooks (plane_run D S t sid w (hook_asks t c stdin @ [GateJudges (event_of req), ToHook c (length (frame_of ?m))])) = [(c, l)]"
    using h sw by (simp add: plane_step_def carry_def relink_def with_link_def carry_link_def plane_process_def l0_def new_link_def l_def
        client_gets_def Let_def)
  moreover have "hl_stdin l = stdin" "hl_events l = [Received (frame_of ?m)]" by (simp_all add: l_def client_gets_def l0_def new_link_def)
  moreover have "runBridge stdin None t [Received (frame_of ?m)] = Some (bridge_answer ?m)"
    by (rule bridge_served [OF assms(1,2) m]) (simp add: toVerdict_def)
  moreover have "br_exitCode (bridge_answer ?m) = 0 \<longleftrightarrow> allowed_by out"
    using e(1,2) by (auto simp: bridge_answer_allow toVerdict_def dec_def)
  ultimately show ?thesis
    by (intro exI [of _ "length (frame_of ?m)"] exI [of _ l] exI [of _ "bridge_answer ?m"]) simp
qed


section \<open>Witnesses\<close>

definition demo_hook :: string where
  "demo_hook = json_stringify (JObj [(''hook_event_name'', JStr ''PreToolUse''), (''session_id'', JStr ''s1''),
     (''tool_name'', JStr ''Read''), (''tool_use_id'', JStr ''c1''), (''tool_input'', JObj [(''command'', JStr ''ls'')])])"

definition demo_hook_event :: hook_event where
  "demo_hook_event = \<lparr>he_sessionId = ''s1'', he_toolName = ''Read'', he_toolInput = JObj [(''command'', JStr ''ls'')], he_toolUseId = ''c1''\<rparr>"

lemma demo_hook_reads: "parseHookEvent demo_hook = Some demo_hook_event" "hook_request demo_hook_event = Inr demo_call"
  by (simp_all add: parseHookEvent_def demo_hook_def json_parse_stringify string_member_def demo_hook_event_def hook_request_def demo_call_def)

lemma demo_hook_gated:
  "\<exists>out w'. gate demo (ClaudeCodeIntendant (BunClaudeProcess host_options)) (surfaced ''s1'' (event_of demo_call))
     (pl_world (plane_run demo host_options 5 ''s1'' demo_start (hook_asks 5 0 demo_hook))) = (Inr out, w') \<and> allowed_by out"
proof -
  let ?w = "pl_world (plane_run demo host_options 5 ''s1'' demo_start (hook_asks 5 0 demo_hook))"
  have lr: "link_request demo_hook = Some demo_call" by (simp add: link_request_def demo_hook_reads)
  have s: "surfaced ''s1'' (event_of demo_call) = demo_call" by (simp add: surfaced_def event_of_def demo_call_def)
  have "journal_usable demo ?w"
    using demo_journal by (simp add: journal_usable_def asked_by [OF lr] plane_start_def)
  then obtain out w' where g: "gate demo (ClaudeCodeIntendant (BunClaudeProcess host_options)) demo_call ?w = (Inr out, w')"
    using gate_settles [OF live_answers demo_judged] unfolding succeeds_def by blast
  have "allowed_by out" using gate_runs [OF g] by (auto simp: demo_judged allowed_by_def)
  then show ?thesis using g s by auto
qed

lemma demo_hook_served:
  "\<exists>n l r. pl_hooks (plane_run demo host_options 5 ''s1'' demo_start (hook_asks 5 0 demo_hook @ [GateJudges (event_of demo_call), ToHook 0 n])) = [(0, l)]
    \<and> hl_stdin l = demo_hook \<and> runBridge demo_hook None 5 (hl_events l) = Some r \<and> br_exitCode r = 0"
  using demo_hook_gated served_call [OF demo_hook_reads, of "''s1''" demo host_options 5 demo_start 0] by fastforce


lemma hook_allowed_on_record_witness:
  "\<exists>n v d pre post. permitted v d \<and> w_log (pl_world (plane_run demo host_options 5 ''s1'' demo_start
      (hook_asks 5 0 demo_hook @ [GateJudges (event_of demo_call), ToHook 0 n]))) = pre @ gate_log demo_call v d @ post"
proof -
  obtain n l r where r: "pl_hooks (plane_run demo host_options 5 ''s1'' demo_start (hook_asks 5 0 demo_hook @ [GateJudges (event_of demo_call), ToHook 0 n])) = [(0, l)]"
    "hl_stdin l = demo_hook" "runBridge demo_hook None 5 (hl_events l) = Some r" "br_exitCode r = 0"
    using demo_hook_served by blast
  have "(0, l) \<in> set (pl_hooks (plane_run demo host_options 5 ''s1'' demo_start (hook_asks 5 0 demo_hook @ [GateJudges (event_of demo_call), ToHook 0 n])))"
    unfolding r(1) by simp
  from hook_allowed_on_record [OF refl this, unfolded r(2), OF r(3,4)] show ?thesis
    by (auto simp: demo_hook_reads demo_hook_event_def demo_call_def) blast
qed

end
