(* ===== verification/JournalFaults.thy ===== *)
theory JournalFaults
  imports Journal
begin

text \<open>
  What the journal (\<open>journal/journal.ts\<close>) is worth when something goes wrong around it: an append that is cut
  off at any byte by the death of its process, and a log whose tail was removed by somebody who cannot sign.
  The reader, the append and the verifier are those of theory \<open>Journal\<close>.
\<close>

section \<open>A text that is cut short does not parse\<close>

lemma skip_ws_ext: "skip_ws s = c # r \<Longrightarrow> skip_ws (s @ y) = c # r @ y"
  unfolding skip_ws_def by (metis append_Cons append_eq_append_conv2 dropWhile_append dropWhile_eq_Nil_conv list.distinct(1) self_append_conv)

lemma p_str_ext: "p_str s = Some (x, t) \<Longrightarrow> p_str (s @ y) = Some (x, t @ y)"
proof (induction s arbitrary: x t rule: p_str.induct)
  case (2 c r)
  consider (quote) "c = quote_c" | (escape) "c \<noteq> quote_c" "c = backslash_c" | (plain) "c \<noteq> quote_c" "c \<noteq> backslash_c" by blast
  then show ?case
  proof cases
    case quote
    then show ?thesis using "2.prems" by simp
  next
    case plain
    then show ?thesis using 2 by (auto split: if_splits)
  next
    case escape
    then obtain e r' where r: "r = e # r'" using "2.prems" by (auto split: list.splits)
    show ?thesis
    proof (cases "e = CHR ''u''")
      case True
      then obtain h1 h2 h3 h4 u where u: "r' = h1 # h2 # h3 # h4 # u" using "2.prems" escape r by (auto split: list.splits)
      then obtain n where n: "hex4 h1 h2 h3 h4 = Some n" using "2.prems" escape r True by (auto split: option.splits)
      show ?thesis using "2.prems" "2.IH"(1) escape r True u n by auto
    next
      case False
      then obtain d where d: "unescape e = Some d" using "2.prems" escape r by (auto split: option.splits)
      show ?thesis using "2.prems" "2.IH"(2) escape r False d by auto
    qed
  qed
qed simp

lemma strip_prefix_ext: "strip_prefix p s = Some t \<Longrightarrow> strip_prefix p (s @ y) = Some (t @ y)"
  by (auto simp: strip_prefix_def prefix_def split: if_splits)

lemma p_num_ext: "p_num s = Some (v, t) \<Longrightarrow> t \<noteq> [] \<Longrightarrow> p_num (s @ y) = Some (v, t @ y)"
proof -
  assume a: "p_num s = Some (v, t)" "t \<noteq> []"
  have d: "takeWhile is_digit (u @ y) = takeWhile is_digit u \<and> dropWhile is_digit (u @ y) = dropWhile is_digit u @ y"
    if "dropWhile is_digit u \<noteq> []" for u
    using that by (induction u) auto
  show ?thesis using a d [of s] d [of "tl s"] by (cases s) (auto simp: p_num_def Let_def split: if_splits)
qed

lemma p_num_is: "p_num s = Some (v, t) \<Longrightarrow> \<exists>n. v = JNum n"
  by (auto simp: p_num_def Let_def split: if_splits)

text \<open>A value that is not a number, or is followed by something, is read the same way from a longer text.\<close>

lemma p_ext:
  "(\<forall>s v t. p_val f s = Some (v, t) \<longrightarrow> t \<noteq> [] \<or> (\<forall>n. v \<noteq> JNum n) \<longrightarrow> p_val f (s @ y) = Some (v, t @ y))
   \<and> (\<forall>s vs t. p_elems f s = Some (vs, t) \<longrightarrow> p_elems f (s @ y) = Some (vs, t @ y))
   \<and> (\<forall>s kvs t. p_members f s = Some (kvs, t) \<longrightarrow> p_members f (s @ y) = Some (kvs, t @ y))"
proof (induction f)
  case 0
  show ?case by simp
next
  case (Suc f)
  have val: "p_val (Suc f) (s @ y) = Some (v, t @ y)"
    if a: "p_val (Suc f) s = Some (v, t)" "t \<noteq> [] \<or> (\<forall>n. v \<noteq> JNum n)" for s v t
  proof (cases "skip_ws s")
    case (Cons c r)
    have e: "skip_ws (s @ y) = c # r @ y" by (rule skip_ws_ext [OF Cons])
    have n: "p_num (c # r) = Some (v, t) \<Longrightarrow> p_num (c # r @ y) = Some (v, t @ y)"
      using a(2) p_num_ext [of "c # r" v t y] p_num_is [of "c # r" v t] by auto
    have el: "\<And>vs t. p_elems f r = Some (vs, t) \<Longrightarrow> p_elems f (r @ y) = Some (vs, t @ y)"
      and me: "\<And>kvs t. p_members f r = Some (kvs, t) \<Longrightarrow> p_members f (r @ y) = Some (kvs, t @ y)" using Suc.IH by blast+
    consider (str) "c = quote_c" | (arr) "c = CHR ''[''" | (obj) "c = CHR ''{''" | (other) "c \<noteq> quote_c" "c \<noteq> CHR ''[''" "c \<noteq> CHR ''{''" by blast
    then show ?thesis
    proof cases
      case str
      then obtain x where x: "p_str r = Some (x, t)" "v = JStr x" using a(1) Cons by auto
      show ?thesis using str e x(2) p_str_ext [OF x(1), of y] by simp
    next
      case arr
      then obtain d r' where d: "skip_ws r = d # r'" using a(1) Cons by (auto split: list.splits)
      show ?thesis using a(1) arr Cons e d skip_ws_ext [OF d, of y] el by (cases "d = CHR '']''") auto
    next
      case obj
      then obtain d r' where d: "skip_ws r = d # r'" using a(1) Cons by (auto split: list.splits)
      show ?thesis using a(1) obj Cons e d skip_ws_ext [OF d, of y] me by (cases "d = CHR ''}''") auto
    next
      case other
      have l: "strip_prefix p (c # r) = Some t' \<Longrightarrow> strip_prefix p (c # r @ y) = Some (t' @ y)" for p t'
        using strip_prefix_ext [of p "c # r" t' y] by simp
      show ?thesis using a(1) other Cons e l n by (simp split: if_splits)
    qed
  qed (use a in simp)
  have elems: "p_elems (Suc f) (s @ y) = Some (vs, t @ y)" if a: "p_elems (Suc f) s = Some (vs, t)" for s vs t
  proof -
    obtain v u d u' where p: "p_val f s = Some (v, u)" "skip_ws u = d # u'" using a by (auto split: option.splits list.splits)
    then have "u \<noteq> []" by (auto simp: skip_ws_def)
    then have "p_val f (s @ y) = Some (v, u @ y)" "skip_ws (u @ y) = d # u' @ y" using p Suc.IH skip_ws_ext by blast+
    then show ?thesis using a p Suc.IH by (auto split: if_splits simp del: p_val.simps)
  qed
  have members: "p_members (Suc f) (s @ y) = Some (kvs, t @ y)" if a: "p_members (Suc f) s = Some (kvs, t)" for s kvs t
  proof -
    obtain r k u u' v w e w' where p: "skip_ws s = quote_c # r" "p_str r = Some (k, u)" "skip_ws u = CHR '':'' # u'"
        "p_val f u' = Some (v, w)" "skip_ws w = e # w'"
      using a by (auto split: option.splits list.splits if_splits)
    then have "w \<noteq> []" by (auto simp: skip_ws_def)
    then have "skip_ws (s @ y) = quote_c # r @ y" "p_str (r @ y) = Some (k, u @ y)" "skip_ws (u @ y) = CHR '':'' # u' @ y"
        "p_val f (u' @ y) = Some (v, w @ y)" "skip_ws (w @ y) = e # w' @ y"
      using p Suc.IH skip_ws_ext p_str_ext by blast+
    then show ?thesis using a p Suc.IH by (auto split: if_splits simp del: p_val.simps)
  qed
  show ?case using val elems members by blast
qed

lemma p_val_obj: "p_val f (CHR ''{'' # s) = Some (v, t) \<Longrightarrow> \<exists>kvs. v = JObj kvs"
  by (cases f) (auto simp: skip_ws_def is_json_ws_def split: list.splits if_splits)

text \<open>Two texts of objects, one in front of the other, are the same up to blanks.\<close>

lemma json_parse_ext:
  assumes "json_parse (CHR ''{'' # s) = Some v" "json_parse (CHR ''{'' # s @ y) = Some w"
  shows "skip_ws y = []"
proof -
  let ?x = "CHR ''{'' # s"
  obtain r where r: "p_val (2 * length ?x + 2) ?x = Some (v, r)" "skip_ws r = []"
    using assms(1) unfolding json_parse_def by (auto simp del: p_val.simps split: option.splits prod.splits if_splits)
  have "p_val (2 * length (?x @ y) + 2) ?x = Some (v, r)"
    using r(1) p_val_fuel [of ?x "2 * length (?x @ y) + 2"] by (simp del: p_val.simps)
  moreover have "\<forall>n. v \<noteq> JNum n" using p_val_obj r(1) by fastforce
  ultimately have "p_val (2 * length (?x @ y) + 2) (?x @ y) = Some (v, r @ y)" using p_ext by blast
  then have "skip_ws (r @ y) = []" using assms(2) unfolding json_parse_def by (auto simp del: p_val.simps split: if_splits)
  then show ?thesis by (simp add: skip_ws_def dropWhile_eq_Nil_conv)
qed

section \<open>Logs cut at a line and elsewhere\<close>

lemma nonblank_lines_glue:
  assumes "lines_closed c"
  shows "nonblank_lines (c @ d) = nonblank_lines c @ nonblank_lines d"
proof (cases "c = []")
  case False
  then obtain t where t: "c = t @ [newline]" using assms by (metis append_butlast_last_id lines_closed_def)
  have "nonblank_lines (t @ newline # u) = nonblank_lines t @ nonblank_lines u" for u
    unfolding nonblank_lines_def by (subst str_split_append_char) simp
  from this [of d] this [of "[]"] show ?thesis by (simp add: t)
qed simp

lemma nonblank_lines_one: "newline \<notin> set l \<Longrightarrow> str_trim l \<noteq> [] \<Longrightarrow> nonblank_lines l = [l]"
  by (simp add: nonblank_lines_def str_split_char_none)

lemma read_lines_append:
  "read_lines L (ls @ ms) = res_bind (read_lines L ls) (\<lambda>es. res_bind (read_lines L ms) (\<lambda>fs. Inr (es @ fs)))"
proof (induction ls)
  case Nil
  show ?case by (cases "read_lines L ms") simp_all
next
  case (Cons l ls)
  then show ?case by (cases "read_lines L ls"; cases "read_lines L ms") (simp_all split: option.split)
qed

text \<open>A line of the log is the text of an object and is read back only whole.\<close>

abbreviation line_of :: "journal_event \<Rightarrow> string" where
  "line_of e \<equiv> json_stringify (event_json e)"

lemma event_line: "\<exists>t. line_of e = CHR ''{'' # t @ [CHR ''}'']"
  by (simp add: json_stringify_def event_json_def)

lemma torn_line:
  assumes "event_ok L e" "payload_ok (ev_payload e)" "0 < k" "k < length (line_of e)"
  shows "json_parse (take k (line_of e)) = None"
proof (rule ccontr)
  assume "json_parse (take k (line_of e)) \<noteq> None"
  then obtain v where v: "json_parse (take k (line_of e)) = Some v" by blast
  obtain t where t: "line_of e = CHR ''{'' # t @ [CHR ''}'']" using event_line by blast
  obtain x where x: "take k (line_of e) = CHR ''{'' # x" using t assms(3) by (cases k) auto
  have split: "line_of e = CHR ''{'' # x @ drop k (line_of e)" using x append_take_drop_id [of k "line_of e"] by simp
  have w: "json_parse (CHR ''{'' # x @ drop k (line_of e)) = Some (event_json e)"
    unfolding split [symmetric] by (rule last_line(1) [OF assms(1,2)])
  have "skip_ws (drop k (line_of e)) = []" by (rule json_parse_ext [OF v [unfolded x] w])
  moreover have "CHR ''}'' \<in> set (drop k (line_of e))"
    using assms(4) t last_drop [of k "line_of e"] last_in_set [of "drop k (line_of e)"] by simp
  ultimately show False by (auto simp: skip_ws_def dropWhile_eq_Nil_conv is_json_ws_def)
qed

section \<open>A journal without its head\<close>

text \<open>What the append asks of the log. It never reads the head.\<close>

definition log_good :: "('sk, 'pk) crypto_lib \<Rightarrow> 'sk \<Rightarrow> string option \<Rightarrow> journal_event list \<Rightarrow> bool" where
  "log_good L sk log evs \<longleftrightarrow> readEvents L log = Inr evs \<and> chain_ok L (publicKeyFromPrivate L sk) None 1 evs
     \<and> pred_option lines_closed log"

lemma log_good_journal: "journal_good L sk J evs \<Longrightarrow> log_good L sk (jf_log J) evs"
  by (simp add: journal_good_def log_good_def)

lemma append_seals:
  assumes "log_good L sk (jf_log J) evs" "crypto_ok L sk" "payload_ok (ai_payload i)"
    "journal_append L sk screen ts i J = (Inr e, J')"
  shows "journal_good L sk J' (evs @ [e])"
proof -
  note good = assms(1) [unfolded log_good_def]
  obtain evs' where evs': "readEvents L (jf_log J) = Inr evs'"
    "e = sealed_event L sk i ((if evs' = [] then 0 else ev_seq (last evs')) + 1) ts
       (if evs' = [] then None else Some (ev_hash (last evs')))"
    "event_ok L e"
    "J' = writeHead L sk (ev_seq e) (ev_hash e) (append_log (line_of e @ [newline]) J)"
    using assms(4) by (rule append_Inr)
  have same: "evs' = evs" using evs'(1) good by simp
  note e = evs'(2) [unfolded same]
  have seq: "ev_seq e = 1 + length evs"
    using chain_ok_seq [of L "publicKeyFromPrivate L sk" None 1 evs] good e by auto
  have chain: "chain_ok L (publicKeyFromPrivate L sk) None 1 (evs @ [e])"
    unfolding chain_ok_snoc using good seq sealed_event_sealed [OF assms(3,2)] e by auto
  have read: "readEvents L (jf_log J') = Inr (evs @ [e])"
    using readEvents_append [of L J evs e] good evs'(3,4) assms(3) e by simp
  have "pred_option lines_closed (jf_log J')"
    using evs'(4) by (simp add: append_log_def)
  then show ?thesis
    using chain read evs'(4)
    by (simp add: journal_good_def append_log_def head_pins_def writeHead_def)
qed

text \<open>A log whose last event is not the one the head pins is reported.\<close>

lemma stale_head_reported:
  assumes "crypto_ok L sk" "log_good L sk (Some c) evs" "head_pins L sk (jf_head J) evs'"
    "evs = [] \<or> ev_seq (last evs) \<noteq> ev_seq (last evs')" "jf_log J = Some c"
  shows "\<exists>r. verifyJournalFile L path J (publicKeyFromPrivate L sk) = Inr r \<and> \<not> vr_ok r \<and> vr_count r = length evs"
proof -
  have parse: "parse_lines L 0 (nonblank_lines c) = (evs, [])"
    using assms(2) by (simp add: log_good_def readEvents_def read_lines_parse [where i = 0])
  obtain h where h: "readHead (jf_head J) = Inr (Some h)" "head_signature_ok L h (publicKeyFromPrivate L sk)"
    "property h ''seq'' = Some (JNum (int (ev_seq (last evs'))))"
    using head_text_props [OF assms(1)] assms(3) by (metis head_pins_def)
  show ?thesis using parse h assms(4,5) by (auto simp: verifyJournalFile_def Let_def head_errors_def)
qed

section \<open>A tail that was removed\<close>

text \<open>The part of a log in front of a line break.\<close>

lemma kept_part:
  assumes "log_good L sk (Some (c @ d)) evs" "lines_closed c"
  shows "\<exists>evs1 evs2. evs = evs1 @ evs2 \<and> log_good L sk (Some c) evs1 \<and> (nonblank_lines d = [] \<longleftrightarrow> evs2 = [])"
proof -
  obtain evs1 evs2 where e: "read_lines L (nonblank_lines c) = Inr evs1" "read_lines L (nonblank_lines d) = Inr evs2" "evs = evs1 @ evs2"
    using assms by (auto simp: log_good_def readEvents_def nonblank_lines_glue read_lines_append result_simps)
  have chain: "chain_ok L pk p n (xs @ ys) \<Longrightarrow> chain_ok L pk p n xs" for pk p n xs ys by (induction xs arbitrary: p n) auto
  have "nonblank_lines d = [] \<longleftrightarrow> evs2 = []"
    using e(2) by (cases "nonblank_lines d") (auto split: option.splits simp: result_simps)
  then show ?thesis
    using e assms chain by (intro exI [of _ evs1] exI [of _ evs2]) (auto simp: log_good_def readEvents_def)
qed

text \<open>
  C11: the head shows a truncation only until the next append. When the tail of a journal is removed, the
  offline verifier reports it; but the append does not look at the head, so the next event that the
  plane itself records seals the shorter history, and the verifier accepts it from then on. The
  comment of the journal says that the signed head pins the expected tail.
\<close>

theorem truncation_sealed:
  assumes "crypto_ok L sk" "journal_good L sk J evs" "jf_log J = Some (c @ d)" "lines_closed c" "nonblank_lines d \<noteq> []"
    and "payload_ok (ai_payload i)" "journal_append L sk screen ts i (J\<lparr>jf_log := Some c\<rparr>) = (Inr e, J')"
  shows "(\<exists>r. verifyJournalFile L path (J\<lparr>jf_log := Some c\<rparr>) (publicKeyFromPrivate L sk) = Inr r \<and> \<not> vr_ok r)
    \<and> (\<exists>kept lost. evs = kept @ lost \<and> lost \<noteq> [] \<and> readEvents L (jf_log J') = Inr (kept @ [e])
        \<and> verifyJournalFile L path J' (publicKeyFromPrivate L sk) = Inr \<lparr>vr_ok = True, vr_count = length kept + 1, vr_errors = []\<rparr>)"
proof -
  have l: "log_good L sk (Some (c @ d)) evs" using log_good_journal [OF assms(2)] assms(3) by simp
  obtain kept lost where k: "evs = kept @ lost" "log_good L sk (Some c) kept" "lost \<noteq> []"
    using kept_part [OF l assms(4)] assms(5) by blast
  have n: "chain_ok L pk p n xs \<Longrightarrow> xs \<noteq> [] \<Longrightarrow> ev_seq (last xs) + 1 = n + length xs" for pk p n xs
    by (rule chain_ok_seq)
  have "kept = [] \<or> ev_seq (last kept) \<noteq> ev_seq (last evs)"
    using n [of "publicKeyFromPrivate L sk" None 1 kept] n [of "publicKeyFromPrivate L sk" None 1 evs] k l by (auto simp: log_good_def)
  moreover have "head_pins L sk (jf_head (J\<lparr>jf_log := Some c\<rparr>)) evs" using assms(2) k by (simp add: journal_good_def)
  ultimately have "\<exists>r. verifyJournalFile L path (J\<lparr>jf_log := Some c\<rparr>) (publicKeyFromPrivate L sk) = Inr r \<and> \<not> vr_ok r"
    using stale_head_reported [OF assms(1) k(2), of "J\<lparr>jf_log := Some c\<rparr>" evs path] by auto
  moreover have g: "journal_good L sk J' (kept @ [e])"
    using append_seals [of L sk "J\<lparr>jf_log := Some c\<rparr>" kept i screen ts e J'] k(2) assms(1,6,7) by simp
  ultimately show ?thesis
    using k journal_good_verifies [OF g assms(1)] g by (intro conjI exI [of _ kept] exI [of _ lost]) (auto simp: journal_good_def)
qed

section \<open>An append that is cut off\<close>

text \<open>The append writes the line of its event, then the head; \<open>k\<close> bytes of the line are written.\<close>

definition cut_off :: "nat \<Rightarrow> journal_event \<Rightarrow> journal_files \<Rightarrow> journal_files" where
  "cut_off k e J = append_log (take k (line_of e @ [newline])) J"

lemma object_not_blank: "str_trim (CHR ''{'' # s) \<noteq> []"
  by (auto simp: str_trim_Nil_iff is_ws_def)

lemma torn_log:
  assumes "lines_closed c" "event_ok L e" "payload_ok (ev_payload e)" "0 < k" "k < length (line_of e)"
  shows "\<exists>err. readEvents L (Some (c @ take k (line_of e))) = Inl err"
    "\<exists>m. snd (parse_lines L 0 (nonblank_lines (c @ take k (line_of e)))) \<noteq> []"
proof -
  obtain t where "line_of e = CHR ''{'' # t" using event_line by blast
  then obtain x where x: "take k (line_of e) = CHR ''{'' # x" using assms(4) by (cases k) auto
  have "newline \<notin> set (take k (line_of e))" using no_newline_stringify by (meson in_set_takeD)
  then have n: "nonblank_lines (c @ take k (line_of e)) = nonblank_lines c @ [take k (line_of e)]"
    using nonblank_lines_glue [OF assms(1)] nonblank_lines_one object_not_blank x by metis
  note torn = torn_line [OF assms(2-5)]
  show "\<exists>err. readEvents L (Some (c @ take k (line_of e))) = Inl err"
    unfolding readEvents_def option.case n read_lines_append
    by (cases "read_lines L (nonblank_lines c)") (simp_all add: torn)
  show "\<exists>m. snd (parse_lines L 0 (nonblank_lines (c @ take k (line_of e)))) \<noteq> []"
    unfolding n parse_lines_snoc by (simp add: torn)
qed

lemma glued_lines:
  assumes "lines_closed c" "event_ok L e" "payload_ok (ev_payload e)"
  shows "\<exists>err. readEvents L (Some (c @ line_of e @ line_of e' @ [newline])) = Inl err"
proof -
  obtain t t' where t: "line_of e = CHR ''{'' # t" "line_of e' = CHR ''{'' # t'" using event_line by blast
  have none: "json_parse (line_of e @ line_of e') = None"
  proof (rule ccontr)
    assume "json_parse (line_of e @ line_of e') \<noteq> None"
    then obtain w where "json_parse (CHR ''{'' # t @ line_of e') = Some w" using t(1) by auto
    from json_parse_ext [OF last_line(1) [OF assms(2,3), unfolded t(1)] this]
    show False by (simp add: t(2) skip_ws_def is_json_ws_def)
  qed
  have "newline \<notin> set (line_of e @ line_of e')" using no_newline_stringify by simp
  then have "nonblank_lines ([] @ (line_of e @ line_of e') @ [newline]) = nonblank_lines [] @ [line_of e @ line_of e']"
    using object_not_blank t(1) by (intro nonblank_lines_append) (simp_all add: lines_closed_def)
  then have n: "nonblank_lines (c @ line_of e @ line_of e' @ [newline]) = nonblank_lines c @ [line_of e @ line_of e']"
    using nonblank_lines_glue [OF assms(1)] by simp
  show ?thesis
    unfolding readEvents_def option.case n read_lines_append
    by (cases "read_lines L (nonblank_lines c)") (simp_all add: none)
qed

text \<open>What the offline verifier accepts.\<close>

definition verifies :: "('sk, 'pk) crypto_lib \<Rightarrow> 'pk \<Rightarrow> journal_files \<Rightarrow> bool" where
  "verifies L pk J \<longleftrightarrow> (\<exists>r. verifyJournalFile L [] J pk = Inr r \<and> vr_ok r)"

lemma torn_rejected:
  assumes "jf_log J = Some (c @ take k (line_of e))" "lines_closed c" "event_ok L e" "payload_ok (ev_payload e)" "0 < k" "k < length (line_of e)"
  shows "\<not> verifies L pk J"
  using torn_log(2) [OF assms(2-6)] assms(1) by (auto simp: verifies_def verifyJournalFile_def Let_def result_simps)

text \<open>
  C10: an append that is cut off never costs a recorded event and is never taken for a whole one. Cut
  inside its line, the log is rejected by the verifier, and from then on every append throws and
  changes nothing. Cut between the line and its line break, the log still reads and one more
  append succeeds, but writes behind the unfinished line, after which the log does not read again. Cut
  between the log and the head, the verifier rejects the journal until the next append, which seals both events.
\<close>

theorem append_cut_off:
  assumes "crypto_ok L sk" "journal_good L sk J evs" "evs \<noteq> []" "payload_ok (ai_payload i)"
    and "journal_append L sk screen ts i J = (Inr e, J')" "0 < k" "J1 = cut_off k e J"
  shows "if k < length (line_of e) then
      \<not> verifies L (publicKeyFromPrivate L sk) J1
      \<and> (\<forall>screen2 ts2 i2. \<exists>err. journal_append L sk screen2 ts2 i2 J1 = (Inl err, J1))
    else if k = length (line_of e) then
      readEvents L (jf_log J1) = Inr (evs @ [e]) \<and> \<not> verifies L (publicKeyFromPrivate L sk) J1
      \<and> (\<forall>screen2 ts2 i2 e2 J2. journal_append L sk screen2 ts2 i2 J1 = (Inr e2, J2) \<longrightarrow>
           (\<forall>screen3 ts3 i3. \<exists>err. journal_append L sk screen3 ts3 i3 J2 = (Inl err, J2)))
    else
      readEvents L (jf_log J1) = Inr (evs @ [e]) \<and> \<not> verifies L (publicKeyFromPrivate L sk) J1
      \<and> (\<forall>screen2 ts2 i2 e2 J2. payload_ok (ai_payload i2) \<longrightarrow> journal_append L sk screen2 ts2 i2 J1 = (Inr e2, J2) \<longrightarrow>
           readEvents L (jf_log J2) = Inr (evs @ [e, e2]) \<and> verifies L (publicKeyFromPrivate L sk) J2)"
proof -
  let ?pk = "publicKeyFromPrivate L sk"
  obtain c where c: "jf_log J = Some c" "lines_closed c" "read_lines L (nonblank_lines c) = Inr evs"
    using assms(2,3) by (auto simp: journal_good_def readEvents_def)
  have good': "journal_good L sk J' (evs @ [e])" by (rule append_good [OF assms(2,1,4,5)])
  obtain sq prev where "e = sealed_event L sk i sq ts prev" and ok: "event_ok L e" using assms(5) by (rule append_Inr)
  then have pay: "payload_ok (ev_payload e)" using assms(4) by simp
  have log: "jf_log J1 = Some (c @ take k (line_of e @ [newline]))" and head: "jf_head J1 = jf_head J"
    using assms(7) c(1) by (simp_all add: cut_off_def append_log_def)
  have pins: "head_pins L sk (jf_head J1) evs" using assms(2,3) head by (simp add: journal_good_def)
  have seq: "ev_seq e \<noteq> ev_seq (last evs)"
    using chain_ok_seq [of L ?pk None 1 "evs @ [e]"] chain_ok_seq [of L ?pk None 1 evs] good' assms(2,3) by (auto simp: journal_good_def)
  have whole: "\<not> verifies L ?pk J1" if r: "readEvents L (jf_log J1) = Inr (evs @ [e])"
  proof -
    obtain h where h: "readHead (jf_head J1) = Inr (Some h)" "head_signature_ok L h ?pk"
      "property h ''seq'' = Some (JNum (int (ev_seq (last evs))))"
      using head_text_props [OF assms(1)] pins by (metis head_pins_def)
    have "parse_lines L 0 (nonblank_lines (c @ take k (line_of e @ [newline]))) = (evs @ [e], [])"
      using r log by (simp add: readEvents_def read_lines_parse [where i = 0])
    then show ?thesis using h seq log by (auto simp: verifies_def verifyJournalFile_def Let_def head_errors_def)
  qed
  consider (torn) "k < length (line_of e)" | (unbroken) "k = length (line_of e)" | (headless) "length (line_of e) < k" by linarith
  then show ?thesis
  proof cases
    case torn
    then have l: "jf_log J1 = Some (c @ take k (line_of e))" using log by simp
    obtain err where "readEvents L (jf_log J1) = Inl err" using torn_log(1) [OF c(2) ok pay assms(6) torn] l by auto
    then have "journal_append L sk screen2 ts2 i2 J1 = (Inl err, J1)" for screen2 ts2 i2 by (simp add: journal_append_def)
    then show ?thesis using torn torn_rejected [OF l c(2) ok pay assms(6) torn] by auto
  next
    case unbroken
    then have l: "jf_log J1 = Some (c @ line_of e)" using log by simp
    have "nonblank_lines (c @ line_of e) = nonblank_lines c @ [line_of e]"
      using nonblank_lines_glue [OF c(2)] nonblank_lines_one [OF no_newline_stringify stringify_not_blank] by simp
    then have r: "readEvents L (jf_log J1) = Inr (evs @ [e])" using read_lines_snoc [OF c(3) ok pay] l by (simp add: readEvents_def)
    have "\<exists>err. journal_append L sk screen3 ts3 i3 J2 = (Inl err, J2)"
      if a: "journal_append L sk screen2 ts2 i2 J1 = (Inr e2, J2)" for screen2 ts2 i2 e2 J2 screen3 ts3 i3
    proof -
      have "jf_log J2 = Some (c @ line_of e @ line_of e2 @ [newline])"
        using append_fail_closed [OF a] l by simp
      then obtain err where "readEvents L (jf_log J2) = Inl err" using glued_lines [OF c(2) ok pay, of e2] by auto
      then show ?thesis by (simp add: journal_append_def)
    qed
    then show ?thesis using unbroken r whole [OF r] by auto
  next
    case headless
    then have l: "jf_log J1 = jf_log J'" using log append_fail_closed [OF assms(5)] c(1) by simp
    then have r: "readEvents L (jf_log J1) = Inr (evs @ [e])" and lg: "log_good L sk (jf_log J1) (evs @ [e])"
      using log_good_journal [OF good'] by (simp_all add: log_good_def)
    have "readEvents L (jf_log J2) = Inr (evs @ [e, e2]) \<and> verifies L ?pk J2"
      if "payload_ok (ai_payload i2)" "journal_append L sk screen2 ts2 i2 J1 = (Inr e2, J2)" for screen2 ts2 i2 e2 J2
    proof -
      have g: "journal_good L sk J2 ((evs @ [e]) @ [e2])" by (rule append_seals [OF lg assms(1) that])
      then show ?thesis using journal_good_verifies [OF g assms(1), of "[]"] by (auto simp: verifies_def journal_good_def)
    qed
    then show ?thesis using headless r whole [OF r] by auto
  qed
qed

section \<open>Witnesses\<close>

lemma toy_append: "journal_good toy_crypto () J evs \<Longrightarrow> \<exists>e J'. journal_append toy_crypto () no_screen ''t'' (input_of ''k'' []) J = (Inr e, J')"
  by (rule append_succeeds) (simp_all add: toy_crypto_ok toy_datetime no_screen_def)

text \<open>A journal of two events.\<close>

lemma two_events:
  "\<exists>J e1 e2. journal_good toy_crypto () J [e1, e2] \<and> jf_log J = Some ((line_of e1 @ [newline]) @ line_of e2 @ [newline])"
proof -
  let ?i = "input_of ''k'' []"
  have k: "payload_ok (ai_payload ?i)" by (simp add: payload_ok_def)
  obtain e1 J1 where a1: "journal_append toy_crypto () no_screen ''t'' ?i no_files = (Inr e1, J1)"
    using toy_append [OF journal_good_no_files] by blast
  have g1: "journal_good toy_crypto () J1 [e1]" using append_good [OF journal_good_no_files toy_crypto_ok k a1] by simp
  obtain e2 J2 where a2: "journal_append toy_crypto () no_screen ''t'' ?i J1 = (Inr e2, J2)"
    using toy_append [OF g1] by blast
  have "journal_good toy_crypto () J2 [e1, e2]" using append_good [OF g1 toy_crypto_ok k a2] by simp
  moreover have "jf_log J2 = Some ((line_of e1 @ [newline]) @ line_of e2 @ [newline])"
    using append_fail_closed [OF a1] append_fail_closed [OF a2] by (simp add: no_files_def)
  ultimately show ?thesis by blast
qed

lemma truncation_sealed_witness:
  "\<exists>(J :: journal_files) J' c d evs. jf_log J = Some (c @ d) \<and> journal_good toy_crypto () J evs
    \<and> (\<exists>r. verifyJournalFile toy_crypto [] (J\<lparr>jf_log := Some c\<rparr>) (publicKeyFromPrivate toy_crypto ()) = Inr r \<and> \<not> vr_ok r)
    \<and> (\<exists>r. verifyJournalFile toy_crypto [] J' (publicKeyFromPrivate toy_crypto ()) = Inr r \<and> vr_ok r)"
proof -
  let ?i = "input_of ''k'' []"
  obtain J e1 e2 where J: "journal_good toy_crypto () J [e1, e2]" "jf_log J = Some ((line_of e1 @ [newline]) @ line_of e2 @ [newline])"
    using two_events by blast
  let ?c = "line_of e1 @ [newline]" and ?d = "line_of e2 @ [newline]"
  have c: "lines_closed ?c" by (simp add: lines_closed_def)
  have d: "nonblank_lines ?d \<noteq> []"
    using nonblank_lines_append [of "[]" "line_of e2"] no_newline_stringify stringify_not_blank by (simp add: lines_closed_def)
  obtain kept lost where k: "[e1, e2] = kept @ lost" "log_good toy_crypto () (Some ?c) kept"
    using kept_part [OF log_good_journal [OF J(1), unfolded J(2)] c] by blast
  obtain e J' where a: "journal_append toy_crypto () no_screen ''t'' ?i (J\<lparr>jf_log := Some ?c\<rparr>) = (Inr e, J')"
    using append_possible [of toy_crypto "J\<lparr>jf_log := Some ?c\<rparr>" kept "()" ?i "''t''" no_screen] k(2) toy_crypto_ok toy_datetime
    by (auto simp: log_good_def no_screen_def)
  have p: "payload_ok (ai_payload ?i)" by (simp add: payload_ok_def)
  from truncation_sealed [OF toy_crypto_ok J c d p a, of "[]"] show ?thesis
    using J by (intro exI [of _ J] exI [of _ J'] exI [of _ ?c] exI [of _ ?d] exI [of _ "[e1, e2]"]) auto
qed

lemma append_cut_off_witness:
  "\<exists>(J :: journal_files) e evs. journal_good toy_crypto () J evs \<and> evs \<noteq> []
    \<and> \<not> verifies toy_crypto (publicKeyFromPrivate toy_crypto ()) (cut_off 1 e J)
    \<and> (\<exists>err. journal_append toy_crypto () no_screen ''t'' (input_of ''k'' []) (cut_off 1 e J) = (Inl err, cut_off 1 e J))"
proof -
  let ?i = "input_of ''k'' []"
  obtain J e1 e2 where J: "journal_good toy_crypto () J [e1, e2]" using two_events by blast
  obtain e J' where a: "journal_append toy_crypto () no_screen ''t'' ?i J = (Inr e, J')"
    using toy_append [OF J] by blast
  obtain t where "line_of e = CHR ''{'' # t @ [CHR ''}'']" using event_line by blast
  then have l: "1 < length (line_of e)" by simp
  have p: "payload_ok (ai_payload ?i)" by (simp add: payload_ok_def)
  from append_cut_off [OF toy_crypto_ok J _ p a, of 1] l
  have "\<not> verifies toy_crypto (publicKeyFromPrivate toy_crypto ()) (cut_off 1 e J)
    \<and> (\<forall>screen2 ts2 i2. \<exists>err. journal_append toy_crypto () screen2 ts2 i2 (cut_off 1 e J) = (Inl err, cut_off 1 e J))" by simp
  then show ?thesis using J by blast
qed

end
