(* ===== verification/Cli.thy ===== *)
theory Cli
  imports Config Journal HookBridge
begin

text \<open>
  The commands of \<open>agp\<close> over the configuration home (\<open>src/cli/commands\<close>): \<open>verify\<close>, \<open>sessions\<close>,
  \<open>keygen\<close> and \<open>bridge\<close>, and the selection of a command (\<open>cli/index.ts\<close>). A command gives its
  exit code and the lines it prints; the file system is the map of theory \<open>Config\<close>.
\<close>

section \<open>Verifying a journal\<close>

definition journal_at :: "files \<Rightarrow> string \<Rightarrow> journal_files" where
  "journal_at F path = \<lparr>jf_log = F path, jf_head = F (headPath path)\<rparr>"

text \<open>The public key, or the one of the private key, or none.\<close>

definition verification_key :: "('sk, 'pk) crypto_lib \<Rightarrow> files \<Rightarrow> agp_paths \<Rightarrow> 'pk result option" where
  "verification_key L F paths =
     (case F (ap_signingPubKey paths) of
        Some pem \<Rightarrow> Some (loadPublicKey L pem)
      | None \<Rightarrow>
          (case F (ap_signingKey paths) of
             Some pem \<Rightarrow> Some (res_bind (loadPrivateKey L pem) (\<lambda>sk. Inr (publicKeyFromPrivate L sk)))
           | None \<Rightarrow> None))"

definition journal_argument :: "string list \<Rightarrow> agp_paths \<Rightarrow> string" where
  "journal_argument argv paths = (case argv of
     a # _ \<Rightarrow> if a \<noteq> [] \<and> \<not> prefix ''-'' a then a else ap_journal paths
   | [] \<Rightarrow> ap_journal paths)"

definition verifyCommand :: "('sk, 'pk) crypto_lib \<Rightarrow> host \<Rightarrow> string list \<Rightarrow> (int \<times> string list) result" where
  "verifyCommand L H argv =
     (let paths = host_paths H; journalPath = journal_argument argv paths in
      case verification_key L (ho_files H) paths of
        None \<Rightarrow> Inr (1, [''agp verify: no verification key (looked for '' @ ap_signingPubKey paths
          @ ''). Run `agp keygen`. (fail-closed)''])
      | Some (Inl e) \<Rightarrow> Inr (1, [''agp verify: cannot load verification key: '' @ err_message e @ '' (fail-closed)''])
      | Some (Inr publicKey) \<Rightarrow>
          res_bind (verifyJournalFile L journalPath (journal_at (ho_files H) journalPath) publicKey) (\<lambda>r.
            let head = ''agp verify: '' @ show_nat (vr_count r) @ '' event(s) in '' @ journalPath in
            Inr (if vr_ok r then (0, [head, check_mark @ '' journal intact'' @ emdash @ ''chain, signatures, and signed head verified.''])
              else (1, head # map (\<lambda>e. cross_mark @ '' '' @ e) (vr_errors r)))))"

text \<open>
  The exit code of \<open>agp verify\<close> is the verdict. It is zero exactly when a key could be loaded
  and the offline verifier accepts the journal with it.
\<close>

theorem verify_exit:
  "(\<exists>out. verifyCommand L H argv = Inr (0, out)) \<longleftrightarrow>
     (\<exists>pk r. verification_key L (ho_files H) (host_paths H) = Some (Inr pk)
        \<and> verifyJournalFile L (journal_argument argv (host_paths H))
             (journal_at (ho_files H) (journal_argument argv (host_paths H))) pk = Inr r \<and> vr_ok r)"
  by (auto simp: verifyCommand_def Let_def result_simps split: option.splits sum.splits if_splits)

section \<open>Listing the sessions\<close>

record session_entry =
  se_started :: "string option"
  se_calls :: "int option"

definition str :: "json option \<Rightarrow> string option" where
  "str v = (case v of Some (JStr s) \<Rightarrow> Some s | _ \<Rightarrow> None)"

definition event_session :: "journal_event \<Rightarrow> string option" where
  "event_session ev = str (map_of (ev_payload ev) ''sessionId'')"

definition event_calls :: "journal_event \<Rightarrow> int option" where
  "event_calls ev = (case map_of (ev_payload ev) ''calls'' of Some (JNum n) \<Rightarrow> Some n | _ \<Rightarrow> None)"

definition session_event :: "journal_event \<Rightarrow> session_entry obj \<Rightarrow> session_entry obj" where
  "session_event ev sessions =
     (case event_session ev of
        None \<Rightarrow> sessions
      | Some sid \<Rightarrow>
          let entry = (case map_of sessions sid of Some e \<Rightarrow> e | None \<Rightarrow> \<lparr>se_started = None, se_calls = None\<rparr>);
              entry1 = (if ev_kind ev = ''session.started'' then entry\<lparr>se_started := Some (ev_ts ev)\<rparr> else entry);
              entry2 = (if ev_kind ev = ''session.ended''
                then entry1\<lparr>se_calls := (case event_calls ev of Some n \<Rightarrow> Some n | None \<Rightarrow> se_calls entry1)\<rparr> else entry1) in
          AList.update sid entry2 sessions)"

definition session_table :: "journal_event list \<Rightarrow> session_entry obj" where
  "session_table evs = fold session_event evs []"

definition session_line :: "string \<times> session_entry \<Rightarrow> string" where
  "session_line p = ''  '' @ fst p @ ''  started='' @ (case se_started (snd p) of Some t \<Rightarrow> t | None \<Rightarrow> ''(start not recorded)'')
     @ ''  calls='' @ (case se_calls (snd p) of None \<Rightarrow> ''?'' | Some n \<Rightarrow> show_int n)"

definition sessionsCommand :: "('sk, 'pk) crypto_lib \<Rightarrow> host \<Rightarrow> (int \<times> string list) result" where
  "sessionsCommand L H =
     (case ho_files H (ap_journal (host_paths H)) of
        None \<Rightarrow> Inr (0, [''agp sessions: no journal yet'' @ emdash @ ''run `agp run` first.''])
      | Some t \<Rightarrow>
          res_bind (readEvents L (Some t)) (\<lambda>events.
            let sessions = session_table events in
            Inr (0, if sessions = [] then [''agp sessions: no sessions recorded.'']
              else (''agp sessions: '' @ show_nat (length sessions) @ '' session(s)'') # map session_line sessions)))"

text \<open>What a reader expects of the table: the latest record of each kind, per session.\<close>

definition latest :: "(journal_event \<Rightarrow> 'a option) \<Rightarrow> journal_event list \<Rightarrow> 'a option" where
  "latest f evs = (if List.map_filter f evs = [] then None else Some (last (List.map_filter f evs)))"

definition started_at :: "string \<Rightarrow> journal_event \<Rightarrow> string option" where
  "started_at sid ev = (if event_session ev = Some sid \<and> ev_kind ev = ''session.started'' then Some (ev_ts ev) else None)"

definition ended_calls :: "string \<Rightarrow> journal_event \<Rightarrow> int option" where
  "ended_calls sid ev = (if event_session ev = Some sid \<and> ev_kind ev = ''session.ended'' then event_calls ev else None)"

lemma latest_snoc: "latest f (evs @ [e]) = (case f e of None \<Rightarrow> latest f evs | Some x \<Rightarrow> Some x)"
  by (auto simp: latest_def List.map_filter_def split: option.split)

lemma first_seen_snoc: "first_seen seen (xs @ [x]) = first_seen seen xs @ (if x \<in> set seen \<union> set xs then [] else [x])"
proof (induction xs arbitrary: seen)
  case (Cons y ys)
  then show ?case by auto
qed simp

lemma map_fst_update: "map fst (AList.update k v xs) = (if k \<in> fst ` set xs then map fst xs else map fst xs @ [k])"
  by (induction xs) auto

lemma set_map_filter: "set (List.map_filter f xs) = {y. \<exists>x \<in> set xs. f x = Some y}"
  by (induction xs) (auto split: option.splits)

lemma session_table_spec:
  "map fst (session_table evs) = first_seen [] (List.map_filter event_session evs)
   \<and> (\<forall>sid. map_of (session_table evs) sid = (if sid \<in> set (List.map_filter event_session evs)
        then Some \<lparr>se_started = latest (started_at sid) evs, se_calls = latest (ended_calls sid) evs\<rparr> else None))"
proof (induction evs rule: rev_induct)
  case Nil
  show ?case by (simp add: session_table_def)
next
  case (snoc e evs)
  have step: "session_table (evs @ [e]) = session_event e (session_table evs)" by (simp add: session_table_def)
  have ids: "fst ` set (session_table evs) = set (List.map_filter event_session evs)"
    using snoc.IH by (metis image_set set_first_seen Diff_empty list.set(1))
  show ?case
  proof (cases "event_session e")
    case None
    then have "started_at sid e = None" "ended_calls sid e = None" for sid by (simp_all add: started_at_def ended_calls_def)
    then show ?thesis using snoc.IH None
      by (simp add: step session_event_def latest_snoc List.map_filter_def)
  next
    case (Some sid)
    let ?fresh = "sid \<notin> set (List.map_filter event_session evs)"
    have nil: "latest (started_at sid) evs = None \<and> latest (ended_calls sid) evs = None" if ?fresh
    proof -
      have "started_at sid x = None \<and> ended_calls sid x = None" if "x \<in> set evs" for x
        using that \<open>?fresh\<close> by (auto simp: set_map_filter started_at_def ended_calls_def)
      then have "List.map_filter (started_at sid) evs = []" "List.map_filter (ended_calls sid) evs = []"
        by (auto simp: List.map_filter_def filter_empty_conv)
      then show ?thesis by (simp add: latest_def)
    qed
    have other: "started_at k e = None \<and> ended_calls k e = None" if "k \<noteq> sid" for k
      using that Some by (simp add: started_at_def ended_calls_def)
    have keys: "List.map_filter event_session (evs @ [e]) = List.map_filter event_session evs @ [sid]"
      using Some by (simp add: List.map_filter_def)
    have "map_of (session_table (evs @ [e])) sid
        = Some \<lparr>se_started = latest (started_at sid) (evs @ [e]), se_calls = latest (ended_calls sid) (evs @ [e])\<rparr>"
      using snoc.IH Some nil
      by (auto simp: step session_event_def Let_def latest_snoc started_at_def ended_calls_def split: option.split)
    moreover have "map_of (session_table (evs @ [e])) k = map_of (session_table evs) k" if "k \<noteq> sid" for k
      using that Some by (simp add: step session_event_def Let_def)
    moreover have "map fst (session_table (evs @ [e])) = first_seen [] (List.map_filter event_session (evs @ [e]))"
      using snoc.IH Some ids by (simp add: step session_event_def Let_def keys first_seen_snoc map_fst_update)
    moreover have "latest (started_at k) (evs @ [e]) = latest (started_at k) evs"
      "latest (ended_calls k) (evs @ [e]) = latest (ended_calls k) evs" if "k \<noteq> sid" for k
      using other [OF that] by (simp_all add: latest_snoc)
    ultimately show ?thesis using snoc.IH unfolding keys by (simp; metis)
  qed
qed

text \<open>
  The listing of sessions says what the journal says. The table has one entry for each session
  an event names, in the order of their first events, with the time of its latest start and
  the number of calls its latest end recorded.
\<close>

theorem sessions_listed:
  "session_table evs = map (\<lambda>sid. (sid, \<lparr>se_started = latest (started_at sid) evs, se_calls = latest (ended_calls sid) evs\<rparr>))
     (first_seen [] (List.map_filter event_session evs))"
proof -
  let ?e = "\<lambda>sid. \<lparr>se_started = latest (started_at sid) evs, se_calls = latest (ended_calls sid) evs\<rparr>"
  note spec = session_table_spec [of evs]
  have d: "distinct (map fst (session_table evs))" using spec by (simp add: distinct_first_seen)
  have "p = (fst p, ?e (fst p))" if "p \<in> set (session_table evs)" for p
    using map_of_is_SomeI [OF d, of "fst p" "snd p"] that spec by (cases p) (auto split: if_splits)
  then have "session_table evs = map (\<lambda>sid. (sid, ?e sid)) (map fst (session_table evs))"
    by (simp add: map_idI comp_def)
  then show ?thesis using spec by simp
qed

section \<open>The signing key\<close>

record keygen_result =
  kg_files :: files
  kg_code :: int
  kg_message :: string

definition rename_file :: "string \<Rightarrow> string \<Rightarrow> files \<Rightarrow> files" where
  "rename_file a b F = (F(a := None))(b := F a)"

definition key_backup :: "string \<Rightarrow> nat \<Rightarrow> string" where
  "key_backup path stamp = path @ ''.bak-'' @ show_nat stamp"

text \<open>\<open>pems\<close> is the pair generated, \<open>stamp\<close> the clock's reading.\<close>

definition keygenCommand :: "agp_paths \<Rightarrow> bool \<Rightarrow> string \<times> string \<Rightarrow> nat \<Rightarrow> files \<Rightarrow> keygen_result" where
  "keygenCommand paths force pems stamp F =
     (let sk = ap_signingKey paths; pk = ap_signingPubKey paths in
      if F sk \<noteq> None \<and> \<not> force
      then \<lparr>kg_files = F, kg_code = 1, kg_message = ''signing key already exists at '' @ sk
        @ '' (use --force to rotate'' @ emdash @ ''a new key does not retro-verify the existing journal)''\<rparr>
      else
        let rotate = F sk \<noteq> None \<and> force;
            F1 = (if rotate then rename_file sk (key_backup sk stamp) F else F);
            F2 = (if rotate \<and> F1 pk \<noteq> None then rename_file pk (key_backup pk stamp) F1 else F1) in
        \<lparr>kg_files = F2(sk \<mapsto> fst pems, pk \<mapsto> snd pems), kg_code = 0,
          kg_message = str_join [newline]
            ((if rotate then [''rotated: previous key archived as '' @ key_backup sk stamp] else [])
             @ [''wrote private key '' @ sk, ''wrote public key  '' @ pk])\<rparr>)"

text \<open>
  The key that signs is never lost. Without \<open>--force\<close> an existing key stops the command with
  nothing changed; with it, the old pair stands under its backup names and the new pair in its
  place. A public key without a private one, though, is overwritten in both cases.
\<close>

theorem keygen_keeps_old:
  assumes "F (ap_signingKey (resolvePaths hm env)) = Some old" and "paths = resolvePaths hm env"
  shows "keygenCommand paths False pems n F = \<lparr>kg_files = F, kg_code = 1,
      kg_message = kg_message (keygenCommand paths False pems n F)\<rparr>
    \<and> kg_files (keygenCommand paths True pems n F) (key_backup (ap_signingKey paths) n) = Some old
    \<and> kg_files (keygenCommand paths True pems n F) (ap_signingKey paths) = Some (fst pems)
    \<and> kg_files (keygenCommand paths True pems n F) (ap_signingPubKey paths) = Some (snd pems)
    \<and> (F (ap_signingPubKey paths) \<noteq> None \<longrightarrow>
         kg_files (keygenCommand paths True pems n F) (key_backup (ap_signingPubKey paths) n) = F (ap_signingPubKey paths))"
proof -
  obtain base where k: "ap_signingKey paths = base @ ''journal-ed25519.key''" "ap_signingPubKey paths = base @ ''journal-ed25519.pub''"
    using key_paths assms(2) by blast
  show ?thesis using assms(1) unfolding assms(2) [symmetric] k
    by (auto simp: keygenCommand_def rename_file_def Let_def k key_backup_def)
qed

lemma keygen_overwrites_public:
  assumes "F (ap_signingKey paths) = None" "ap_signingKey paths \<noteq> ap_signingPubKey paths"
  shows "kg_files (keygenCommand paths False pems n F) (ap_signingPubKey paths) = Some (snd pems)"
  using assms by (simp add: keygenCommand_def Let_def)

section \<open>The bridge command and the selection\<close>

definition flag_value :: "string \<Rightarrow> string list \<Rightarrow> string option" where
  "flag_value flag argv = (case dropWhile (\<lambda>a. a \<noteq> flag) argv of _ # v # _ \<Rightarrow> Some v | _ \<Rightarrow> None)"

text \<open>\<open>hookSocket\<close> is the variable \<open>AGP_HOOK_SOCKET\<close>; \<open>connect\<close> the error of connecting, if any.\<close>

definition bridgeCommand :: "string list \<Rightarrow> string option \<Rightarrow> string \<Rightarrow> (string \<Rightarrow> js_error option) \<Rightarrow> nat \<Rightarrow> client_event list \<Rightarrow>
    (int \<times> string list) option" where
  "bridgeCommand argv hookSocket stdin connect timeoutMs es =
     (case (if ''--socket'' \<in> set argv then flag_value ''--socket'' argv else hookSocket) of
        None \<Rightarrow> Some (2, [''agp bridge: --socket <path> required (fail-closed deny)''])
      | Some socket \<Rightarrow>
          if socket = [] then Some (2, [''agp bridge: --socket <path> required (fail-closed deny)''])
          else map_option (\<lambda>r. (br_exitCode r, case br_stderr r of None \<Rightarrow> [] | Some m \<Rightarrow> [m]))
            (runBridge stdin (connect socket) timeoutMs es))"

lemma bridge_needs_socket:
  "''--socket'' \<notin> set argv \<Longrightarrow> hookSocket = None \<or> hookSocket = Some [] \<Longrightarrow>
     \<exists>out. bridgeCommand argv hookSocket stdin connect t es = Some (2, out)"
  by (auto simp: bridgeCommand_def)

datatype cli_call =
    CallInit bool
  | CallKeygen bool
  | CallDoctor "string option"
  | CallRun "string option" "string option" "string option"
  | CallBridge "string list"
  | CallVerify "string list"
  | CallSessions
  | CallHelp
  | CallUsage
  | CallUnknown string

definition main_call :: "string list \<Rightarrow> cli_call" where
  "main_call argv = (case argv of
     [] \<Rightarrow> CallUsage
   | cmd # rest \<Rightarrow>
       if cmd = ''init'' then CallInit (''--force'' \<in> set argv)
       else if cmd = ''keygen'' then CallKeygen (''--force'' \<in> set argv)
       else if cmd = ''doctor'' then CallDoctor (flag_value ''--check'' argv)
       else if cmd = ''run'' then CallRun (flag_value ''--intendant'' argv) (flag_value ''--task'' argv) (flag_value ''--repo'' argv)
       else if cmd = ''bridge'' then CallBridge rest
       else if cmd = ''verify'' then CallVerify rest
       else if cmd = ''sessions'' then CallSessions
       else if cmd = ''help'' \<or> cmd = ''--help'' \<or> cmd = ''-h'' then CallHelp
       else CallUnknown cmd)"

end
