(* ===== verification/RunCommand.thy ===== *)
theory RunCommand
  imports Demo Outbox Cli LiveProcess
begin

text \<open>
  \<open>agp run\<close> (\<open>src/cli/commands/run.ts\<close>): the checks and choices before a session, the daemon they
  build, and the session with what is printed about it, composed from the models of the
  configuration, the daemon and the outbox. The objects a choice creates (sandbox, channel, harness with
  its adapter) and the outcome of dialing Slack are parameters.
\<close>

section \<open>State and early returns\<close>

datatype receiver_status = NoReceiver | ReceiverRunning | ReceiverStopped

record 'd console =
  co_docker :: "'d docker"
  co_out :: "string list"
  co_receiver :: receiver_status

text \<open>A step of the command throws, returns its exit code (\<open>Inl\<close>), or goes on.\<close>

type_synonym ('w, 'a) step = "('w, int + 'a) act"

definition go :: "'a \<Rightarrow> ('w, 'a) step" where
  "go x = act_ret (Inr x)"

definition then_step :: "('w, 'a) step \<Rightarrow> ('a \<Rightarrow> ('w, 'b) step) \<Rightarrow> ('w, 'b) step" where
  "then_step m f = act_bind m (\<lambda>r. case r of Inl n \<Rightarrow> act_ret (Inl n) | Inr x \<Rightarrow> f x)"

definition say :: "string \<Rightarrow> (('d, 'z) console_scheme, unit) act" where
  "say line = act_modify (\<lambda>s. s\<lparr>co_out := co_out s @ [line]\<rparr>)"

definition refuse :: "string \<Rightarrow> (('d, 'z) console_scheme, 'a) step" where
  "refuse line = act_seq (say line) (act_ret (Inl 1))"

definition on_docker :: "('d docker, 'a) act \<Rightarrow> (('d, 'z) console_scheme, 'a) act" where
  "on_docker m s = (case m (co_docker s) of (r, d) \<Rightarrow> (r, s\<lparr>co_docker := d\<rparr>))"

definition set_receiver :: "receiver_status \<Rightarrow> (('d, 'z) console_scheme, unit) act" where
  "set_receiver x = act_modify (\<lambda>s. s\<lparr>co_receiver := x\<rparr>)"

section \<open>The choices\<close>

datatype sandbox_choice = ChooseRecording | ChooseDocker

datatype channel_choice = ChooseConsole | ChooseSlack slack_creds

record 'sk run_plan =
  rp_key :: 'sk
  rp_policy :: "policy_rule list"
  rp_sandbox :: sandbox_choice
  rp_image :: "string option"
  rp_journalSecrets :: "string list"
  rp_channel :: channel_choice
  rp_slackSecrets :: "string list"

record run_args =
  ra_intendant :: "string option"
  ra_task :: "string option"
  ra_repo :: "string option"

definition closed :: "string \<Rightarrow> string" where
  "closed m = m @ '' (fail-closed)''"

text \<open>The entries of the environment are a list where the vault enumerates them.\<close>

definition knownSecrets :: "(string \<times> string option) list \<Rightarrow> environment \<Rightarrow> json list \<Rightarrow> string list" where
  "knownSecrets entries env extra = first_seen []
     (vault_values (EnvSecretVault entries)
      @ (case env ''ANTHROPIC_API_KEY'' of Some k \<Rightarrow> if k \<noteq> [] then [k] else [] | None \<Rightarrow> [])
      @ List.map_filter (\<lambda>e. case e of JStr s \<Rightarrow> if s \<noteq> [] then Some s else None | _ \<Rightarrow> None) extra)"

definition load_key :: "('sk, 'pk) crypto_lib \<Rightarrow> host \<Rightarrow> (('d, 'z) console_scheme, 'sk) step" where
  "load_key L H =
     (let path = ap_signingKey (host_paths H) in
      case ho_files H path of
        None \<Rightarrow> refuse (closed (''agp run: signing key missing at '' @ path @ emdash @ ''run `agp keygen`.''))
      | Some pem \<Rightarrow>
          if ho_files H (ap_policy (host_paths H)) = None
          then refuse (closed (''agp run: policy missing at '' @ ap_policy (host_paths H) @ emdash @ ''run `agp init`.''))
          else (case loadPrivateKey L pem of
                  Inl e \<Rightarrow> refuse (closed (''agp run: cannot load signing key: '' @ err_message e))
                | Inr key \<Rightarrow> go key))"

definition load_policy :: "host \<Rightarrow> (('d, 'z) console_scheme, policy_rule list) step" where
  "load_policy H =
     (let path = ap_policy (host_paths H) in
      case loadPolicyFile (ho_explain H) path (ho_files H path) of
        Inl e \<Rightarrow> refuse (closed (''agp run: invalid policy: '' @ err_message e))
      | Inr rules \<Rightarrow> go rules)"

definition choose_sandbox :: "host \<Rightarrow> 'd docker_runner \<Rightarrow> (('d, 'z) console_scheme, sandbox_choice \<times> string option) step" where
  "choose_sandbox H run =
     (if ho_env H ''AGP_SANDBOX'' = Some ''docker''
      then act_bind (on_docker (probe_docker H run)) (\<lambda>d.
        if \<not> pa_ok d
        then refuse (closed (''agp run: AGP_SANDBOX=docker but Docker is not available'' @ emdash @ ''refusing (no host fallback).''))
        else (case ho_env H ''AGP_SANDBOX_IMAGE'' of
            Some img \<Rightarrow>
              if img = [] then refuse (closed ''agp run: AGP_SANDBOX=docker requires AGP_SANDBOX_IMAGE=<pinned image>.'')
              else act_seq (say (''agp run: DOCKER sandbox'' @ emdash @ ''namespace isolation (NOT VM-grade).''))
                (go (ChooseDocker, Some img))
          | None \<Rightarrow> refuse (closed ''agp run: AGP_SANDBOX=docker requires AGP_SANDBOX_IMAGE=<pinned image>.'')))
      else act_seq (say (''agp run: recording sandbox (reference'' @ emdash
          @ ''runs nothing; set AGP_SANDBOX=docker for real isolation).''))
        (go (ChooseRecording, None)))"

text \<open>\<open>dial\<close> is the error of starting the receiver, if any.\<close>

definition choose_channel ::
    "host \<Rightarrow> (string \<times> string option) list \<Rightarrow> (slack_creds \<Rightarrow> js_error option) \<Rightarrow>
     (('d, 'z) console_scheme, channel_choice \<times> string list) step" where
  "choose_channel H entries dial =
     (if ho_env H ''AGP_CHANNEL'' = Some ''slack''
      then act_bind (act_lift (probe_slack H)) (\<lambda>slack.
        if \<not> pa_ok slack then refuse (closed (''agp run: AGP_CHANNEL=slack but '' @ pa_detail slack @ ''.''))
        else if ho_env H ''AGP_SLACK_LIVE'' \<noteq> Some ''1''
        then refuse (closed (''agp run: AGP_CHANNEL=slack but AGP_SLACK_LIVE!=1'' @ emdash
          @ ''the live Socket Mode click receiver is the off-CI dogfood path; refusing to post a prompt nothing can answer.''))
        else act_bind (act_lift (resolveSlackCreds (ho_env H) (loadConfig H))) (\<lambda>creds.
          case dial creds of
            Some e \<Rightarrow> act_throw e
          | None \<Rightarrow> act_seq (set_receiver ReceiverRunning)
              (act_seq (say (''agp run: AGP_CHANNEL=slack'' @ emdash @ ''live Socket Mode receiver connected.''))
                (go (ChooseSlack creds, knownSecrets entries (ho_env H) [sc_botToken creds, sc_appToken creds])))))
      else go (ChooseConsole, []))"

definition run_select ::
    "('sk, 'pk) crypto_lib \<Rightarrow> host \<Rightarrow> (string \<times> string option) list \<Rightarrow> 'd docker_runner \<Rightarrow> (slack_creds \<Rightarrow> js_error option) \<Rightarrow>
     (('d, 'z) console_scheme, 'sk run_plan) step" where
  "run_select L H entries run dial =
     then_step (load_key L H) (\<lambda>key.
       then_step (load_policy H) (\<lambda>rules.
         then_step (choose_sandbox H run) (\<lambda>(sandbox, img).
           then_step (choose_channel H entries dial) (\<lambda>(channel, slackSecrets).
             go \<lparr>rp_key = key, rp_policy = rules, rp_sandbox = sandbox, rp_image = img,
               rp_journalSecrets = knownSecrets entries (ho_env H) [], rp_channel = channel, rp_slackSecrets = slackSecrets\<rparr>))))"

section \<open>The daemon and the outbox\<close>

text \<open>
  What the command builds from: the provider and the adapter of each choice, the readings of clocks
  and generators, and the two live harnesses as runnable intendants with their first state.
\<close>

record ('sk, 'pk, 'c, 'b, 'd, 'i) run_deps =
  rn_lib :: "('sk, 'pk) crypto_lib"
  rn_host :: host
  rn_entries :: "(string \<times> string option) list"
  rn_docker :: "'d docker_runner"
  rn_dial :: "slack_creds \<Rightarrow> js_error option"
  rn_sandbox :: "sandbox_choice \<Rightarrow> 'b sandbox_provider"
  rn_channel :: "channel_choice \<Rightarrow> (json \<Rightarrow> unit result) \<Rightarrow> 'c channel_adapter"
  rn_claude :: "(string \<times> string \<times> docker_target option) option \<Rightarrow> 'i runnable_intendant"
  rn_codex :: "(string \<times> string) option \<Rightarrow> 'i runnable_intendant"
  rn_harness :: 'i
  rn_script :: script
  rn_instanceId :: string
  rn_sessionId :: string
  rn_socketPath :: string
  rn_agpRepoPath :: string
  rn_stamp :: "nat \<Rightarrow> string"
  rn_nowMs :: "nat \<Rightarrow> nat"
  rn_now :: "nat \<Rightarrow> string"
  rn_genId :: "nat \<Rightarrow> string"

definition run_identityMode :: "environment \<Rightarrow> identity_mode" where
  "run_identityMode env =
     (if env ''AGP_IDENTITY_MODE'' = Some ''warn'' then mode_warn
      else if env ''AGP_IDENTITY_MODE'' = Some ''enforce'' then mode_enforce
      else mode_off)"

definition plan_channel :: "('sk, 'pk, 'c, 'b, 'd, 'i) run_deps \<Rightarrow> 'sk run_plan \<Rightarrow> 'c channel_adapter" where
  "plan_channel N plan = rn_channel N (rp_channel plan) (\<lambda>payload. assertNoSecretValues payload (rp_slackSecrets plan) ''slack'')"

text \<open>The daemon: no vault is handed to it.\<close>

definition run_daemon :: "('sk, 'pk, 'c, 'b, 'd, 'i) run_deps \<Rightarrow> 'sk run_plan \<Rightarrow> ('sk, 'pk, string option, 'c, 'b) daemon" where
  "run_daemon N plan = \<lparr>dd_policy = rp_policy plan, dd_lib = rn_lib N, dd_key = rp_key plan,
     dd_screen = (\<lambda>event. assertNoSecretValues (event_json event) (rp_journalSecrets plan) ''journal''),
     dd_stamp = rn_stamp N, dd_sandbox = rn_sandbox N (rp_sandbox plan), dd_channel = plan_channel N plan, dd_vault = None,
     dd_sessionStore = Some FileSessionStore, dd_instanceId = rn_instanceId N, dd_nowMs = rn_nowMs N, dd_leaseTtlMs = 300000,
     dd_verifier = Some (loadEd25519Verifier (rn_lib N)
       (ho_files (rn_host N) (path_join [ap_home (host_paths (rn_host N)), ''intendants'', ''ed25519.pub'']))),
     dd_identityMode = run_identityMode (ho_env (rn_host N)), dd_tenantContext = defaultTenantContext\<rparr>"

definition run_relay :: "('sk, 'pk, 'c, 'b, 'd, 'i) run_deps \<Rightarrow> 'sk run_plan \<Rightarrow> (string option, 'c) relay_deps" where
  "run_relay N plan = \<lparr>rd_ops = FileOutboxStore, rd_project = ca_project (plan_channel N plan), rd_now = rn_now N, rd_genId = rn_genId N\<rparr>"

section \<open>The state of a run\<close>

text \<open>The world without an intendant, the outbox over the same channel, and the console.\<close>

record ('c, 'b, 'd) run_state = "'d console" +
  rs_world :: "(string option, 'c, 'b, unit) world"
  rs_outbox :: "string option"
  rs_ticks :: nat
  rs_ids :: nat

definition with_intendant :: "'i \<Rightarrow> ('s, 'c, 'b, 'j) world \<Rightarrow> ('s, 'c, 'b, 'i) world" where
  "with_intendant i w = \<lparr>w_journal = w_journal w, w_store = w_store w, w_channel = w_channel w, w_sandbox = w_sandbox w,
     w_intendant = i, w_stamps = w_stamps w, w_ticks = w_ticks w, w_log = w_log w\<rparr>"

definition on_world :: "((string option, 'c, 'b, unit) world, 'a) act \<Rightarrow> (('c, 'b, 'd) run_state, 'a) act" where
  "on_world m s = (case m (rs_world s) of (r, w) \<Rightarrow> (r, s\<lparr>rs_world := w\<rparr>))"

definition on_relay :: "((string option, 'c) relay, 'a) act \<Rightarrow> (('c, 'b, 'd) run_state, 'a) act" where
  "on_relay m s =
     (case m \<lparr>rl_store = rs_outbox s, rl_channel = w_channel (rs_world s), rl_ticks = rs_ticks s, rl_ids = rs_ids s\<rparr> of
        (r, q) \<Rightarrow> (r, s\<lparr>rs_outbox := rl_store q, rs_world := (rs_world s)\<lparr>w_channel := rl_channel q\<rparr>,
          rs_ticks := rl_ticks q, rs_ids := rl_ids q\<rparr>))"

text \<open>A session in the world with its intendant, whose state is gone afterwards.\<close>

definition in_session :: "'i \<Rightarrow> ((string option, 'c, 'b, 'i) world, 'a) run \<Rightarrow> (('c, 'b, 'd) run_state, 'a) run" where
  "in_session i m s = (case m (with_intendant i (rs_world s)) of
     None \<Rightarrow> None
   | Some (r, w) \<Rightarrow> Some (r, s\<lparr>rs_world := with_intendant () w\<rparr>))"

section \<open>The command\<close>

fun say_all :: "string list \<Rightarrow> (('d, 'z) console_scheme, unit) act" where
  "say_all [] = act_ret ()"
| "say_all (l # ls) = act_seq (say l) (say_all ls)"

text \<open>Recovery and redelivery before the session.\<close>

definition run_recover :: "('sk, 'pk, 'c, 'b, 'd, 'i) run_deps \<Rightarrow> 'sk run_plan \<Rightarrow> (('c, 'b, 'd) run_state, unit) act" where
  "run_recover N plan =
     act_bind (on_world (recoverSessions (run_daemon N plan))) (\<lambda>reaped.
       act_seq (if reaped \<noteq> [] then say (''agp run: recovered'' @ emdash @ ''reaped '' @ show_nat (length reaped)
           @ '' orphaned session(s) from a prior crash (journaled).'') else act_ret ())
         (act_bind (on_relay (drain (run_relay N plan))) (\<lambda>drained.
           if 0 < dr_delivered drained
           then say (''agp run: outbox'' @ emdash @ ''redelivered '' @ show_int (dr_delivered drained)
             @ '' channel projection(s) held over a restart.'') else act_ret ())))"

definition approval_text :: "mediation_outcome \<Rightarrow> string" where
  "approval_text o' = (case mo_approved o' of None \<Rightarrow> []
     | Some a \<Rightarrow> arrow @ ''approval '' @ (if a then ''granted'' else ''denied''))"

definition live_line :: "mediation_outcome \<Rightarrow> string" where
  "live_line o' = ''  '' @ tcr_tool (mo_request o') @ '': '' @ decision_name (pv_decision (mo_verdict o')) @ approval_text o'
     @ arrow @ ''gate '' @ (if pv_decision (mo_verdict o') = allow \<or> mo_approved o' = Some True then ''allow'' else ''deny'')"

definition scripted_line :: "mediation_outcome \<Rightarrow> string" where
  "scripted_line o' = ''  '' @ tcr_tool (mo_request o') @ '': '' @ decision_name (pv_decision (mo_verdict o')) @ approval_text o'
     @ (if mo_executed o' then arrow @ ''executed'' else [])"

text \<open>The projection, the end of the receiver and the report, after a session.\<close>

definition run_report ::
    "('sk, 'pk, 'c, 'b, 'd, 'i) run_deps \<Rightarrow> 'sk run_plan \<Rightarrow> string \<Rightarrow> string \<Rightarrow> (mediation_outcome \<Rightarrow> string) \<Rightarrow> session_result \<Rightarrow>
     (('c, 'b, 'd) run_state, int) act" where
  "run_report N plan counted printed line result =
     act_seq (on_relay (project (run_relay N plan) ''session.ended''
         (''session '' @ sr_sessionId result @ '': '' @ show_nat (length (sr_outcomes result)) @ '' '' @ counted)))
       (act_seq (act_modify (\<lambda>s. if co_receiver s = NoReceiver then s else s\<lparr>co_receiver := ReceiverStopped\<rparr>))
         (act_seq (say_all ([[newline] @ ''session '' @ sr_sessionId result @ emdash @ show_nat (length (sr_outcomes result))
               @ '' '' @ printed @ '':''] @ map line (sr_outcomes result)
               @ [[newline] @ ''journal: '' @ ap_journal (host_paths (rn_host N)) @ emdash @ ''verify with `agp verify`.'']))
           (act_ret 0)))"

definition run_options_of :: "('sk, 'pk, 'c, 'b, 'd, 'i) run_deps \<Rightarrow> 'sk run_plan \<Rightarrow> run_options" where
  "run_options_of N plan = \<lparr>ro_sessionId = rn_sessionId N, ro_image = rp_image plan, ro_manifest = None, ro_signatureB64 = None,
     ro_networkEnabled = None\<rparr>"

text \<open>\<open>opts.task ?? env.AGP_TASK\<close> and the same for the repository; both must be given and nonempty.\<close>

definition run_target :: "environment \<Rightarrow> run_args \<Rightarrow> (string \<times> string) option" where
  "run_target env opts =
     (case (case ra_task opts of Some t \<Rightarrow> Some t | None \<Rightarrow> env ''AGP_TASK'',
            case ra_repo opts of Some r \<Rightarrow> Some r | None \<Rightarrow> env ''AGP_REPO'') of
        (Some t, Some r) \<Rightarrow> if t \<noteq> [] \<and> r \<noteq> [] then Some (t, r) else None
      | _ \<Rightarrow> None)"

definition target_missing :: "string \<Rightarrow> string" where
  "target_missing flag = closed (''agp run: '' @ flag @ ''=1 requires --task <prompt> and --repo <path> (or AGP_TASK / AGP_REPO).'')"

text \<open>The harness of Claude Code: the live one on the host or in a container, or the reference.\<close>

definition choose_claude ::
    "('sk, 'pk, 'c, 'b, 'd, 'i) run_deps \<Rightarrow> run_args \<Rightarrow> (('c, 'b, 'd) run_state, (string \<times> string \<times> docker_target option) option) step" where
  "choose_claude N opts =
     (let env = ho_env (rn_host N) in
      if env ''AGP_CLAUDE_LIVE'' = Some ''1'' then
        (case run_target env opts of
           None \<Rightarrow> refuse (target_missing ''AGP_CLAUDE_LIVE'')
         | Some (task, repo) \<Rightarrow>
             if env ''AGP_CLAUDE_SANDBOX'' = Some ''docker'' then
               (case (case env ''AGP_CLAUDE_SANDBOX_IMAGE'' of Some i \<Rightarrow> Some i | None \<Rightarrow> env ''AGP_SANDBOX_IMAGE'') of
                  Some img \<Rightarrow>
                    if img = []
                    then refuse (closed ''agp run: AGP_CLAUDE_SANDBOX=docker requires AGP_CLAUDE_SANDBOX_IMAGE=<pinned image>.'')
                    else act_seq (say (''agp run: CLAUDE-CODE LIVE (Topology B)'' @ emdash @ ''claude in container '' @ img @ '' on ''
                        @ repo @ ''; tool calls gated via '' @ rn_socketPath N @ '' (full egress'' @ emdash @ ''see 037-AT-ADR).''))
                      (go (Some (task, repo, Some \<lparr>dt_image = img, dt_agpRepoPath = rn_agpRepoPath N,
                        dt_apiKey = env ''ANTHROPIC_API_KEY'', dt_networkEnabled = Some True\<rparr>)))
                | None \<Rightarrow> refuse (closed ''agp run: AGP_CLAUDE_SANDBOX=docker requires AGP_CLAUDE_SANDBOX_IMAGE=<pinned image>.''))
             else act_seq (say (''agp run: CLAUDE-CODE LIVE'' @ emdash @ ''spawning real claude on the host in '' @ repo
                 @ ''; every tool call gated via '' @ rn_socketPath N @ ''.''))
               (go (Some (task, repo, None))))
      else act_seq (say (''agp run: CLAUDE-CODE intendant'' @ emdash
          @ ''reference harness (InMemoryClaudeProcess), gate-only mediation (the harness executes its own tools).''))
        (go None))"

definition choose_codex ::
    "('sk, 'pk, 'c, 'b, 'd, 'i) run_deps \<Rightarrow> run_args \<Rightarrow> (('c, 'b, 'd) run_state, (string \<times> string) option) step" where
  "choose_codex N opts =
     (let env = ho_env (rn_host N) in
      if env ''AGP_CODEX_LIVE'' = Some ''1'' then
        (case run_target env opts of
           None \<Rightarrow> refuse (target_missing ''AGP_CODEX_LIVE'')
         | Some (task, repo) \<Rightarrow>
             act_seq (say (''agp run: CODEX LIVE'' @ emdash @ ''spawning real codex on '' @ repo @ ''; tool calls gated via ''
                 @ rn_socketPath N @ ''. NOTE: codex interception is PROVISIONAL / operator-validated (045-AT-ADR).''))
               (go (Some (task, repo))))
      else act_seq (say (''agp run: CODEX intendant'' @ emdash
          @ ''reference harness (InMemoryCodexProcess), gate-only mediation (the harness executes its own tools).''))
        (go None))"

definition run_live_branch ::
    "('sk, 'pk, 'c, 'b, 'd, 'i) run_deps \<Rightarrow> 'sk run_plan \<Rightarrow> (('c, 'b, 'd) run_state, 't) step \<Rightarrow>
     ('t \<Rightarrow> 'i runnable_intendant) \<Rightarrow> (('c, 'b, 'd) run_state, int) run" where
  "run_live_branch N plan pick intendant =
     run_bind (run_act pick) (\<lambda>r. case r of
         Inl n \<Rightarrow> run_act (act_ret n)
       | Inr target \<Rightarrow>
           run_bind (in_session (rn_harness N) (runLive (run_daemon N plan) (intendant target) (run_options_of N plan)))
             (\<lambda>result. run_act (run_report N plan ''gated tool call(s)'' ''tool call(s) gated'' live_line result)))"

definition run_scripted_branch :: "('sk, 'pk, 'c, 'b, 'd, 'i) run_deps \<Rightarrow> 'sk run_plan \<Rightarrow> (('c, 'b, 'd) run_state, int) run" where
  "run_scripted_branch N plan =
     run_bind (in_session \<lparr>sc_handler = False, sc_delivered = []\<rparr>
         (run_act (runScripted (run_daemon N plan) (rn_script N) (run_options_of N plan))))
       (\<lambda>result. run_act (run_report N plan ''tool call(s)'' ''tool call(s)'' scripted_line result))"

definition run_intendant :: "environment \<Rightarrow> run_args \<Rightarrow> string" where
  "run_intendant env opts = (case ra_intendant opts of Some i \<Rightarrow> i
     | None \<Rightarrow> (case env ''AGP_INTENDANT'' of Some i \<Rightarrow> i | None \<Rightarrow> ''scripted''))"

definition runCommand :: "('sk, 'pk, 'c, 'b, 'd, 'i) run_deps \<Rightarrow> run_args \<Rightarrow> (('c, 'b, 'd) run_state, int) run" where
  "runCommand N opts =
     run_bind (run_act (run_select (rn_lib N) (rn_host N) (rn_entries N) (rn_docker N) (rn_dial N))) (\<lambda>r. case r of
         Inl n \<Rightarrow> run_act (act_ret n)
       | Inr plan \<Rightarrow>
           run_bind (run_act (run_recover N plan)) (\<lambda>_.
             let intendant = run_intendant (ho_env (rn_host N)) opts in
             if intendant = ''claude-code'' then run_live_branch N plan (choose_claude N opts) (rn_claude N)
             else if intendant = ''codex'' then run_live_branch N plan (choose_codex N opts) (rn_codex N)
             else run_scripted_branch N plan))"

section \<open>What a selection has checked\<close>

lemma step_Go:
  "then_step m f s = (Inr (Inr y), s'') \<longleftrightarrow> (\<exists>x s'. m s = (Inr (Inr x), s') \<and> f x s' = (Inr (Inr y), s''))"
proof
  assume "then_step m f s = (Inr (Inr y), s'')"
  then obtain r s' where "m s = (Inr r, s')" "(case r of Inl n \<Rightarrow> act_ret (Inl n) | Inr x \<Rightarrow> f x) s' = (Inr (Inr y), s'')"
    unfolding then_step_def act_bind_eq_Inr by blast
  then show "\<exists>x s'. m s = (Inr (Inr x), s') \<and> f x s' = (Inr (Inr y), s'')" by (cases r) (auto simp: act_ret_def)
qed (auto simp: then_step_def act_bind_def)

lemma step_GoE:
  assumes "then_step m f s = (Inr (Inr y), s'')"
  obtains x s' where "m s = (Inr (Inr x), s')" "f x s' = (Inr (Inr y), s'')"
  using assms unfolding step_Go by blast

lemma go_Go: "go x s = (Inr (Inr y), s') \<longleftrightarrow> x = y \<and> s' = s"
  by (auto simp: go_def act_ret_def)

lemma refuse_Go: "refuse l s \<noteq> (Inr (Inr y), s')"
  by (auto simp: refuse_def say_def act_defs)

lemma say_go: "act_seq (say l) (go x) s = (Inr (Inr y), s') \<longleftrightarrow> x = y \<and> s' = s\<lparr>co_out := co_out s @ [l]\<rparr>"
  by (auto simp: go_def say_def act_defs)

lemmas selection = step_Go go_Go refuse_Go say_go act_lift_eq act_bind_eq_Inr

lemma load_key_Go: "load_key L H s = (Inr (Inr key), s') \<Longrightarrow> s' = s
   \<and> (\<exists>pem. ho_files H (ap_signingKey (host_paths H)) = Some pem \<and> loadPrivateKey L pem = Inr key)"
  by (auto simp: load_key_def Let_def selection split: option.splits if_splits sum.splits)

lemma load_policy_Go: "load_policy H s = (Inr (Inr rules), s') \<Longrightarrow> s' = s
   \<and> loadPolicyFile (ho_explain H) (ap_policy (host_paths H)) (ho_files H (ap_policy (host_paths H))) = Inr rules"
  by (auto simp: load_policy_def Let_def selection split: sum.splits)

lemma probe_docker_ok:
  "probe_docker H run w = (Inr a, w') \<Longrightarrow> pa_ok a \<Longrightarrow> \<exists>r. dk_calls w' = dk_calls w @ [([''info''], Inr r)] \<and> er_exitCode r = 0"
  by (auto simp: probe_docker_def act_bind_eq_Inr act_ret_def dest!: docker_run_calls split: if_splits)

lemma choose_sandbox_Go:
  assumes "choose_sandbox H run s = (Inr (Inr (c, img)), s')"
  shows "co_receiver s' = co_receiver s \<and> (if ho_env H ''AGP_SANDBOX'' = Some ''docker''
    then c = ChooseDocker \<and> (\<exists>i r. img = Some i \<and> i \<noteq> [] \<and> ho_env H ''AGP_SANDBOX_IMAGE'' = Some i
      \<and> dk_calls (co_docker s') = dk_calls (co_docker s) @ [([''info''], Inr r)] \<and> er_exitCode r = 0)
    else c = ChooseRecording \<and> img = None \<and> co_docker s' = co_docker s)"
proof (cases "ho_env H ''AGP_SANDBOX'' = Some ''docker''")
  case True
  obtain a d where p: "probe_docker H run (co_docker s) = (a, d)" by fastforce
  show ?thesis using assms True p
    by (auto simp: choose_sandbox_def on_docker_def selection dest!: probe_docker_ok split: if_splits option.splits)
qed (use assms in \<open>auto simp: choose_sandbox_def selection\<close>)

lemma choose_channel_Go:
  assumes "choose_channel H entries dial s = (Inr (Inr (c, secrets)), s')"
  shows "co_docker s' = co_docker s \<and> (if ho_env H ''AGP_CHANNEL'' = Some ''slack''
    then ho_env H ''AGP_SLACK_LIVE'' = Some ''1'' \<and> co_receiver s' = ReceiverRunning
      \<and> (\<exists>creds. resolveSlackCreds (ho_env H) (loadConfig H) = Inr creds \<and> dial creds = None \<and> c = ChooseSlack creds)
    else c = ChooseConsole \<and> s' = s)"
proof (cases "ho_env H ''AGP_CHANNEL'' = Some ''slack''")
  case True
  then show ?thesis using assms
    by (auto simp: choose_channel_def selection set_receiver_def act_seq_def act_modify_def act_throw_def say_def
      split: if_splits option.splits)
qed (use assms in \<open>auto simp: choose_channel_def selection\<close>)

lemma run_select_facts:
  assumes "run_select L H entries run dial s = (Inr (Inr plan), s')"
  shows "(\<exists>pem. ho_files H (ap_signingKey (host_paths H)) = Some pem \<and> loadPrivateKey L pem = Inr (rp_key plan))
    \<and> loadPolicyFile (ho_explain H) (ap_policy (host_paths H)) (ho_files H (ap_policy (host_paths H))) = Inr (rp_policy plan)
    \<and> (if ho_env H ''AGP_SANDBOX'' = Some ''docker''
       then rp_sandbox plan = ChooseDocker \<and> rp_image plan \<noteq> None \<and> rp_image plan \<noteq> Some []
         \<and> (\<exists>r. dk_calls (co_docker s') = dk_calls (co_docker s) @ [([''info''], Inr r)] \<and> er_exitCode r = 0)
       else rp_sandbox plan = ChooseRecording \<and> co_docker s' = co_docker s)
    \<and> (if ho_env H ''AGP_CHANNEL'' = Some ''slack''
       then ho_env H ''AGP_SLACK_LIVE'' = Some ''1'' \<and> co_receiver s' = ReceiverRunning
         \<and> (\<exists>creds. resolveSlackCreds (ho_env H) (loadConfig H) = Inr creds \<and> rp_channel plan = ChooseSlack creds)
       else rp_channel plan = ChooseConsole \<and> co_receiver s' = co_receiver s)"
proof -
  from assms obtain key s1 where p1: "load_key L H s = (Inr (Inr key), s1)"
    and r1: "then_step (load_policy H) (\<lambda>rules. then_step (choose_sandbox H run) (\<lambda>(sandbox, img).
           then_step (choose_channel H entries dial) (\<lambda>(channel, slackSecrets).
             go \<lparr>rp_key = key, rp_policy = rules, rp_sandbox = sandbox, rp_image = img,
               rp_journalSecrets = knownSecrets entries (ho_env H) [], rp_channel = channel, rp_slackSecrets = slackSecrets\<rparr>))) s1
      = (Inr (Inr plan), s')"
    unfolding run_select_def by (rule step_GoE)
  from r1 obtain rules s2 where p2: "load_policy H s1 = (Inr (Inr rules), s2)"
    and r2: "then_step (choose_sandbox H run) (\<lambda>(sandbox, img).
           then_step (choose_channel H entries dial) (\<lambda>(channel, slackSecrets).
             go \<lparr>rp_key = key, rp_policy = rules, rp_sandbox = sandbox, rp_image = img,
               rp_journalSecrets = knownSecrets entries (ho_env H) [], rp_channel = channel, rp_slackSecrets = slackSecrets\<rparr>)) s2
      = (Inr (Inr plan), s')"
    by (rule step_GoE)
  from r2 obtain ci s3 where p3': "choose_sandbox H run s2 = (Inr (Inr ci), s3)"
    and r3': "(case ci of (sandbox, img) \<Rightarrow> then_step (choose_channel H entries dial) (\<lambda>(channel, slackSecrets).
             go \<lparr>rp_key = key, rp_policy = rules, rp_sandbox = sandbox, rp_image = img,
               rp_journalSecrets = knownSecrets entries (ho_env H) [], rp_channel = channel, rp_slackSecrets = slackSecrets\<rparr>)) s3
      = (Inr (Inr plan), s')"
    by (rule step_GoE)
  obtain c img where ci: "ci = (c, img)" by (cases ci)
  note p3 = p3' [unfolded ci]
  from r3' [unfolded ci prod.case] obtain cs s4 where p4': "choose_channel H entries dial s3 = (Inr (Inr cs), s4)"
    and r4': "(case cs of (channel, slackSecrets) \<Rightarrow>
             go \<lparr>rp_key = key, rp_policy = rules, rp_sandbox = c, rp_image = img,
               rp_journalSecrets = knownSecrets entries (ho_env H) [], rp_channel = channel, rp_slackSecrets = slackSecrets\<rparr>) s4
      = (Inr (Inr plan), s')"
    by (rule step_GoE)
  obtain ch sec where cs: "cs = (ch, sec)" by (cases cs)
  have fin: "s4 = s'" "rp_key plan = key" "rp_policy plan = rules" "rp_sandbox plan = c" "rp_image plan = img" "rp_channel plan = ch"
    using r4' cs by (auto simp: go_Go)
  note p4 = p4' [unfolded cs fin(1)]
  have st: "s1 = s" "s2 = s" using load_key_Go [OF p1] load_policy_Go [OF p2] by auto
  show ?thesis
    using load_key_Go [OF p1] load_policy_Go [OF p2] choose_sandbox_Go [OF p3] choose_channel_Go [OF p4] fin(2-) st
    by (cases "ho_env H ''AGP_SANDBOX'' = Some ''docker''"; cases "ho_env H ''AGP_CHANNEL'' = Some ''slack''") auto
qed

lemma selected_policy:
  "run_select L H entries run dial s = (Inr (Inr plan), s') \<Longrightarrow>
     loadPolicyFile (ho_explain H) (ap_policy (host_paths H)) (ho_files H (ap_policy (host_paths H))) = Inr (rp_policy plan)"
  by (drule run_select_facts) blast

lemma selected_key:
  "run_select L H entries run dial s = (Inr (Inr plan), s') \<Longrightarrow>
     \<exists>pem. ho_files H (ap_signingKey (host_paths H)) = Some pem \<and> loadPrivateKey L pem = Inr (rp_key plan)"
  by (drule run_select_facts) blast

text \<open>
  C18: the checks of a run. A run that comes to build its daemon has read its signing key and its
  policy from the files of the home; a docker sandbox that was asked for was reachable and named an
  image, and nothing falls back to another; Slack that was asked for is live, has its
  credentials and a running receiver.
\<close>

theorem run_select_sound:
  assumes "run_select L H entries run dial s = (Inr (Inr plan), s')"
  shows "(\<exists>pem. ho_files H (ap_signingKey (host_paths H)) = Some pem \<and> loadPrivateKey L pem = Inr (rp_key plan))
    \<and> loadPolicyFile (ho_explain H) (ap_policy (host_paths H)) (ho_files H (ap_policy (host_paths H))) = Inr (rp_policy plan)
    \<and> (if ho_env H ''AGP_SANDBOX'' = Some ''docker''
       then rp_sandbox plan = ChooseDocker \<and> rp_image plan \<noteq> None \<and> rp_image plan \<noteq> Some []
         \<and> (\<exists>r. dk_calls (co_docker s') = dk_calls (co_docker s) @ [([''info''], Inr r)] \<and> er_exitCode r = 0)
       else rp_sandbox plan = ChooseRecording \<and> co_docker s' = co_docker s)
    \<and> (if ho_env H ''AGP_CHANNEL'' = Some ''slack''
       then ho_env H ''AGP_SLACK_LIVE'' = Some ''1'' \<and> co_receiver s' = ReceiverRunning
         \<and> (\<exists>creds. resolveSlackCreds (ho_env H) (loadConfig H) = Inr creds \<and> rp_channel plan = ChooseSlack creds)
       else rp_channel plan = ChooseConsole \<and> co_receiver s' = co_receiver s)"
  by (rule run_select_facts [OF assms])

section \<open>No vault\<close>

text \<open>
  The daemon of a run has no vault, so it can run only commands without placeholders, and these as
  they stand.
\<close>

lemma placeholder_names_of_command:
  "(\<exists>ws. res_map (resolvePlaceholders EMPTY_VAULT) (map JStr cs) = Inr ws) \<Longrightarrow>
     (\<forall>c \<in> set cs. placeholder_names c = []) \<and> res_map (resolvePlaceholders EMPTY_VAULT) (map JStr cs) = Inr (map JStr cs)"
proof (induction cs)
  case (Cons c cs)
  then obtain t where t: "resolveString c EMPTY_VAULT = Inr t" and r: "\<exists>ws. res_map (resolvePlaceholders EMPTY_VAULT) (map JStr cs) = Inr ws"
    by (auto simp: result_simps)
  have "placeholder_names c = []"
    using resolveString_ok [of c EMPTY_VAULT] t by (cases "placeholder_names c") (auto simp: EMPTY_VAULT_def)
  then show ?case using Cons.IH [OF r] resolveString_plain [of c EMPTY_VAULT] by simp
qed simp

lemma run_command_plain:
  assumes "command_of (run_daemon N plan) req = Inr cmd"
  shows "cmd = toCommand req \<and> findPlaceholders (JArr (map JStr (toCommand req))) = []"
proof -
  have v: "daemon_vault (run_daemon N plan) = EMPTY_VAULT" by (simp add: daemon_vault_def run_daemon_def)
  obtain ws where ws: "res_map (resolvePlaceholders EMPTY_VAULT) (map JStr (toCommand req)) = Inr ws" "cmd = as_strings (JArr ws)"
    using assms by (auto simp: command_of_def v result_simps)
  then have p: "\<forall>c \<in> set (toCommand req). placeholder_names c = []" "ws = map JStr (toCommand req)"
    using placeholder_names_of_command [of "toCommand req"] by auto
  have "cmd = toCommand req" using ws(2) p(2) by (simp add: comp_def)
  moreover have "concat (map placeholder_names (value_strings (JArr (map JStr (toCommand req))))) = []"
    using p(1) by (auto simp: comp_def)
  ultimately show ?thesis by (simp only: findPlaceholders_def first_seen.simps)
qed

section \<open>Relations on the world of a run\<close>

text \<open>
  A relation between worlds that looks at the journal and the log only is kept by everything a run
  does besides the recovery and the session, so a run keeps it when these two do.
\<close>

definition lifted :: "((string option, 'c, 'b, unit) world \<Rightarrow> (string option, 'c, 'b, unit) world \<Rightarrow> bool) \<Rightarrow>
    ('c, 'b, 'd) run_state \<Rightarrow> ('c, 'b, 'd) run_state \<Rightarrow> bool" where
  "lifted W s s' \<longleftrightarrow> W (rs_world s) (rs_world s')"

locale run_effects = effect_order W
  for W :: "(string option, 'c, 'b, unit) world \<Rightarrow> (string option, 'c, 'b, unit) world \<Rightarrow> bool" +
  assumes W_quiet: "w_journal w' = w_journal w \<Longrightarrow> w_log w' = w_log w \<Longrightarrow> W w w'"
begin

sublocale lift: effect_order "lifted W"
  by unfold_locales (auto simp: lifted_def R_refl intro: R_trans)

lemma say_kept: "act_within (lifted W) (say l)"
  by (rule act_withinI) (auto simp: say_def act_modify_def lifted_def R_refl)

lemma say_all_kept: "act_within (lifted W) (say_all ls)"
  by (induction ls) (auto intro!: lift.within_intros say_kept)

lemma on_relay_kept: "act_within (lifted W) (on_relay m)"
  by (rule act_withinI) (auto simp: on_relay_def lifted_def intro: W_quiet split: prod.splits)

lemma on_world_kept: "act_within W m \<Longrightarrow> act_within (lifted W) (on_world m)"
  by (rule act_withinI) (auto simp: on_world_def lifted_def dest: act_withinD split: prod.splits)

lemma in_session_kept:
  assumes "run_within (\<lambda>w w'. W (with_intendant () w) (with_intendant () w')) m"
  shows "run_within (lifted W) (in_session i m)"
  unfolding run_within_def
proof (intro allI impI)
  fix s r s' assume "in_session i m s = Some (r, s')"
  then obtain w where w: "m (with_intendant i (rs_world s)) = Some (r, w)" "s' = s\<lparr>rs_world := with_intendant () w\<rparr>"
    by (auto simp: in_session_def split: option.splits prod.splits)
  have "W (with_intendant () (with_intendant i (rs_world s))) (with_intendant () w)"
    using assms w(1) unfolding run_within_def by blast
  moreover have "with_intendant () (with_intendant i (rs_world s)) = rs_world s" by (simp add: with_intendant_def)
  ultimately show "lifted W s s'" using w(2) by (simp add: lifted_def)
qed

lemma recover_kept: "act_within W (recoverSessions (run_daemon N plan)) \<Longrightarrow> act_within (lifted W) (run_recover N plan)"
  unfolding run_recover_def
  by (intro lift.within_bind lift.within_seq on_world_kept on_relay_kept) (auto intro: say_kept lift.within_ret)

lemma report_kept: "act_within (lifted W) (run_report N plan a b f res)"
proof -
  have "act_within (lifted W) (act_modify (\<lambda>s. if co_receiver s = NoReceiver then s else s\<lparr>co_receiver := x\<rparr>))" for x
    by (rule act_withinI) (auto simp: act_modify_def lifted_def R_refl)
  then show ?thesis
    unfolding run_report_def by (intro lift.within_seq on_relay_kept say_all_kept lift.within_ret)
qed

lemma choose_kept: "act_within (lifted W) (choose_claude N opts)" "act_within (lifted W) (choose_codex N opts)"
proof -
  have "act_within (lifted W) (refuse l)" "act_within (lifted W) (act_seq (say l) (go x))" for l and x :: 'x
    unfolding refuse_def go_def by (intro lift.within_seq say_kept lift.within_ret)+
  then show "act_within (lifted W) (choose_claude N opts)" "act_within (lifted W) (choose_codex N opts)"
    by (auto simp: choose_claude_def choose_codex_def Let_def refuse_def go_def
      intro!: lift.within_seq say_kept lift.within_ret split: option.split)
qed

lemma command_kept:
  assumes "act_within W (recoverSessions (run_daemon N plan))"
    and "\<And>I :: 'i runnable_intendant. run_within (\<lambda>w w'. W (with_intendant () w) (with_intendant () w'))
      (runLive (run_daemon N plan) I (run_options_of N plan))"
    and "act_within (\<lambda>w w'. W (with_intendant () w) (with_intendant () w'))
      (runScripted (run_daemon N plan) (rn_script N) (run_options_of N plan))"
  shows "run_within (lifted W) (run_bind (run_act (run_recover N plan)) (\<lambda>_.
             let intendant = run_intendant (ho_env (rn_host N)) opts in
             if intendant = ''claude-code'' then run_live_branch N plan (choose_claude N opts) (rn_claude N)
             else if intendant = ''codex'' then run_live_branch N plan (choose_codex N opts) (rn_codex N)
             else run_scripted_branch (N :: ('sk, 'pk, 'c, 'b, 'd, 'i) run_deps) plan))"
proof -
  have live: "run_within (lifted W) (run_live_branch N plan pick I)" if "act_within (lifted W) pick" for pick I
    unfolding run_live_branch_def
    by (intro lift.run_within_bind run_within_act that)
      (auto intro!: lift.run_within_bind run_within_act lift.within_ret report_kept in_session_kept assms(2) split: sum.split)
  have "run_within (lifted W) (run_scripted_branch N plan)"
    unfolding run_scripted_branch_def
    by (intro lift.run_within_bind run_within_act in_session_kept report_kept assms(3))
  then show ?thesis
    by (intro lift.run_within_bind run_within_act recover_kept assms(1)) (auto simp: Let_def intro: live choose_kept)
qed

end

section \<open>Governed, and the journal kept\<close>

definition sound_step :: "('sk, 'pk, string option, 'c, 'b) daemon \<Rightarrow> ('s, 'e, 'f, 'i) world \<Rightarrow> ('s, 'e, 'f, 'i) world \<Rightarrow> bool" where
  "sound_step D w w' \<longleftrightarrow> (\<exists>t. w_log w' = w_log w @ t \<and> exec_governed D t) \<and> (crypto_ok (dd_lib D) (dd_key D) \<longrightarrow>
     (\<forall>evs. journal_good (dd_lib D) (dd_key D) (w_journal w) evs \<longrightarrow>
        (\<exists>new. journal_good (dd_lib D) (dd_key D) (w_journal w') (evs @ new))))"

lemma sound_stepI: "governs D w w' \<Longrightarrow> keeps_journal D w w' \<Longrightarrow> sound_step D w w'"
  by (simp add: sound_step_def governs_def keeps_journal_def)

lemma with_intendant_simps [simp]:
  "w_log (with_intendant i w) = w_log w" "w_journal (with_intendant i w) = w_journal w"
  by (simp_all add: with_intendant_def)

interpretation sound: run_effects "sound_step D" for D
proof
  show "sound_step D w w'' " if "sound_step D w w'" "sound_step D w' w''" for w w' w''
    using that unfolding sound_step_def by (metis append.assoc exec_governed_append)
  show "sound_step D w w'" if "w_journal w' = w_journal w" "w_log w' = w_log w" for w w'
    using that unfolding sound_step_def by (metis append_Nil2 exec_governed_none list.distinct(1) list.set_cases empty_iff list.set(1))
  show "sound_step D w w" for w
    unfolding sound_step_def by (metis append_Nil2 exec_governed_none empty_iff list.set(1))
qed

lemma gate_governed: "act_within (governs D) (gate D I req)"
proof (rule act_withinI)
  fix w r w' assume "gate D I req w = (r, w')"
  then have "idle w w'" by (rule act_withinD [OF gate_idle])
  then show "governs D w w'" unfolding idle_def by (auto intro: governsI)
qed

lemma sessions_sound:
  "act_within (sound_step D) (recoverSessions D)"
  "run_within (\<lambda>w w'. sound_step D (with_intendant () w) (with_intendant () w')) (runLive D I opts)"
  "act_within (\<lambda>w w'. sound_step D (with_intendant () w) (with_intendant () w')) (runScripted D script opts)"
proof -
  show "act_within (sound_step D) (recoverSessions D)"
    using governed.recoverSessions_within [of D] journal.recoverSessions_within [of D]
    by (auto intro!: act_withinI sound_stepI dest: act_withinD)
  have "run_within (governs D) (runLive D I opts)" "run_within (keeps_journal D) (runLive D I opts)"
    by (rule governed.runLive_within journal.runLive_within, rule gate_governed gate_keeps)+
  then show "run_within (\<lambda>w w'. sound_step D (with_intendant () w) (with_intendant () w')) (runLive D I opts)"
    using sound_stepI unfolding run_within_def sound_step_def by fastforce
  have "act_within (governs D) (runScripted D script opts)" "act_within (keeps_journal D) (runScripted D script opts)"
    by (rule runScripted_within, rule governed.session_effects_axioms journal.session_effects_axioms, rule mediate_governed mediate_keeps)+
  then show "act_within (\<lambda>w w'. sound_step D (with_intendant () w) (with_intendant () w')) (runScripted D script opts)"
    using sound_stepI unfolding act_within_def sound_step_def by fastforce
qed

section \<open>The selection touches no world\<close>

definition same_world :: "('c, 'b, 'd) run_state \<Rightarrow> ('c, 'b, 'd) run_state \<Rightarrow> bool" where
  "same_world s s' \<longleftrightarrow> rs_world s' = rs_world s"

interpretation same_world: effect_order same_world
  by unfold_locales (simp_all add: same_world_def)

lemma console_same:
  "act_within same_world (say l)" "act_within same_world (set_receiver x)" "act_within same_world (on_docker m)"
  by (auto simp: say_def set_receiver_def act_modify_def on_docker_def same_world_def intro!: act_withinI split: prod.splits)

lemma step_same:
  "act_within same_world (go x)" "act_within same_world (refuse l)"
  "act_within same_world m \<Longrightarrow> (\<And>x. act_within same_world (f x)) \<Longrightarrow> act_within same_world (then_step m f)"
  by (auto simp: go_def refuse_def then_step_def intro!: same_world.within_intros console_same split: sum.split)

lemma loads_same: "act_within same_world (load_key L H)" "act_within same_world (load_policy H)"
  by (auto simp: load_key_def load_policy_def Let_def intro!: step_same split: option.split sum.split)

lemma say_go_same: "act_within same_world (act_seq (say l) (go x))"
  by (intro same_world.within_seq console_same step_same)

lemma choose_sandbox_same: "act_within same_world (choose_sandbox H run)"
  unfolding choose_sandbox_def
  by (auto intro!: same_world.within_bind console_same step_same say_go_same split: option.split)

lemma choose_channel_same: "act_within same_world (choose_channel H entries dial)"
  unfolding choose_channel_def
  by (auto intro!: same_world.within_bind same_world.within_lift same_world.within_throw same_world.within_seq console_same step_same
    split: option.split)

lemma select_same: "act_within same_world (run_select L H entries run dial)"
  unfolding run_select_def
  by (intro step_same loads_same) (auto intro!: step_same choose_sandbox_same choose_channel_same)

text \<open>A step that returns an exit code returns one.\<close>

definition exits_one :: "('w, 'a) step \<Rightarrow> bool" where
  "exits_one m \<longleftrightarrow> (\<forall>s n s'. m s = (Inr (Inl n), s') \<longrightarrow> n = 1)"

lemma exits_one_basic: "exits_one (refuse l)" "exits_one (go x)" "exits_one (act_throw e)"
  by (auto simp: exits_one_def refuse_def go_def act_defs say_def)

lemma exits_one_bind: "(\<And>x. exits_one (f x)) \<Longrightarrow> exits_one (act_bind m f)" "exits_one k \<Longrightarrow> exits_one (act_seq m k)"
  by (auto simp: exits_one_def act_seq_def act_bind_eq_Inr)

lemma exits_one_then: "exits_one m \<Longrightarrow> (\<And>x. exits_one (f x)) \<Longrightarrow> exits_one (then_step m f)"
  unfolding exits_one_def then_step_def act_bind_eq_Inr
proof (intro allI impI, elim exE conjE)
  fix s n s' x s1
  assume "m s = (Inr x, s1)" "(case x of Inl n \<Rightarrow> act_ret (Inl n) | Inr x \<Rightarrow> f x) s1 = (Inr (Inl n), s')"
    and "\<forall>s n s'. m s = (Inr (Inl n), s') \<longrightarrow> n = 1" "\<And>x. \<forall>s n s'. f x s = (Inr (Inl n), s') \<longrightarrow> n = 1"
  then show "n = 1" by (cases x) (simp_all add: act_ret_def, metis+)
qed

lemma exits_oneD: "exits_one m \<Longrightarrow> m s = (Inr (Inl n), s') \<Longrightarrow> n = 1"
  unfolding exits_one_def by blast

lemmas exits_one_intros = exits_one_basic exits_one_bind exits_one_then

lemma choices_exit_one:
  "exits_one (choose_claude N opts)" "exits_one (choose_codex N opts)" "exits_one (load_key L H)" "exits_one (load_policy H)"
  "exits_one (choose_sandbox H run)" "exits_one (choose_channel H entries dial)"
  by (auto simp: choose_claude_def choose_codex_def load_key_def load_policy_def choose_sandbox_def choose_channel_def Let_def
    intro!: exits_one_intros split: option.split sum.split)

lemma select_exits_one: "exits_one (run_select L H entries run dial)"
  unfolding run_select_def by (auto intro!: exits_one_then choices_exit_one exits_one_basic)

lemma runCommand_cases:
  assumes "runCommand N opts s = Some (r, s')"
  obtains (stopped) "rs_world s' = rs_world s" "r \<noteq> Inr 0"
  | (ran) plan s1 where "run_select (rn_lib N) (rn_host N) (rn_entries N) (rn_docker N) (rn_dial N) s = (Inr (Inr plan), s1)"
      "rs_world s1 = rs_world s"
      "run_bind (run_act (run_recover N plan)) (\<lambda>_.
             let intendant = run_intendant (ho_env (rn_host N)) opts in
             if intendant = ''claude-code'' then run_live_branch N plan (choose_claude N opts) (rn_claude N)
             else if intendant = ''codex'' then run_live_branch N plan (choose_codex N opts) (rn_codex N)
             else run_scripted_branch N plan) s1 = Some (r, s')"
proof -
  obtain q s1 where sel: "run_select (rn_lib N) (rn_host N) (rn_entries N) (rn_docker N) (rn_dial N) s = (q, s1)" by fastforce
  have same: "rs_world s1 = rs_world s" using act_withinD [OF select_same sel] by (simp add: same_world_def)
  have stop: thesis if np: "\<And>plan. q \<noteq> Inr (Inr plan)"
  proof -
    have "rs_world s' = rs_world s \<and> r \<noteq> Inr 0"
    proof (cases q)
      case (Inl e)
      then show ?thesis using assms sel same by (auto simp: runCommand_def run_bind_def run_act_def)
    next
      case (Inr p)
      then obtain n where n: "q = Inr (Inl n)" using np by (cases p) auto
      then have "n = 1" using select_exits_one sel unfolding exits_one_def by blast
      then show ?thesis using assms sel same n by (auto simp: runCommand_def run_bind_def run_act_def act_ret_def)
    qed
    then show thesis using stopped by blast
  qed
  show thesis
  proof (cases "\<exists>plan. q = Inr (Inr plan)")
    case True
    then obtain plan where q: "q = Inr (Inr plan)" ..
    show thesis
      by (rule ran [OF sel [unfolded q] same]) (use assms sel q in \<open>simp add: runCommand_def run_bind_def run_act_def\<close>)
  qed (use stop in blast)
qed

text \<open>
  C2: nothing that \<open>agp run\<close> executes is ungoverned. Whatever the flags, the environment and the
  collaborators do, each command executed during a run is that of a call on which the policy of the
  home was evaluated and which the policy or a human permitted, its whole record standing right
  before it; and, as no vault is handed to the daemon, it holds no secret placeholder.
\<close>

theorem run_governed:
  assumes "runCommand N opts s = Some (r, s')"
  shows "\<exists>t. w_log (rs_world s') = w_log (rs_world s) @ t \<and> (\<forall>pre h cmd post. t = pre @ Executed h cmd # post \<longrightarrow>
     (\<exists>rules req v d. loadPolicyFile (ho_explain (rn_host N)) (ap_policy (host_paths (rn_host N)))
           (ho_files (rn_host N) (ap_policy (host_paths (rn_host N)))) = Inr rules
        \<and> evaluate rules \<lparr>tc_tool = tcr_tool req, tc_actor = tcr_actor req\<rparr> = Inr v \<and> permitted v d
        \<and> suffix (call_log req v d) pre \<and> cmd = toCommand req \<and> findPlaceholders (JArr (map JStr cmd)) = []))"
  using assms
proof (cases rule: runCommand_cases)
  case (ran plan s1)
  obtain t where t: "w_log (rs_world s') = w_log (rs_world s) @ t" "exec_governed (run_daemon N plan) t"
    using sound.command_kept [OF sessions_sound, of N plan opts] ran(2,3) unfolding run_within_def lifted_def sound_step_def by metis
  have "loadPolicyFile (ho_explain (rn_host N)) (ap_policy (host_paths (rn_host N)))
           (ho_files (rn_host N) (ap_policy (host_paths (rn_host N)))) = Inr (rp_policy plan)"
    by (rule selected_policy [OF ran(1)])
  moreover have "judged (run_daemon N plan) req = evaluate (rp_policy plan) \<lparr>tc_tool = tcr_tool req, tc_actor = tcr_actor req\<rparr>" for req
    by (simp add: judged_def run_daemon_def)
  ultimately show ?thesis using t(1) t(2) [unfolded exec_governed_def]
    by (intro exI [of _ t] conjI t(1) allI impI) (drule spec, drule spec, drule spec, drule spec, drule mp, assumption,
      elim exE conjE, drule run_command_plain, auto)
qed (rule exI [of _ "[]"], simp)

text \<open>A run only ever adds events to a good journal.\<close>

lemma run_keeps_good:
  assumes "runCommand N opts s = Some (r, s')"
    and "\<forall>pem key. ho_files (rn_host N) (ap_signingKey (host_paths (rn_host N))) = Some pem \<longrightarrow>
      loadPrivateKey (rn_lib N) pem = Inr key \<longrightarrow> key = sk"
    and "crypto_ok (rn_lib N) sk" "journal_good (rn_lib N) sk (w_journal (rs_world s)) evs"
  shows "\<exists>new. journal_good (rn_lib N) sk (w_journal (rs_world s')) (evs @ new)"
  using assms(1)
proof (cases rule: runCommand_cases)
  case stopped
  then show ?thesis using assms(4) by (intro exI [of _ "[]"]) simp
next
  case (ran plan s1)
  have "rp_key plan = sk" using selected_key [OF ran(1)] assms(2) by blast
  then show ?thesis
    using sound.command_kept [OF sessions_sound, of N plan opts] ran(2,3) assms(3,4)
    unfolding run_within_def lifted_def sound_step_def by (simp add: run_daemon_def)
qed

text \<open>
  A run keeps the journal. Over a journal that verifies under the key of the home, any run,
  however it ends, leaves a journal that verifies and holds the events before it in front.
\<close>

theorem run_journal_verifies:
  assumes "runCommand N opts s = Some (r, s')"
    and "\<forall>pem key. ho_files (rn_host N) (ap_signingKey (host_paths (rn_host N))) = Some pem \<longrightarrow>
      loadPrivateKey (rn_lib N) pem = Inr key \<longrightarrow> key = sk"
    and "crypto_ok (rn_lib N) sk" "journal_good (rn_lib N) sk (w_journal (rs_world s)) evs"
  shows "\<exists>new. readEvents (rn_lib N) (jf_log (w_journal (rs_world s'))) = Inr (evs @ new)
     \<and> (evs @ new \<noteq> [] \<longrightarrow> verifyJournalFile (rn_lib N) path (w_journal (rs_world s')) (publicKeyFromPrivate (rn_lib N) sk)
          = Inr \<lparr>vr_ok = True, vr_count = length (evs @ new), vr_errors = []\<rparr>)"
proof -
  obtain new where g: "journal_good (rn_lib N) sk (w_journal (rs_world s')) (evs @ new)"
    using run_keeps_good [OF assms] by blast
  then show ?thesis
    using journal_good_verifies [OF g assms(3)] by (intro exI [of _ new]) (simp add: journal_good_def)
qed

section \<open>Enforcing without a manifest\<close>

definition only_records :: "('s, 'c, 'b, 'i) world \<Rightarrow> ('s, 'c, 'b, 'i) world \<Rightarrow> bool" where
  "only_records w w' \<longleftrightarrow> (\<exists>is. w_log w' = w_log w @ map Journaled is)"

interpretation records: run_effects only_records
proof
  show "only_records w w''" if "only_records w w'" "only_records w' w''" for w w' w'' :: "(string option, 'c, 'b, unit) world"
    using that unfolding only_records_def by (metis append.assoc map_append)
qed (auto simp: only_records_def intro: exI [of _ "[]"])

lemma recovery_records: "act_within (only_records :: (string option, 'c, 'b, unit) world \<Rightarrow> _) (recoverSessions D)"
proof -
  let ?R = "only_records :: (string option, 'c, 'b, unit) world \<Rightarrow> _"
  have rec: "act_within ?R (record_event D i)" for i
    by (rule act_withinI) (auto simp: record_event_def Let_def noted_def only_records_def intro: exI [of _ "[i]"] exI [of _ "[]"]
      split: prod.splits sum.splits)
  have "act_within ?R (record_all D is)" for "is"
    by (induction "is") (auto intro!: records.within_intros rec)
  moreover have "act_within ?R (with_store D m)" for m
    by (rule act_withinI) (auto simp: with_store_def only_records_def intro: exI [of _ "[]"] split: prod.splits)
  ultimately show ?thesis
    by (auto simp: recoverSessions_def intro!: records.within_intros split: option.split)
qed

text \<open>No run names a manifest, so an enforcing daemon refuses every session of a run.\<close>

lemma run_refuses:
  assumes "run_identityMode (ho_env (rn_host N)) = mode_enforce"
  shows "runLive (run_daemon N plan) I (run_options_of N plan) w = Some (r, w') \<Longrightarrow>
      (\<exists>is. w_log w' = w_log w @ map Journaled is) \<and> (\<forall>res. r = Inr res \<longrightarrow> res = refused_session (rn_sessionId N))"
    "runScripted (run_daemon N plan) script (run_options_of N plan) v = (r, v') \<Longrightarrow>
      (\<exists>is. w_log v' = w_log v @ map Journaled is) \<and> (\<forall>res. r = Inr res \<longrightarrow> res = refused_session (rn_sessionId N))"
proof -
  have g: "gateIdentity (run_daemon N plan) i sid (run_options_of N plan) = verify_failed (run_daemon N plan) sid ''no-verification-material''"
    for i sid using assms by (simp add: gateIdentity_def run_daemon_def run_options_of_def)
  have m: "dd_identityMode (run_daemon N plan) = mode_enforce" "dd_tenantContext (run_daemon N plan) = defaultTenantContext"
    using assms by (simp_all add: run_daemon_def)
  let ?D = "run_daemon N plan"
  let ?e = "event_input ''intendant.verify.failed'' session_owner [(''sessionId'', JStr (rn_sessionId N)),
     (''reason'', JStr ''no-verification-material''), (''mode'', JStr ''enforce'')]"
  have rec: "\<exists>is. w_log u' = w_log u @ map Journaled is" if "record_event ?D i u = (q, u')" for i u u' q
    using that by (auto simp: record_event_def Let_def noted_def intro: exI [of _ "[i]"] exI [of _ "[]"] split: prod.splits sum.splits)
  have v: "verify_failed ?D (rn_sessionId N) ''no-verification-material'' u =
      (case record_event ?D ?e u of (Inl e, u') \<Rightarrow> (Inl e, u') | (Inr _, u') \<Rightarrow> (Inr (False, None), u'))" for u
    by (simp add: verify_failed_def m act_seq_def act_bind_def act_ret_def split: prod.split sum.split)
  have sid: "ro_sessionId (run_options_of N plan) = rn_sessionId N" by (simp add: run_options_of_def)
  show "(\<exists>is. w_log w' = w_log w @ map Journaled is) \<and> (\<forall>res. r = Inr res \<longrightarrow> res = refused_session (rn_sessionId N))"
    if "runLive ?D I (run_options_of N plan) w = Some (r, w')"
  proof (cases "record_event ?D ?e w")
    case (Pair q u)
    then show ?thesis using that rec [OF Pair]
      by (cases q) (auto simp: runLive_def run_bind_def run_act_def g m v sid act_lift_def act_ret_def)
  qed
  show "(\<exists>is. w_log v' = w_log v @ map Journaled is) \<and> (\<forall>res. r = Inr res \<longrightarrow> res = refused_session (rn_sessionId N))"
    if "runScripted ?D script (run_options_of N plan) v = (r, v')"
  proof (cases "record_event ?D ?e v")
    case (Pair q u)
    let ?g = "gateIdentity ?D (ia_identity ScriptedIntendant) (ro_sessionId (run_options_of N plan)) (run_options_of N plan)"
    show ?thesis
    proof (cases q)
      case (Inl e)
      then have "?g v = (Inl e, u)" by (simp add: g sid v Pair)
      then have "runScripted ?D script (run_options_of N plan) v = (Inl e, u)"
        unfolding runScripted_def m assertTenantContext_default act_seq_lift by (rule act_bind_run(2))
      then show ?thesis using that rec [OF Pair] by auto
    next
      case (Inr x)
      then have "?g v = (Inr (False, None), u)" by (simp add: g sid v Pair)
      then have "runScripted ?D script (run_options_of N plan) v = (Inr (refused_session (rn_sessionId N)), u)"
        unfolding runScripted_def m assertTenantContext_default act_seq_lift by (subst act_bind_run(1)) (auto simp: act_ret_def sid)
      then show ?thesis using that rec [OF Pair] by auto
    qed
  qed
qed

lemma on_relay_out: "on_relay m u = (x, u') \<Longrightarrow> co_out u' = co_out u"
  by (auto simp: on_relay_def split: prod.splits)

definition report_lines :: "('sk, 'pk, 'c, 'b, 'd, 'i) run_deps \<Rightarrow> string \<Rightarrow> string \<Rightarrow> string list" where
  "report_lines N sid printed = [[newline] @ ''session '' @ sid @ emdash @ ''0 '' @ printed @ '':'',
    [newline] @ ''journal: '' @ ap_journal (host_paths (rn_host N)) @ emdash @ ''verify with `agp verify`.'']"

lemma refused_reports:
  assumes "run_report N plan counted printed line (refused_session sid) s = (Inr c, s')"
  shows "co_out s' = co_out s @ report_lines N sid printed"
proof -
  have z: "show_nat 0 = ''0''" by code_simp
  show ?thesis using assms
    by (auto simp: run_report_def refused_session_def act_seq_def act_bind_eq_Inr act_ret_def say_def act_modify_def z report_lines_def dest!: on_relay_out split: if_splits)
qed

lemma refused_live:
  assumes "run_identityMode (ho_env (rn_host N)) = mode_enforce" "exits_one pick"
    and "run_live_branch N plan pick I s = Some (Inr 0, s')"
  shows "\<exists>pre printed. co_out s' = pre @ report_lines N (rn_sessionId N) printed"
proof -
  obtain q s1 where p: "pick s = (q, s1)" by fastforce
  then obtain target where q: "q = Inr (Inr target)"
  proof (cases q)
    case (Inr x)
    then show thesis
    proof (cases x)
      case (Inl n)
      then have "n = 1" using exits_oneD [OF assms(2)] p Inr by blast
      then show thesis using assms(3) p Inr Inl by (simp add: run_live_branch_def run_bind_def run_act_def act_ret_def)
    qed (use that in blast)
  qed (use assms(3) p in \<open>simp add: run_live_branch_def run_bind_def run_act_def\<close>)
  then obtain res s2 where "in_session (rn_harness N) (runLive (run_daemon N plan) (I target) (run_options_of N plan)) s1 = Some (Inr res, s2)"
    and rep: "run_report N plan ''gated tool call(s)'' ''tool call(s) gated'' live_line res s2 = (Inr 0, s')"
    using assms(3) p by (auto simp: run_live_branch_def run_bind_def run_act_def split: option.splits sum.splits)
  then have "res = refused_session (rn_sessionId N)"
    by (auto simp: in_session_def split: option.splits prod.splits dest!: run_refuses(1) [OF assms(1)])
  then show ?thesis using refused_reports rep by blast
qed

lemma refused_scripted:
  assumes "run_identityMode (ho_env (rn_host N)) = mode_enforce" "run_scripted_branch N plan s = Some (Inr 0, s')"
  shows "\<exists>pre printed. co_out s' = pre @ report_lines N (rn_sessionId N) printed"
proof -
  from assms(2) obtain res s2 where "in_session \<lparr>sc_handler = False, sc_delivered = []\<rparr>
         (run_act (runScripted (run_daemon N plan) (rn_script N) (run_options_of N plan))) s = Some (Inr res, s2)"
    and rep: "run_report N plan ''tool call(s)'' ''tool call(s)'' scripted_line res s2 = (Inr 0, s')"
    by (auto simp: run_scripted_branch_def run_bind_def run_act_def split: option.splits sum.splits)
  then have "res = refused_session (rn_sessionId N)"
    using run_refuses(2) [OF assms(1)] by (auto simp: in_session_def run_act_def split: option.splits prod.splits)
  then show ?thesis using refused_reports rep by blast
qed

lemma refused_rest:
  assumes "run_identityMode (ho_env (rn_host N)) = mode_enforce"
    and "run_bind (run_act (run_recover N plan)) (\<lambda>_.
             let intendant = run_intendant (ho_env (rn_host N)) opts in
             if intendant = ''claude-code'' then run_live_branch N plan (choose_claude N opts) (rn_claude N)
             else if intendant = ''codex'' then run_live_branch N plan (choose_codex N opts) (rn_codex N)
             else run_scripted_branch N plan) s1 = Some (Inr 0, s')"
  shows "\<exists>pre printed. co_out s' = pre @ report_lines N (rn_sessionId N) printed"
proof -
  note live = refused_live [OF assms(1)]
  show ?thesis using assms(2)
    by (auto simp: run_bind_def run_act_def Let_def split: prod.splits sum.splits if_splits
      intro: live choices_exit_one refused_scripted [OF assms(1)])
qed



section \<open>Witnesses\<close>

definition run_demo :: "environment \<Rightarrow> (unit, unit, string list, recording list, unit, nat) run_deps" where
  "run_demo env = \<lparr>rn_lib = toy_crypto, rn_host = a_host\<lparr>ho_env := env\<rparr>, rn_entries = [], rn_docker = quiet_docker,
     rn_dial = (\<lambda>_. None), rn_sandbox = (\<lambda>_. RecordingSandbox), rn_channel = (\<lambda>_ _. ConsoleChannel []),
     rn_claude = (\<lambda>_. counting), rn_codex = (\<lambda>_. counting), rn_harness = 1, rn_script = default_script,
     rn_instanceId = ''d1'', rn_sessionId = ''s1'', rn_socketPath = ''/tmp/a/gate.sock'', rn_agpRepoPath = ''/agp'', rn_stamp = (\<lambda>_. ''t''), rn_nowMs = (\<lambda>n. n),
     rn_now = (\<lambda>_. ''t''), rn_genId = show_nat\<rparr>"

definition run_start :: "(string list, recording list, unit) run_state" where
  "run_start = \<lparr>co_docker = idle_docker, co_out = [], co_receiver = NoReceiver,
     rs_world = \<lparr>w_journal = no_files, w_store = None, w_channel = [], w_sandbox = [], w_intendant = (), w_stamps = 0, w_ticks = 0,
       w_log = []\<rparr>, rs_outbox = None, rs_ticks = 0, rs_ids = 0\<rparr>"

definition no_args :: run_args where
  "no_args = \<lparr>ra_intendant = None, ra_task = None, ra_repo = None\<rparr>"

lemma in_session_returns: "returns m \<Longrightarrow> returns (in_session i m)"
  unfolding returns_def in_session_def by (auto split: option.split)

text \<open>A run with the scripted intendant always comes to an end.\<close>

lemma scripted_run_returns:
  assumes "run_intendant (ho_env (rn_host N)) opts \<noteq> ''claude-code''" "run_intendant (ho_env (rn_host N)) opts \<noteq> ''codex''"
  shows "returns (runCommand N opts)"
proof -
  have "returns (run_scripted_branch N plan)" for plan
    unfolding run_scripted_branch_def by (intro returns_bind returns_act in_session_returns)
  then show ?thesis
    unfolding runCommand_def Let_def using assms by (auto intro!: returns_bind returns_act split: sum.split)
qed

lemma demo_run: "\<exists>r s'. runCommand (run_demo (Map.empty(''AGP_HOME'' \<mapsto> ''/h''))) no_args run_start = Some (r, s')"
  "\<exists>r s'. runCommand (run_demo (Map.empty(''AGP_HOME'' \<mapsto> ''/h'', ''AGP_IDENTITY_MODE'' \<mapsto> ''enforce''))) no_args run_start = Some (r, s')"
  using scripted_run_returns [of "run_demo (Map.empty(''AGP_HOME'' \<mapsto> ''/h''))" no_args]
    scripted_run_returns [of "run_demo (Map.empty(''AGP_HOME'' \<mapsto> ''/h'', ''AGP_IDENTITY_MODE'' \<mapsto> ''enforce''))" no_args]
  unfolding returns_def by (auto simp: run_intendant_def no_args_def run_demo_def)

lemma run_governed_witness:
  "\<exists>r s' t. runCommand (run_demo (Map.empty(''AGP_HOME'' \<mapsto> ''/h''))) no_args run_start = Some (r, s')
     \<and> w_log (rs_world s') = t \<and> (\<forall>pre h cmd post. t = pre @ Executed h cmd # post \<longrightarrow> (\<exists>req v d. permitted v d \<and> suffix (call_log req v d) pre))"
proof -
  obtain r s' where g: "runCommand (run_demo (Map.empty(''AGP_HOME'' \<mapsto> ''/h''))) no_args run_start = Some (r, s')" using demo_run by blast
  have "w_log (rs_world run_start) = []" by (simp add: run_start_def)
  then show ?thesis using run_governed [OF g] g by (metis append_Nil)
qed

lemma run_journal_verifies_witness:
  "\<exists>r s' new. runCommand (run_demo (Map.empty(''AGP_HOME'' \<mapsto> ''/h''))) no_args run_start = Some (r, s')
     \<and> readEvents toy_crypto (jf_log (w_journal (rs_world s'))) = Inr new"
proof -
  let ?N = "run_demo (Map.empty(''AGP_HOME'' \<mapsto> ''/h''))"
  obtain r s' where g: "runCommand ?N no_args run_start = Some (r, s')" using demo_run by blast
  have "crypto_ok (rn_lib ?N) ()" "journal_good (rn_lib ?N) () (w_journal (rs_world run_start)) []"
    using journal_good_no_files [of toy_crypto] by (simp_all add: run_demo_def run_start_def toy_crypto_ok)
  from run_journal_verifies [OF g _ this] show ?thesis using g by (auto simp: run_demo_def)
qed


lemma run_select_sound_witness:
  "\<exists>plan s'. run_select toy_crypto (a_host\<lparr>ho_env := Map.empty(''AGP_HOME'' \<mapsto> ''/h'', ''AGP_SANDBOX'' \<mapsto> ''docker'', ''AGP_SANDBOX_IMAGE'' \<mapsto> ''i:1'')\<rparr>) []
      quiet_docker (\<lambda>_. None) run_start = (Inr (Inr plan), s') \<and> rp_sandbox plan = ChooseDocker
    \<and> (\<exists>r. dk_calls (co_docker s') = [([''info''], Inr r)] \<and> er_exitCode r = 0)"
proof -
  let ?H = "a_host\<lparr>ho_env := Map.empty(''AGP_HOME'' \<mapsto> ''/h'', ''AGP_SANDBOX'' \<mapsto> ''docker'', ''AGP_SANDBOX_IMAGE'' \<mapsto> ''i:1'')\<rparr>"
  have "case run_select toy_crypto ?H [] quiet_docker (\<lambda>_. None) run_start of (Inr (Inr plan), s') \<Rightarrow> True | _ \<Rightarrow> False" by code_simp
  then obtain plan s' where g: "run_select toy_crypto ?H [] quiet_docker (\<lambda>_. None) run_start = (Inr (Inr plan), s')"
    by (auto split: prod.splits sum.splits)
  show ?thesis using run_select_sound [OF g] g by (auto simp: run_start_def idle_docker_def)
qed

end
