(* ===== verification/Home.thy ===== *)
theory Home
  imports RunCommand Cli
begin

text \<open>
  The life of a configuration home: the commands \<open>init\<close>, \<open>keygen\<close>, \<open>run\<close> and \<open>verify\<close> of \<open>agp\<close> over one map of
  files. A run finds its journal, its leases and its outbox in the files the commands before it left, and leaves
  its own there.
\<close>

section \<open>A run over the files of the home\<close>

definition sessions_file :: "agp_paths \<Rightarrow> string" where
  "sessions_file paths = path_join [ap_home paths, ''sessions.json'']"

definition outbox_file :: "agp_paths \<Rightarrow> string" where
  "outbox_file paths = path_join [ap_home paths, ''outbox.json'']"

definition read_home :: "agp_paths \<Rightarrow> files \<Rightarrow> ('c, 'b, 'd) run_state \<Rightarrow> ('c, 'b, 'd) run_state" where
  "read_home paths F s = s\<lparr>rs_world := (rs_world s)\<lparr>w_journal := journal_at F (ap_journal paths), w_store := F (sessions_file paths)\<rparr>,
     rs_outbox := F (outbox_file paths)\<rparr>"

definition write_home :: "agp_paths \<Rightarrow> ('c, 'b, 'd) run_state \<Rightarrow> files \<Rightarrow> files" where
  "write_home paths s F = F(ap_journal paths := jf_log (w_journal (rs_world s)),
     headPath (ap_journal paths) := jf_head (w_journal (rs_world s)),
     sessions_file paths := w_store (rs_world s), outbox_file paths := rs_outbox s)"

definition home_run ::
    "('sk, 'pk, 'c, 'b, 'd, 'i) run_deps \<Rightarrow> run_args \<Rightarrow> ('c, 'b, 'd) run_state \<Rightarrow> files \<Rightarrow> (int result \<times> files) option" where
  "home_run N opts s F =
     (let paths = host_paths (rn_host N) in
      case runCommand (N\<lparr>rn_host := (rn_host N)\<lparr>ho_files := F\<rparr>\<rparr>) opts (read_home paths F s) of
        None \<Rightarrow> None
      | Some (r, s') \<Rightarrow> Some (r, write_home paths s' F))"

text \<open>The commands that write; a run that does not end leaves no home.\<close>

datatype ('n, 's) home_command =
    DoInit bool
  | DoKeygen bool "string \<times> string" nat
  | DoRun 'n run_args 's

fun home_do :: "string \<Rightarrow> environment \<Rightarrow> (('sk, 'pk, 'c, 'b, 'd, 'i) run_deps, ('c, 'b, 'd) run_state) home_command \<Rightarrow>
    files \<Rightarrow> files option" where
  "home_do hm env (DoInit force) F = Some (in_files (initCommand hm env force F))"
| "home_do hm env (DoKeygen force pems stamp) F = Some (kg_files (keygenCommand (resolvePaths hm env) force pems stamp F))"
| "home_do hm env (DoRun N opts s) F = map_option snd (home_run N opts s F)"

fun home_life :: "string \<Rightarrow> environment \<Rightarrow> (('sk, 'pk, 'c, 'b, 'd, 'i) run_deps, ('c, 'b, 'd) run_state) home_command list \<Rightarrow>
    files \<Rightarrow> files option" where
  "home_life hm env [] F = Some F"
| "home_life hm env (c # cs) F = (case home_do hm env c F of None \<Rightarrow> None | Some F' \<Rightarrow> home_life hm env cs F')"

section \<open>The files do not overlap\<close>

lemma home_ends:
  assumes "paths = resolvePaths hm env"
  shows "last (ap_signingKey paths) = CHR ''y''" "last (ap_signingPubKey paths) = CHR ''b''"
    "last (ap_journal paths) = CHR ''g''" "last (headPath (ap_journal paths)) = CHR ''d''"
    "last (ap_config paths) = CHR ''n''" "last (ap_policy paths) = CHR ''n''"
    "last (sessions_file paths) = CHR ''n''" "last (outbox_file paths) = CHR ''n''"
proof -
  obtain base where "ap_signingKey paths = base @ ''journal-ed25519.key''" "ap_signingPubKey paths = base @ ''journal-ed25519.pub''"
    using key_paths assms by blast
  then show "last (ap_signingKey paths) = CHR ''y''" "last (ap_signingPubKey paths) = CHR ''b''" by simp_all
  obtain b where b: "\<And>f. plain_name f \<Longrightarrow> path_join ([ap_home paths] @ [f]) = b @ f" using path_join_name by blast
  have "plain_name ''audit.log''" "plain_name ''config.json''" "plain_name ''policy.json''" "plain_name ''sessions.json''" "plain_name ''outbox.json''"
    by (simp_all add: plain_name_def)
  then have "ap_journal paths = b @ ''audit.log''" "ap_config paths = b @ ''config.json''" "ap_policy paths = b @ ''policy.json''"
    "sessions_file paths = b @ ''sessions.json''" "outbox_file paths = b @ ''outbox.json''"
    using b assms by (auto simp: resolvePaths_def Let_def sessions_file_def outbox_file_def)
  then show "last (ap_journal paths) = CHR ''g''" "last (headPath (ap_journal paths)) = CHR ''d''"
    "last (ap_config paths) = CHR ''n''" "last (ap_policy paths) = CHR ''n''"
    "last (sessions_file paths) = CHR ''n''" "last (outbox_file paths) = CHR ''n''" by (simp_all add: headPath_def)
qed

lemma ends_differ: "last x \<noteq> last y \<Longrightarrow> x \<noteq> y" by blast

section \<open>What a home keeps\<close>

definition home_ok :: "('sk, 'pk) crypto_lib \<Rightarrow> 'sk \<Rightarrow> agp_paths \<Rightarrow> files \<Rightarrow> journal_event list \<Rightarrow> bool" where
  "home_ok L sk paths F evs \<longleftrightarrow> (\<exists>pem. F (ap_signingKey paths) = Some pem \<and> loadPrivateKey L pem = Inr sk)
     \<and> (\<exists>pem. F (ap_signingPubKey paths) = Some pem \<and> loadPublicKey L pem = Inr (publicKeyFromPrivate L sk))
     \<and> journal_good L sk (journal_at F (ap_journal paths)) evs"

text \<open>A command of the operator that does not replace the key, and runs this home.\<close>

fun keeps_key :: "('sk, 'pk) crypto_lib \<Rightarrow> agp_paths \<Rightarrow> (('sk, 'pk, 'c, 'b, 'd, 'i) run_deps, ('c, 'b, 'd) run_state) home_command \<Rightarrow> bool" where
  "keeps_key L paths (DoInit force) = True"
| "keeps_key L paths (DoKeygen force pems stamp) = (\<not> force)"
| "keeps_key L paths (DoRun N opts s) = (rn_lib N = L \<and> host_paths (rn_host N) = paths)"

lemma init_files_other: "p \<notin> fst ` set xs \<Longrightarrow> fst (init_files force xs F) p = F p"
  by (induction force xs F rule: init_files.induct) (auto split: prod.splits)

lemma home_step_ok:
  assumes paths: "paths = resolvePaths hm env" and "crypto_ok L sk" "home_ok L sk paths F evs" "keeps_key L paths c" "home_do hm env c F = Some F'"
  shows "\<exists>new. home_ok L sk paths F' (evs @ new)"
proof (cases c)
  case (DoInit force)
  have "F' p = F p" if "last p \<noteq> CHR ''n''" for p
  proof -
    have "p \<notin> fst ` set [(ap_config paths, CONFIG_SKELETON), (ap_policy paths, POLICY_SKELETON)]"
      using that home_ends(5,6) [OF paths] by auto
    from init_files_other [OF this, of force F] show ?thesis
      using assms(5) DoInit paths by (auto simp: initCommand_def Let_def split: prod.splits)
  qed
  then have "F' (ap_signingKey paths) = F (ap_signingKey paths)" "F' (ap_signingPubKey paths) = F (ap_signingPubKey paths)"
    "F' (ap_journal paths) = F (ap_journal paths)" "F' (headPath (ap_journal paths)) = F (headPath (ap_journal paths))"
    using home_ends [OF paths] by simp_all
  then show ?thesis using assms(3) by (intro exI [of _ "[]"]) (simp add: home_ok_def journal_at_def)
next
  case (DoKeygen force pems stamp)
  then have "F' = F" using assms(3-5) paths by (auto simp: keygenCommand_def home_ok_def Let_def)
  then show ?thesis using assms(3) by (intro exI [of _ "[]"]) simp
next
  case (DoRun N opts s)
  let ?N = "N\<lparr>rn_host := (rn_host N)\<lparr>ho_files := F\<rparr>\<rparr>"
  have N: "rn_lib N = L" "host_paths (rn_host N) = paths" using assms(4) DoRun by simp_all
  then have H: "host_paths (rn_host ?N) = paths" by (simp add: host_paths_def)
  obtain r s' where run: "runCommand ?N opts (read_home paths F s) = Some (r, s')" and F': "F' = write_home paths s' F"
    using assms(5) DoRun N by (auto simp: home_run_def Let_def split: option.splits prod.splits)
  obtain pem where pem: "F (ap_signingKey paths) = Some pem" "loadPrivateKey L pem = Inr sk" using assms(3) by (auto simp: home_ok_def)
  have "\<forall>pem key. ho_files (rn_host ?N) (ap_signingKey (host_paths (rn_host ?N))) = Some pem \<longrightarrow>
      loadPrivateKey (rn_lib ?N) pem = Inr key \<longrightarrow> key = sk" using pem N unfolding H by simp
  moreover have "crypto_ok (rn_lib ?N) sk" "journal_good (rn_lib ?N) sk (w_journal (rs_world (read_home paths F s))) evs"
    using assms(2,3) N by (simp_all add: home_ok_def read_home_def)
  ultimately obtain new where g: "journal_good L sk (w_journal (rs_world s')) (evs @ new)"
    using run_keeps_good [OF run, of sk evs] N by auto
  note ends = home_ends [OF paths]
  have "journal_at F' (ap_journal paths) = w_journal (rs_world s')"
    using ends unfolding F' journal_at_def write_home_def by (auto dest!: arg_cong [where f = last])
  moreover have "F' (ap_signingKey paths) = F (ap_signingKey paths)" "F' (ap_signingPubKey paths) = F (ap_signingPubKey paths)"
    using ends unfolding F' write_home_def by (auto dest!: arg_cong [where f = last])
  ultimately show ?thesis using g assms(3) by (intro exI [of _ new]) (simp add: home_ok_def)
qed

lemma home_life_ok:
  assumes "paths = resolvePaths hm env" "crypto_ok L sk"
  shows "home_ok L sk paths F evs \<Longrightarrow> \<forall>c \<in> set cs. keeps_key L paths c \<Longrightarrow> home_life hm env cs F = Some F' \<Longrightarrow>
    \<exists>new. home_ok L sk paths F' (evs @ new)"
proof (induction cs arbitrary: F evs)
  case Nil
  then show ?case by (intro exI [of _ "[]"]) simp
next
  case (Cons c cs)
  obtain F1 where F1: "home_do hm env c F = Some F1" "home_life hm env cs F1 = Some F'"
    using Cons.prems(3) by (auto split: option.splits)
  obtain new where "home_ok L sk paths F1 (evs @ new)" using home_step_ok [OF assms Cons.prems(1) _ F1(1)] Cons.prems(2) by auto
  from Cons.IH [OF this _ F1(2)] Cons.prems(2) show ?case by auto
qed

section \<open>From keygen to verify\<close>

lemma keygen_fresh:
  "F (ap_signingKey paths) = None \<Longrightarrow>
     kg_files (keygenCommand paths force pems stamp F) = F(ap_signingKey paths \<mapsto> fst pems, ap_signingPubKey paths \<mapsto> snd pems)"
  by (simp add: keygenCommand_def Let_def)

text \<open>
  C3: what \<open>agp run\<close> records, \<open>agp verify\<close> accepts. From a home without key and journal, \<open>agp keygen\<close> and then any
  number of commands, forced or not, but no \<open>keygen --force\<close>: every run, however it is configured and however it
  ends, only adds events to those before it, and when there are any, \<open>agp verify\<close> on that home
  exits with zero and counts every one of them.
\<close>

theorem home_verifies:
  assumes "paths = resolvePaths hm env" "crypto_ok L sk"
    and "loadPrivateKey L (fst pems) = Inr sk" "loadPublicKey L (snd pems) = Inr (publicKeyFromPrivate L sk)"
    and "F0 (ap_signingKey paths) = None" "journal_at F0 (ap_journal paths) = no_files"
    and "home_life hm env (DoKeygen force pems stamp # before) F0 = Some F1" "home_life hm env after F1 = Some F"
    and "\<forall>c \<in> set before \<union> set after. keeps_key L paths c" "ho_files H = F" "host_paths H = paths"
  shows "\<exists>evs new. readEvents L (F1 (ap_journal paths)) = Inr evs \<and> readEvents L (F (ap_journal paths)) = Inr (evs @ new)
    \<and> (evs @ new \<noteq> [] \<longrightarrow> verifyCommand L H [] = Inr (0,
        [''agp verify: '' @ show_nat (length (evs @ new)) @ '' event(s) in '' @ ap_journal paths,
         check_mark @ '' journal intact'' @ emdash @ ''chain, signatures, and signed head verified.'']))"
proof -
  let ?K = "F0(ap_signingKey paths \<mapsto> fst pems, ap_signingPubKey paths \<mapsto> snd pems)"
  note ends = home_ends [OF assms(1)]
  have K: "home_do hm env (DoKeygen force pems stamp) F0 = Some ?K"
    using keygen_fresh assms(5) unfolding assms(1) by simp
  have "journal_at ?K (ap_journal paths) = no_files"
    using assms(6) ends unfolding journal_at_def by (auto dest!: arg_cong [where f = last])
  moreover have "ap_signingKey paths \<noteq> ap_signingPubKey paths" using ends by (auto dest!: arg_cong [where f = last])
  ultimately have "home_ok L sk paths ?K []"
    using assms(3,4) journal_good_no_files by (simp add: home_ok_def)
  from home_life_ok [OF assms(1,2) this, of before F1] assms(7,9) K
  obtain evs where evs: "home_ok L sk paths F1 evs" by auto
  from home_life_ok [OF assms(1,2) this, of after F] assms(8,9)
  obtain new where new: "home_ok L sk paths F (evs @ new)" by auto
  then have g: "journal_good L sk (journal_at F (ap_journal paths)) (evs @ new)" by (simp add: home_ok_def)
  have key: "verification_key L F paths = Some (Inr (publicKeyFromPrivate L sk))" using new by (auto simp: home_ok_def verification_key_def)
  have "readEvents L (F1 (ap_journal paths)) = Inr evs" "readEvents L (F (ap_journal paths)) = Inr (evs @ new)"
    using evs g by (simp_all add: home_ok_def journal_good_def journal_at_def)
  moreover have "verifyCommand L H [] = Inr (0,
        [''agp verify: '' @ show_nat (length (evs @ new)) @ '' event(s) in '' @ ap_journal paths,
         check_mark @ '' journal intact'' @ emdash @ ''chain, signatures, and signed head verified.''])" if "evs @ new \<noteq> []"
    using journal_good_verifies [OF g assms(2) that] key assms(10,11)
    by (simp add: verifyCommand_def journal_argument_def Let_def)
  ultimately show ?thesis by blast
qed

section \<open>Witness\<close>

definition bare_home :: files where
  "bare_home = Map.empty(''/h/policy.json'' \<mapsto> POLICY_SKELETON)"

lemma home_verifies_witness:
  "\<exists>F1 evs. home_life ''/root'' (ho_env a_host) [DoKeygen False (''k'', ''p'') 1, DoRun (run_demo (ho_env a_host)) no_args run_start] bare_home = Some F1
    \<and> readEvents toy_crypto (F1 ''/h/audit.log'') = Inr evs
    \<and> (evs \<noteq> [] \<longrightarrow> (\<exists>out. verifyCommand toy_crypto (a_host\<lparr>ho_files := F1\<rparr>) [] = Inr (0, out)))"
proof -
  let ?env = "ho_env a_host" and ?N = "run_demo (ho_env a_host)"
  have paths: "resolvePaths ''/root'' ?env = \<lparr>ap_home = ''/h'', ap_config = ''/h/config.json'', ap_signingDir = ''/h/signing'',
     ap_signingKey = ''/h/signing/journal-ed25519.key'', ap_signingPubKey = ''/h/signing/journal-ed25519.pub'',
     ap_policy = ''/h/policy.json'', ap_journal = ''/h/audit.log''\<rparr>"
    using a_host_paths by (simp add: host_paths_def a_host_def)
  define K where "K = bare_home(''/h/signing/journal-ed25519.key'' \<mapsto> ''k'', ''/h/signing/journal-ed25519.pub'' \<mapsto> ''p'')"
  have H: "host_paths (rn_host ?N) = resolvePaths ''/root'' ?env" by (simp add: host_paths_def run_demo_def a_host_def)
  have "returns (runCommand (?N\<lparr>rn_host := (rn_host ?N)\<lparr>ho_files := K\<rparr>\<rparr>) no_args)"
    by (rule scripted_run_returns) (simp_all add: run_intendant_def no_args_def run_demo_def a_host_def)
  then obtain r s' where "runCommand (?N\<lparr>rn_host := (rn_host ?N)\<lparr>ho_files := K\<rparr>\<rparr>) no_args (read_home (resolvePaths ''/root'' ?env) K run_start) = Some (r, s')"
    unfolding returns_def by fastforce
  then have run: "home_run ?N no_args run_start K = Some (r, write_home (resolvePaths ''/root'' ?env) s' K)" by (simp add: home_run_def H Let_def)
  have key: "bare_home (ap_signingKey (resolvePaths ''/root'' ?env)) = None" by (simp add: paths bare_home_def)
  have "kg_files (keygenCommand (resolvePaths ''/root'' ?env) False (''k'', ''p'') 1 bare_home) = K"
    unfolding keygen_fresh [where F = bare_home, OF key] by (simp add: paths K_def)
  then have life: "home_life ''/root'' ?env [DoKeygen False (''k'', ''p'') 1, DoRun ?N no_args run_start] bare_home
      = Some (write_home (resolvePaths ''/root'' ?env) s' K)" (is "_ = Some ?F")
    by (simp add: run)
  have "home_life ''/root'' ?env ([] :: ((unit, unit, string list, recording list, unit, nat) run_deps, _) home_command list) ?F = Some ?F" by simp
  moreover have "loadPrivateKey toy_crypto (fst (''k'', ''p'')) = Inr ()"
    "loadPublicKey toy_crypto (snd (''k'', ''p'')) = Inr (publicKeyFromPrivate toy_crypto ())"
    by (simp_all add: loadPrivateKey_def loadPublicKey_def publicKeyFromPrivate_def toy_crypto_def)
  moreover have "journal_at bare_home (ap_journal (resolvePaths ''/root'' ?env)) = no_files"
    by (simp add: paths bare_home_def journal_at_def no_files_def headPath_def)
  moreover have "\<forall>c \<in> set [DoRun ?N no_args run_start] \<union> set []. keeps_key toy_crypto (resolvePaths ''/root'' ?env) c"
    using H by (simp add: run_demo_def)
  moreover have "host_paths (a_host\<lparr>ho_files := ?F\<rparr>) = resolvePaths ''/root'' ?env" by (simp add: host_paths_def a_host_def)
  ultimately obtain evs new where "readEvents toy_crypto (?F ''/h/audit.log'') = Inr (evs @ new)"
      "evs @ new \<noteq> [] \<longrightarrow> (\<exists>out. verifyCommand toy_crypto (a_host\<lparr>ho_files := ?F\<rparr>) [] = Inr (0, out))"
    using home_verifies [OF refl toy_crypto_ok _ _ key _ life, of "[]" ?F "a_host\<lparr>ho_files := ?F\<rparr>"] by (auto simp: paths)
  then show ?thesis using life by blast
qed

end
