(* ===== verification/AuditedClicks.thy ===== *)
theory AuditedClicks
  imports Dialer Demo
begin

text \<open>
  The receiver of a run (\<open>cli/commands/run.ts\<close>) reports the clicks it rejects to the journal the daemon writes.
  The daemon's appends and the events of the socket alternate in any order.
\<close>

section \<open>The report\<close>

definition rejected_event :: "rejected_interaction \<Rightarrow> append_input" where
  "rejected_event r = event_input ''approval.rejected'' session_owner
     [(''reason'', JStr (ri_reason r)), (''nonce'', JStr (ri_nonce r)), (''decidedBy'', JStr (ri_userId r))]"

text \<open>
  An append that throws does so in the listener of the socket, after the receiver is done with the
  frame. The reports of an event are those of the clicks it rejects.
\<close>

definition report_clicks ::
    "('sk, 'pk, 's, 'c, 'b) daemon \<Rightarrow> rejected_interaction list \<Rightarrow> ('s, 'c, 'b, 'i) world \<Rightarrow> ('s, 'c, 'b, 'i) world" where
  "report_clicks D rs w = fold (\<lambda>r w. snd (record_event D (rejected_event r) w)) rs w"

datatype audited_move =
    FromWire wire_event
  | FromDaemon append_input

fun audited_step ::
    "('sk, 'pk, 's, 'c, 'b) daemon \<Rightarrow> audited_move \<Rightarrow> socket_receiver \<times> ('s, 'c, 'b, 'i) world \<Rightarrow>
     socket_receiver \<times> ('s, 'c, 'b, 'i) world" where
  "audited_step D (FromWire e) (s, w) =
     (let s' = wire_step e s in (s', report_clicks D (drop (length (sm_rejected s)) (sm_rejected s')) w))"
| "audited_step D (FromDaemon i) (s, w) = (s, snd (record_event D i w))"

section \<open>What the receiver rejects is kept\<close>

lemma settle_rejected [simp]: "sm_rejected (sm_settle n r s) = sm_rejected s" "sm_rejected (sm_close_entry n r s) = sm_rejected s"
  by (simp_all add: sm_settle_def sm_close_entry_def)

lemma reject_all_rejected [simp]: "sm_rejected (rejectAllPending e s) = sm_rejected s"
proof -
  have "sm_rejected (fold (\<lambda>(_, n). sm_close_entry n (Failed e)) xs t) = sm_rejected t" for xs t
    by (induction xs arbitrary: t) auto
  then show ?thesis by (simp add: rejectAllPending_def)
qed

lemma frame_rejects: "\<exists>new. sm_rejected (handleFrame f s) = sm_rejected s @ new \<and> length new \<le> 1"
  by (auto simp: handleFrame_def Let_def split: option.split)

lemma wire_rejects: "\<exists>new. sm_rejected (wire_step e s) = sm_rejected s @ new \<and> length new \<le> 1"
proof (cases e)
  case (WireMessage d)
  then show ?thesis
    using frame_rejects by (auto simp: socket_message_def act_defs split: option.split sum.split)
qed (auto simp: handleClose_def awaitInteraction_def sm_timeout_def sm_stop_def Let_def split: option.split)

section \<open>The journal holds exactly the rejected clicks\<close>

definition rejections :: "journal_event list \<Rightarrow> json obj list" where
  "rejections evs = map ev_payload (filter (\<lambda>e. ev_kind e = ''approval.rejected'') evs)"

definition reports_pass :: "('sk, 'pk, 's, 'c, 'b) daemon \<Rightarrow> bool" where
  "reports_pass D \<longleftrightarrow> crypto_ok (dd_lib D) (dd_key D) \<and> (\<forall>n. lib_datetime (dd_lib D) (dd_stamp D n))
     \<and> (\<forall>e. ev_kind e = ''approval.rejected'' \<longrightarrow> dd_screen D e = Inr ())"

lemma record_event_good:
  assumes "reports_pass D" "journal_good (dd_lib D) (dd_key D) (w_journal w) evs" "payload_ok (ai_payload i)"
  shows "\<exists>new. journal_good (dd_lib D) (dd_key D) (w_journal (snd (record_event D i w))) (evs @ new)
    \<and> (new = [] \<or> (\<exists>e. new = [e] \<and> ev_kind e = ai_kind i \<and> ev_payload e = ai_payload i))"
proof -
  obtain r J where a: "journal_append (dd_lib D) (dd_key D) (dd_screen D) (dd_stamp D (w_stamps w)) i (w_journal w) = (r, J)" by fastforce
  show ?thesis
  proof (cases r)
    case (Inl err)
    then show ?thesis
      using a append_Inl [of "dd_lib D" "dd_key D" "dd_screen D" "dd_stamp D (w_stamps w)" i "w_journal w" err J] assms(2)
      by (intro exI [of _ "[]"]) (simp add: record_event_def Let_def)
  next
    case (Inr e)
    have "journal_good (dd_lib D) (dd_key D) J (evs @ [e])"
      using append_good [OF assms(2) _ assms(3)] a Inr assms(1) by (auto simp: reports_pass_def)
    then show ?thesis
      using append_fail_closed [OF a] a Inr by (intro exI [of _ "[e]"]) (simp add: record_event_def Let_def noted_def)
  qed
qed

lemma report_recorded:
  assumes "reports_pass D" "journal_good (dd_lib D) (dd_key D) (w_journal w) evs"
  shows "\<exists>e. journal_good (dd_lib D) (dd_key D) (w_journal (snd (record_event D (rejected_event r) w))) (evs @ [e])
    \<and> ev_kind e = ''approval.rejected'' \<and> ev_payload e = ai_payload (rejected_event r)"
proof -
  let ?i = "rejected_event r"
  have i: "ai_kind ?i = ''approval.rejected''" "ai_correlation_id ?i = None" "ai_gsb_receipt_tip_hash ?i = None" "payload_ok (ai_payload ?i)"
    by (simp_all add: rejected_event_def event_input_def payload_ok_def)
  have g: "readEvents (dd_lib D) (jf_log (w_journal w)) = Inr evs" "chain_ok (dd_lib D) (publicKeyFromPrivate (dd_lib D) (dd_key D)) None 1 evs"
    using assms(2) by (simp_all add: journal_good_def)
  obtain e J where a: "journal_append (dd_lib D) (dd_key D) (dd_screen D) (dd_stamp D (w_stamps w)) ?i (w_journal w) = (Inr e, J)"
    using append_possible [OF g, of ?i "dd_stamp D (w_stamps w)" "dd_screen D"] assms(1) i by (auto simp: reports_pass_def)
  have "journal_good (dd_lib D) (dd_key D) J (evs @ [e])"
    using append_good [OF assms(2) _ i(4) a] assms(1) by (simp add: reports_pass_def)
  then show ?thesis using append_fail_closed [OF a] a i(1) by (intro exI [of _ e]) (simp add: record_event_def Let_def noted_def)
qed

lemma reports_recorded:
  assumes "reports_pass D"
  shows "journal_good (dd_lib D) (dd_key D) (w_journal w) evs \<Longrightarrow>
    \<exists>new. journal_good (dd_lib D) (dd_key D) (w_journal (report_clicks D rs w)) (evs @ new)
      \<and> rejections new = map (\<lambda>r. ai_payload (rejected_event r)) rs"
proof (induction rs arbitrary: w evs)
  case Nil
  then show ?case by (intro exI [of _ "[]"]) (simp add: report_clicks_def rejections_def)
next
  case (Cons r rs)
  obtain e where e: "journal_good (dd_lib D) (dd_key D) (w_journal (snd (record_event D (rejected_event r) w))) (evs @ [e])"
    "ev_kind e = ''approval.rejected''" "ev_payload e = ai_payload (rejected_event r)"
    using report_recorded [OF assms Cons.prems] by blast
  obtain new where "journal_good (dd_lib D) (dd_key D) (w_journal (report_clicks D rs (snd (record_event D (rejected_event r) w)))) ((evs @ [e]) @ new)"
    "rejections new = map (\<lambda>r. ai_payload (rejected_event r)) rs" using Cons.IH [OF e(1)] by blast
  then show ?case using e(2,3) by (intro exI [of _ "e # new"]) (simp add: report_clicks_def rejections_def)
qed

definition daemon_records :: "audited_move \<Rightarrow> bool" where
  "daemon_records m = (case m of FromWire _ \<Rightarrow> True
     | FromDaemon i \<Rightarrow> payload_ok (ai_payload i) \<and> ai_kind i \<noteq> ''approval.rejected'')"

text \<open>
  C16: no rejected click goes unrecorded. However the daemon's own appends, failed ones included, and the
  events of the socket alternate, the journal stays one the offline verifier accepts, and its
  records of rejected clicks are exactly the clicks the receiver rejected, in order, each with
  its reason, its nonce and the user who sent it.
\<close>

theorem rejected_clicks_recorded:
  assumes "reports_pass D" "journal_good (dd_lib D) (dd_key D) (w_journal w) evs" "\<forall>m \<in> set ms. daemon_records m"
    and "fold (audited_step D) ms (s, w) = (s', w')"
  shows "\<exists>new clicks. readEvents (dd_lib D) (jf_log (w_journal w')) = Inr (evs @ new) \<and> sm_rejected s' = sm_rejected s @ clicks
    \<and> rejections new = map (\<lambda>r. [(''reason'', JStr (ri_reason r)), (''nonce'', JStr (ri_nonce r)), (''decidedBy'', JStr (ri_userId r))]) clicks
    \<and> (evs @ new \<noteq> [] \<longrightarrow> verifyJournalFile (dd_lib D) path (w_journal w') (publicKeyFromPrivate (dd_lib D) (dd_key D))
          = Inr \<lparr>vr_ok = True, vr_count = length (evs @ new), vr_errors = []\<rparr>)"
proof -
  have "\<exists>new clicks. journal_good (dd_lib D) (dd_key D) (w_journal w') (evs @ new) \<and> sm_rejected s' = sm_rejected s @ clicks
      \<and> rejections new = map (\<lambda>r. ai_payload (rejected_event r)) clicks"
    using assms(2-4)
  proof (induction ms arbitrary: s w evs)
    case Nil
    then show ?case by (intro exI [of _ "[]"]) (simp add: rejections_def)
  next
    case (Cons m ms)
    obtain s1 w1 where m: "audited_step D m (s, w) = (s1, w1)" by fastforce
    have "\<exists>new clicks. journal_good (dd_lib D) (dd_key D) (w_journal w1) (evs @ new) \<and> sm_rejected s1 = sm_rejected s @ clicks
        \<and> rejections new = map (\<lambda>r. ai_payload (rejected_event r)) clicks"
    proof (cases m)
      case (FromWire e)
      obtain clicks where c: "sm_rejected (wire_step e s) = sm_rejected s @ clicks" using wire_rejects by blast
      then show ?thesis using m FromWire reports_recorded [OF assms(1) Cons.prems(1), of clicks] by (auto simp: Let_def)
    next
      case (FromDaemon i)
      then have i: "payload_ok (ai_payload i)" "ai_kind i \<noteq> ''approval.rejected''" using Cons.prems(2) by (simp_all add: daemon_records_def)
      obtain new where "journal_good (dd_lib D) (dd_key D) (w_journal w1) (evs @ new)"
        "new = [] \<or> (\<exists>e. new = [e] \<and> ev_kind e = ai_kind i)"
        using record_event_good [OF assms(1) Cons.prems(1) i(1)] m FromDaemon by auto
      then show ?thesis using m FromDaemon i(2) by (intro exI [of _ new] exI [of _ "[]"]) (auto simp: rejections_def)
    qed
    then obtain new clicks where n: "journal_good (dd_lib D) (dd_key D) (w_journal w1) (evs @ new)" "sm_rejected s1 = sm_rejected s @ clicks"
      "rejections new = map (\<lambda>r. ai_payload (rejected_event r)) clicks" by blast
    obtain new' clicks' where "journal_good (dd_lib D) (dd_key D) (w_journal w') ((evs @ new) @ new')" "sm_rejected s' = sm_rejected s1 @ clicks'"
      "rejections new' = map (\<lambda>r. ai_payload (rejected_event r)) clicks'"
      using Cons.IH [OF n(1), of s1] Cons.prems(2,3) m by auto
    then show ?case using n(2,3) by (intro exI [of _ "new @ new'"] exI [of _ "clicks @ clicks'"]) (simp add: rejections_def)
  qed
  then obtain new clicks where n: "journal_good (dd_lib D) (dd_key D) (w_journal w') (evs @ new)" "sm_rejected s' = sm_rejected s @ clicks"
      "rejections new = map (\<lambda>r. ai_payload (rejected_event r)) clicks" by blast
  have "crypto_ok (dd_lib D) (dd_key D)" using assms(1) by (simp add: reports_pass_def)
  note v = journal_good_verifies [OF n(1) this]
  have "readEvents (dd_lib D) (jf_log (w_journal w')) = Inr (evs @ new)" using n(1) by (simp add: journal_good_def)
  moreover have "rejections new = map (\<lambda>r. [(''reason'', JStr (ri_reason r)), (''nonce'', JStr (ri_nonce r)), (''decidedBy'', JStr (ri_userId r))]) clicks"
    using n(3) by (simp add: rejected_event_def event_input_def)
  ultimately show ?thesis using n(2) v by blast
qed

section \<open>Witness\<close>

definition stray_click :: audited_move where
  "stray_click = FromWire (WireMessage (Some (json_stringify (JObj [(''payload'', approve_click)]))))"

lemma rejected_clicks_recorded_witness:
  "\<exists>s' w' new. fold (audited_step demo) [FromDaemon (event_input ''k'' session_owner []), stray_click] (sm_start receiver, demo_start) = (s', w')
    \<and> readEvents toy_crypto (jf_log (w_journal w')) = Inr new
    \<and> rejections new = [[(''reason'', JStr ''unknown nonce''), (''nonce'', JStr ''n1''), (''decidedBy'', JStr ''U1'')]]"
proof -
  let ?ms = "[FromDaemon (event_input ''k'' session_owner []), stray_click]"
  obtain s' w' where f: "fold (audited_step demo) ?ms (sm_start receiver, demo_start) = (s', w')" by fastforce
  have d: "reports_pass demo" by (simp add: reports_pass_def demo_def toy_crypto_ok toy_datetime)
  have g: "journal_good (dd_lib demo) (dd_key demo) (w_journal demo_start) []"
    using journal_good_no_files [of toy_crypto] by (simp add: demo_def demo_start_def)
  have m: "\<forall>m \<in> set ?ms. daemon_records m" by (simp add: daemon_records_def event_input_def payload_ok_def stray_click_def)
  have p: "json_parse (json_stringify (JObj [(''payload'', approve_click)])) = Some (JObj [(''payload'', approve_click)])"
    by (intro json_parse_stringify) code_simp
  have "json_stringify (JObj [(''payload'', approve_click)]) \<noteq> []" by code_simp
  then have "sm_rejected s' = [\<lparr>ri_reason = ''unknown nonce'', ri_nonce = ''n1'', ri_userId = ''U1''\<rparr>]"
    using f p by (auto simp: stray_click_def socket_message_def json_frame_def act_defs handleFrame_def approve_click_parses
        receiver_def sm_start_def Let_def)
  then show ?thesis
    using rejected_clicks_recorded [OF d g m f, of "[]"] f by (auto simp: demo_def receiver_def sm_start_def)
qed

end
