(* ===== verification/Fixtures.thy ===== *)
theory Fixtures
  imports Contracts
begin

text \<open>
  The schemas of \<open>contracts/\<close> that only name data (\<open>intendant-adapter.ts\<close>, \<open>intendant-manifest.ts\<close>,
  \<open>sandbox-provider.ts\<close>), and the reference examples of \<open>contracts/fixtures.ts\<close>, each with the proof that
  its schema accepts it unchanged.
\<close>

section \<open>Schemas\<close>

definition IntendantManifest :: "intendant_manifest schema" where
  "IntendantManifest = z_object (\<lambda>kvs.
     case (z_min1 (map_of kvs ''name''), z_min1 (map_of kvs ''version'')) of
       (Some n, Some v) \<Rightarrow> Some \<lparr>im_name = n, im_version = v\<rparr>
     | _ \<Rightarrow> None)"

definition IntendantIdentity :: "intendant_identity schema" where
  "IntendantIdentity = z_object (\<lambda>kvs.
     case (z_min1 (map_of kvs ''name''), z_min1 (map_of kvs ''version''),
           z_default None (z_nullable z_string) (map_of kvs ''uri'')) of
       (Some n, Some v, Some u) \<Rightarrow> Some \<lparr>ii_name = n, ii_version = v, ii_uri = u\<rparr>
     | _ \<Rightarrow> None)"

definition SandboxSpec :: "sandbox_spec schema" where
  "SandboxSpec = z_object (\<lambda>kvs.
     case (z_min1 (map_of kvs ''image''), z_min1 (map_of kvs ''sessionId''),
           z_default False z_boolean (map_of kvs ''networkEnabled'')) of
       (Some i, Some s, Some n) \<Rightarrow> Some \<lparr>sp_image = i, sp_sessionId = s, sp_networkEnabled = n\<rparr>
     | _ \<Rightarrow> None)"

definition ExecResult :: "exec_result schema" where
  "ExecResult = z_object (\<lambda>kvs.
     case (z_int (map_of kvs ''exitCode''), z_string (map_of kvs ''stdout''), z_string (map_of kvs ''stderr'')) of
       (Some c, Some out, Some err) \<Rightarrow> Some \<lparr>er_exitCode = c, er_stdout = out, er_stderr = err\<rparr>
     | _ \<Rightarrow> None)"

definition IsolationGuarantees :: "isolation_guarantees schema" where
  "IsolationGuarantees = z_object (\<lambda>kvs.
     case (z_min1 (map_of kvs ''kind''), z_min1 (map_of kvs ''boundary''), z_boolean (map_of kvs ''vmGrade'')) of
       (Some k, Some b, Some v) \<Rightarrow> Some \<lparr>ig_kind = k, ig_boundary = b, ig_vmGrade = v\<rparr>
     | _ \<Rightarrow> None)"

definition identity_object :: "intendant_identity \<Rightarrow> json" where
  "identity_object i = JObj [(''name'', JStr (ii_name i)), (''version'', JStr (ii_version i)), (''uri'', json_opt JStr (ii_uri i))]"

definition spec_json :: "sandbox_spec \<Rightarrow> json" where
  "spec_json s = JObj [(''image'', JStr (sp_image s)), (''sessionId'', JStr (sp_sessionId s)),
     (''networkEnabled'', JBool (sp_networkEnabled s))]"

definition isolation_json :: "isolation_guarantees \<Rightarrow> json" where
  "isolation_json g = JObj [(''kind'', JStr (ig_kind g)), (''boundary'', JStr (ig_boundary g)), (''vmGrade'', JBool (ig_vmGrade g))]"

lemma contracts_read [schema_reads]:
  "manifest_ok m \<Longrightarrow> IntendantManifest (Some (manifest_json m)) = Some m"
  "ii_name i \<noteq> [] \<Longrightarrow> ii_version i \<noteq> [] \<Longrightarrow> IntendantIdentity (Some (identity_object i)) = Some i"
  "sp_image s \<noteq> [] \<Longrightarrow> sp_sessionId s \<noteq> [] \<Longrightarrow> SandboxSpec (Some (spec_json s)) = Some s"
  "ExecResult (Some (exec_json r)) = Some r"
  "ig_kind g \<noteq> [] \<Longrightarrow> ig_boundary g \<noteq> [] \<Longrightarrow> IsolationGuarantees (Some (isolation_json g)) = Some g"
  by (simp_all add: IntendantManifest_def manifest_json_def manifest_ok_def IntendantIdentity_def identity_object_def SandboxSpec_def
      spec_json_def ExecResult_def exec_json_def IsolationGuarantees_def isolation_json_def z_object_def schema_reads)

text \<open>The network is closed unless a specification opens it.\<close>

lemma network_closed: "SandboxSpec (Some (JObj [(''image'', JStr [CHR ''i'']), (''sessionId'', JStr [CHR ''s''])]))
    = Some \<lparr>sp_image = ''i'', sp_sessionId = ''s'', sp_networkEnabled = False\<rparr>"
  by (simp add: SandboxSpec_def z_object_def schema_reads z_default_def)

text \<open>The names of the reserved and of the cross-chain members; the schema of events knows them all.\<close>

definition RESERVED_FIELD_NAMES :: "string list" where
  "RESERVED_FIELD_NAMES = [''tenant_id'', ''signing_key_id'', ''approval_binding_type'', ''intendant_identity_uri'', ''on_behalf_of'']"

definition CROSS_CHAIN_FIELD_NAMES :: "string list" where
  "CROSS_CHAIN_FIELD_NAMES = [''correlation_id'', ''gsb_receipt_tip_hash'']"

lemma reserved_members: "set RESERVED_FIELD_NAMES \<union> set CROSS_CHAIN_FIELD_NAMES \<subseteq> set journal_keys"
  "set RESERVED_FIELD_NAMES \<inter> set CROSS_CHAIN_FIELD_NAMES = {}"
  by (simp_all add: RESERVED_FIELD_NAMES_def CROSS_CHAIN_FIELD_NAMES_def journal_keys_def)

section \<open>The examples\<close>

definition HASH :: string where
  "HASH = replicate 64 (CHR ''a'')"

definition SIG :: string where
  "SIG = replicate 86 (CHR ''A'') @ ''==''"

definition validJournalEvent :: journal_event where
  "validJournalEvent = \<lparr>ev_seq = 1, ev_ts = ''2026-06-01T00:00:00.000Z'', ev_prevHash = None, ev_hash = HASH,
     ev_kind = ''tool_call.allow'', ev_actor = session_owner,
     ev_payload = [(''tool'', JStr ''Read''), (''path'', JStr ''/work/x'')], ev_signature = SIG,
     ev_tenant_id = None, ev_signing_key_id = None, ev_approval_binding_type = None, ev_intendant_identity_uri = None,
     ev_on_behalf_of = None, ev_correlation_id = None, ev_gsb_receipt_tip_hash = None\<rparr>"

definition validAllowVerdict :: policy_verdict where
  "validAllowVerdict = \<lparr>pv_decision = allow, pv_reason = ''read within workspace'', pv_ruleId = None, pv_tier = None\<rparr>"

definition validRequireVerdict :: policy_verdict where
  "validRequireVerdict = \<lparr>pv_decision = require, pv_reason = ''writes outside workspace need approval'',
     pv_ruleId = Some ''no-writes-outside-workspace'', pv_tier = Some tier_workspace\<rparr>"

definition validToolCallRequest :: gateway_message where
  "validToolCallRequest = ToolCallRequest \<lparr>tcr_id = ''msg-1'', tcr_sessionId = ''sess-1'', tcr_tool = ''Bash'',
     tcr_args = [(''command'', JStr ''ls'')], tcr_actor = claude_process\<rparr>"

definition validIntendantIdentity :: intendant_identity where
  "validIntendantIdentity = \<lparr>ii_name = ''claude-code'', ii_version = ''1.0.0'', ii_uri = None\<rparr>"

definition validSandboxSpec :: sandbox_spec where
  "validSandboxSpec = \<lparr>sp_image = ''agp-sandbox:v0'', sp_sessionId = ''sess-1'', sp_networkEnabled = False\<rparr>"

definition containerIsolation :: isolation_guarantees where
  "containerIsolation = \<lparr>ig_kind = ''docker-container'',
     ig_boundary = ''process + filesystem isolation; NOT a VM/kernel boundary'', ig_vmGrade = False\<rparr>"

definition validApprovalRequest :: approval_request where
  "validApprovalRequest = \<lparr>ar_messageId = ''msg-1'', ar_sessionId = ''sess-1'', ar_tool = ''Bash'', ar_verdict = validRequireVerdict\<rparr>"

text \<open>
  Every example is what its schema reads from its printed form; the timestamp is one the schema
  library takes.
\<close>

theorem fixtures_read:
  assumes "lib_datetime L ''2026-06-01T00:00:00.000Z''"
  shows "JournalEvent L (Some (event_json validJournalEvent)) = Some validJournalEvent"
    "PolicyVerdict (Some (verdict_json validAllowVerdict)) = Some validAllowVerdict"
    "PolicyVerdict (Some (verdict_json validRequireVerdict)) = Some validRequireVerdict"
    "GatewayMessage (Some (message_json validToolCallRequest)) = Some validToolCallRequest"
    "IntendantIdentity (Some (identity_object validIntendantIdentity)) = Some validIntendantIdentity"
    "SandboxSpec (Some (spec_json validSandboxSpec)) = Some validSandboxSpec"
    "IsolationGuarantees (Some (isolation_json containerIsolation)) = Some containerIsolation"
    "ApprovalRequest (Some (approval_request_json validApprovalRequest)) = Some validApprovalRequest"
proof -
  have "Sha256Hex HASH \<and> Ed25519SignatureB64 SIG" by code_simp
  then show "JournalEvent L (Some (event_json validJournalEvent)) = Some validJournalEvent"
    using assms by (intro JournalEvent_reads) (simp add: event_ok_def validJournalEvent_def)
  show "PolicyVerdict (Some (verdict_json validAllowVerdict)) = Some validAllowVerdict"
    "PolicyVerdict (Some (verdict_json validRequireVerdict)) = Some validRequireVerdict"
    by (auto intro!: PolicyVerdict_reads simp: verdict_ok_def validAllowVerdict_def validRequireVerdict_def)
  show "GatewayMessage (Some (message_json validToolCallRequest)) = Some validToolCallRequest"
    by (intro GatewayMessage_reads) (simp add: validToolCallRequest_def)
  show "IntendantIdentity (Some (identity_object validIntendantIdentity)) = Some validIntendantIdentity"
    "SandboxSpec (Some (spec_json validSandboxSpec)) = Some validSandboxSpec"
    "IsolationGuarantees (Some (isolation_json containerIsolation)) = Some containerIsolation"
    by (auto intro!: contracts_read simp: validIntendantIdentity_def validSandboxSpec_def containerIsolation_def)
  show "ApprovalRequest (Some (approval_request_json validApprovalRequest)) = Some validApprovalRequest"
    by (intro ApprovalRequest_reads) (simp add: approval_request_ok_def validApprovalRequest_def validRequireVerdict_def verdict_ok_def)
qed

end
